(* ===== verification/Prelude.thy ===== *)
theory Prelude
  imports Main "HOL-Library.Word"
begin

text \<open>
  Shared vocabulary of the development: bytes and machine words, the error values that
  the Go code returns, Go's slicing and \<open>copy\<close> on byte slices, decimal printing as
  \<open>fmt\<close> does it for \<open>%d\<close>, and the list, map and word lemmas that several
  components use.

  A Go \<open>error\<close> is a value of \<open>go_error\<close>; \<open>error\<close> results that may be \<open>nil\<close> are
  \<open>go_error option\<close> with \<open>None\<close> for \<open>nil\<close>. Errors made by \<open>fmt.Errorf\<close> keep their
  format string and arguments (\<open>Errorf\<close>); one that wraps another with \<open>%w\<close> is \<open>Wrapf\<close>.
\<close>

section \<open>Collections of facts\<close>

named_theorems wire_simps "sizes and constants of the wire formats"
named_theorems ring_simps "facts that carry the ring buffer proofs"
named_theorems step_defs "definitions of the handlers, unfolded in step proofs"

section \<open>Types\<close>

type_synonym byte = "8 word"
type_synonym u32 = "32 word"

datatype fmt_arg = ArgInt int | ArgStr string

datatype go_error =
    ErrEOF                    \<comment> \<open>\<open>io.EOF\<close>\<close>
  | ErrUnexpectedEOF          \<comment> \<open>\<open>io.ErrUnexpectedEOF\<close>\<close>
  | ErrClosedPipe             \<comment> \<open>\<open>io.ErrClosedPipe\<close>\<close>
  | ErrPipeFull               \<comment> \<open>\<open>muxproto.ErrPipeFull\<close>\<close>
  | ErrStreamReset            \<comment> \<open>\<open>muxproto.ErrStreamReset\<close>\<close>
  | ErrOffsetEvicted          \<comment> \<open>\<open>muxproto.ErrOffsetEvicted\<close>\<close>
  | ErrTransportDead          \<comment> \<open>\<open>tunnel.ErrTransportDead\<close>\<close>
  | ErrContext                \<comment> \<open>\<open>ctx.Err()\<close> of a cancelled or expired context\<close>
  | ErrNet string             \<comment> \<open>an error of the network stack\<close>
  | ErrDecode                 \<comment> \<open>an error of \<open>json.Unmarshal\<close>\<close>
  | Errorf string "fmt_arg list"
  | Wrapf string "fmt_arg list" go_error

section \<open>Slices\<close>

text \<open>\<open>go_slice i n xs\<close> is Go's \<open>xs[i:i+n]\<close> for bounds in range.\<close>

definition go_slice :: "nat \<Rightarrow> nat \<Rightarrow> 'a list \<Rightarrow> 'a list" where
  "go_slice i n xs = take n (drop i xs)"

text \<open>
  \<open>copy_at i src dst\<close> is the destination after Go's \<open>copy(dst[i:], src)\<close>, which copies
  \<open>min(len(dst) - i, len(src))\<close> elements and leaves the length of the destination alone.
\<close>

definition copy_at :: "nat \<Rightarrow> 'a list \<Rightarrow> 'a list \<Rightarrow> 'a list" where
  "copy_at i src dst = take i dst @ take (length dst - i) src @ drop (i + length src) dst"

lemma length_go_slice [simp]: "length (go_slice i n xs) = min n (length xs - i)"
  by (simp add: go_slice_def min_def)

lemma nth_go_slice: "j < n \<Longrightarrow> i + n \<le> length xs \<Longrightarrow> go_slice i n xs ! j = xs ! (i + j)"
  by (simp add: go_slice_def)

lemma length_copy_at [simp]: "i \<le> length dst \<Longrightarrow> length (copy_at i src dst) = length dst"
  by (simp add: copy_at_def min_def)

lemma nth_copy_at:
  assumes "i \<le> length dst" and "j < length dst"
  shows "copy_at i src dst ! j =
    (if i \<le> j \<and> j < i + length src then src ! (j - i) else dst ! j)"
proof -
  consider "j < i" | "i \<le> j" "j < i + length src" | "i + length src \<le> j"
    by linarith
  then show ?thesis
  proof cases
    case 1
    then show ?thesis using assms by (simp add: copy_at_def nth_append)
  next
    case 2
    then show ?thesis using assms
      by (simp add: copy_at_def nth_append min_def) linarith
  next
    case 3
    then have "length (take (length dst - i) src) = length src" using assms by simp
    then show ?thesis using assms 3
      by (auto simp: copy_at_def nth_append min_def)
  qed
qed

lemma take_min_length: "take (min (length d) n) d = take n d"
  by (simp add: min_def)

section \<open>Signed machine integers\<close>

text \<open>Go's \<open>int32\<close> and \<open>int64\<close> values are integers; their arithmetic wraps round.\<close>

definition go_int32 :: "int \<Rightarrow> int" where
  "go_int32 i = signed_take_bit 31 i"

definition go_int64 :: "int \<Rightarrow> int" where
  "go_int64 i = signed_take_bit 63 i"

lemma go_int32_id: "- 2147483648 \<le> i \<Longrightarrow> i < 2147483648 \<Longrightarrow> go_int32 i = i"
  by (simp add: go_int32_def signed_take_bit_int_eq_self)

lemma go_int64_id: "- 9223372036854775808 \<le> i \<Longrightarrow> i < 9223372036854775808 \<Longrightarrow> go_int64 i = i"
  by (simp add: go_int64_def signed_take_bit_int_eq_self)

lemma go_int64_small: "0 \<le> i \<Longrightarrow> i \<le> 2147483648 \<Longrightarrow> go_int64 i = i"
  by (simp add: go_int64_id)

lemma sint_word_of_int_id:
  "- 2147483648 \<le> i \<Longrightarrow> i < 2147483648 \<Longrightarrow> sint (word_of_int i :: u32) = i"
  by (simp add: sint_sbintrunc' signed_take_bit_int_eq_self)

section \<open>Decimal printing\<close>

fun show_nat :: "nat \<Rightarrow> string" where
  "show_nat n =
     (if n < 10 then [char_of (48 + n)] else show_nat (n div 10) @ [char_of (48 + n mod 10)])"

declare show_nat.simps [simp del]

definition show_int :: "int \<Rightarrow> string" where
  "show_int i = (if i < 0 then CHR ''-'' # show_nat (nat (- i)) else show_nat (nat i))"

section \<open>Letter case\<close>

text \<open>\<open>strings.EqualFold\<close> with an ASCII word that has no \<open>k\<close> or \<open>s\<close>: only ASCII letters fold.\<close>

definition ascii_lower :: "char \<Rightarrow> char" where
  "ascii_lower c = (let n = of_char c :: nat in if 65 \<le> n \<and> n \<le> 90 then char_of (n + 32) else c)"

definition equal_fold :: "string \<Rightarrow> string \<Rightarrow> bool" where
  "equal_fold a b \<longleftrightarrow> map ascii_lower a = map ascii_lower b"

end
