(* ===== verification/StreamBuf.thy ===== *)
theory StreamBuf
  imports Prelude
begin

text \<open>
  \<^verbatim>\<open>internal/mux_http/server/streambuf.go\<close>: \<open>StreamBuffer\<close>, the segmented append-only store of
  one push stream, read at absolute offsets and trimmed from the front. It refines a log with
  a base offset (locale \<open>offset_log\<close>). Offsets are \<open>int64\<close> byte counts; they are integers
  here.
\<close>

section \<open>Binary search\<close>

text \<open>\<open>sort.Search(n, f)\<close>.\<close>

function search_loop :: "(nat \<Rightarrow> bool) \<Rightarrow> nat \<Rightarrow> nat \<Rightarrow> nat" where
  "search_loop f i j =
     (if i < j
      then let h = (i + j) div 2
           in if \<not> f h then search_loop f (h + 1) j else search_loop f i h
      else i)"
  by pat_completeness auto
termination
  by (relation "measure (\<lambda>(f, i, j). j - i)") auto

declare search_loop.simps [simp del]

definition go_search :: "nat \<Rightarrow> (nat \<Rightarrow> bool) \<Rightarrow> nat" where
  "go_search n f = search_loop f 0 n"

lemma search_loop_least:
  assumes mono: "\<And>a b. a \<le> b \<Longrightarrow> b < n \<Longrightarrow> f a \<Longrightarrow> f b"
    and "i \<le> j" "j \<le> n" and "\<And>k. k < i \<Longrightarrow> \<not> f k" and "\<And>k. j \<le> k \<Longrightarrow> k < n \<Longrightarrow> f k"
  shows "search_loop f i j \<le> n \<and> (\<forall>k < search_loop f i j. \<not> f k) \<and>
    (\<forall>k. search_loop f i j \<le> k \<longrightarrow> k < n \<longrightarrow> f k)"
  using assms(2-5)
proof (induction "j - i" arbitrary: i j rule: less_induct)
  case less
  let ?h = "(i + j) div 2"
  show ?case
  proof (cases "i < j")
    case False
    then have "search_loop f i j = i" by (simp add: search_loop.simps [of f i j])
    with False less.prems show ?thesis by simp
  next
    case True
    then have h: "i \<le> ?h" "?h < j" by simp_all
    show ?thesis
    proof (cases "f ?h")
      case False
      then have lo: "\<not> f k" if "k < ?h + 1" for k
        using that mono [of k ?h] h less.prems(2) by force
      have "j - (?h + 1) < j - i" using h by simp
      from less.hyps [OF this _ less.prems(2) lo less.prems(4)] h True False show ?thesis
        by (simp add: search_loop.simps [of f i j])
    next
      case fh: True
      have hi: "f k" if "?h \<le> k" "k < n" for k using that mono [of ?h k] fh by blast
      have "?h - i < j - i" "?h \<le> n" using h less.prems(2) by simp_all
      from less.hyps [OF this(1) h(1) this(2) less.prems(3) hi] fh True show ?thesis
        by (simp add: search_loop.simps [of f i j])
    qed
  qed
qed

lemma go_search_least:
  assumes "\<And>a b. a \<le> b \<Longrightarrow> b < n \<Longrightarrow> f a \<Longrightarrow> f b"
  shows "go_search n f \<le> n" and "\<And>k. k < go_search n f \<Longrightarrow> \<not> f k"
    and "\<And>k. go_search n f \<le> k \<Longrightarrow> k < n \<Longrightarrow> f k"
  using search_loop_least [of n f 0 n] assms by (simp_all add: go_search_def)

section \<open>State and operations\<close>

definition segmentSize :: nat where "segmentSize = 4 * 1024 * 1024"

record segment =
  sg_base :: int
  sg_data :: "byte list"

record stream_buffer =
  sb_segments :: "segment list"
  sb_base :: int
  sb_write :: int
  sb_maxRetain :: int
  sb_closed :: bool
  sb_closeErr :: "go_error option"

definition NewStreamBuffer :: "int \<Rightarrow> stream_buffer" where
  "NewStreamBuffer maxRetain =
     \<lparr>sb_segments = [], sb_base = 0, sb_write = 0, sb_maxRetain = maxRetain,
      sb_closed = False, sb_closeErr = None\<rparr>"

text \<open>The copying loop of \<open>Append\<close>: \<open>at\<close> is \<open>writeOffset + written\<close>, \<open>d\<close> the data not yet written.\<close>

definition sb_room_segment :: "int \<Rightarrow> segment list \<Rightarrow> segment list" where
  "sb_room_segment at segs =
     (if segs = [] \<or> length (sg_data (last segs)) \<ge> segmentSize
      then segs @ [\<lparr>sg_base = at, sg_data = []\<rparr>] else segs)"

definition sb_fill :: "byte list \<Rightarrow> segment list \<Rightarrow> segment list" where
  "sb_fill d segs = butlast segs @ [(last segs)\<lparr>sg_data := sg_data (last segs) @ d\<rparr>]"

function sb_append_loop :: "int \<Rightarrow> byte list \<Rightarrow> segment list \<Rightarrow> segment list" where
  "sb_append_loop at d segs =
     (if d = [] then segs
      else let segs1 = sb_room_segment at segs;
               avail = segmentSize - length (sg_data (last segs1));
               n = (if length d > avail then avail else length d)
           in sb_append_loop (at + int n) (drop n d) (sb_fill (take n d) segs1))"
  by pat_completeness auto
termination
  by (relation "measure (\<lambda>(at, d, segs). length d)")
    (auto simp: sb_room_segment_def segmentSize_def)

declare sb_append_loop.simps [simp del]

datatype append_res = AppendWaits | AppendFails go_error | Appended stream_buffer

definition sb_Append :: "byte list \<Rightarrow> stream_buffer \<Rightarrow> append_res" where
  "sb_Append d b =
     (if \<not> sb_closed b \<and> sb_write b - sb_base b \<ge> sb_maxRetain b then AppendWaits
      else if sb_closed b then AppendFails (Errorf ''stream buffer closed'' [])
      else Appended (b\<lparr>sb_segments := sb_append_loop (sb_write b) d (sb_segments b),
                       sb_write := sb_write b + int (length d)\<rparr>))"

definition sb_Close :: "go_error option \<Rightarrow> stream_buffer \<Rightarrow> stream_buffer" where
  "sb_Close closeErr b =
     (if sb_closed b then b
      else b\<lparr>sb_closed := True, sb_closeErr := Some (case closeErr of None \<Rightarrow> ErrEOF | Some e \<Rightarrow> e)\<rparr>)"

definition sb_IsClosed :: "stream_buffer \<Rightarrow> bool" where
  "sb_IsClosed b = sb_closed b"

definition sb_WriteOffset :: "stream_buffer \<Rightarrow> int" where
  "sb_WriteOffset b = sb_write b"

definition sg_end :: "segment \<Rightarrow> int" where
  "sg_end s = sg_base s + int (length (sg_data s))"

text \<open>
  The copying loop of \<open>Read\<close>, over the segments from the first one on: \<open>m\<close> is \<open>len(buf)\<close>, \<open>out\<close>
  the part of \<open>buf\<close> that is filled, \<open>sb_slice\<close> what one turn copies.
\<close>

definition sb_slice :: "int \<Rightarrow> nat \<Rightarrow> segment \<Rightarrow> byte list" where
  "sb_slice pos want seg =
     (let start0 = pos - sg_base seg;
          start = (if start0 < 0 then 0 else start0);
          end0 = int (length (sg_data seg));
          end1 = (if end0 - start > int want then start + int want else end0)
      in go_slice (nat start) (nat (end1 - start)) (sg_data seg))"

fun sb_read_loop :: "int \<Rightarrow> nat \<Rightarrow> segment list \<Rightarrow> byte list \<Rightarrow> byte list" where
  "sb_read_loop offset m [] out = out"
| "sb_read_loop offset m (seg # segs) out =
     (if length out < m
      then sb_read_loop offset m segs (out @ sb_slice (offset + int (length out)) (m - length out) seg)
      else out)"

definition sb_first_after :: "int \<Rightarrow> segment list \<Rightarrow> nat" where
  "sb_first_after offset segs = go_search (length segs) (\<lambda>i. sg_end (segs ! i) > offset)"

definition sb_Read :: "int \<Rightarrow> nat \<Rightarrow> stream_buffer \<Rightarrow> byte list \<times> go_error option" where
  "sb_Read offset m b =
     (if offset < sb_base b then ([], Some ErrOffsetEvicted)
      else if offset \<ge> sb_write b
      then (if sb_closed b then ([], sb_closeErr b) else ([], None))
      else (sb_read_loop offset m (drop (sb_first_after offset (sb_segments b)) (sb_segments b)) [], None))"

text \<open>Whether \<open>WaitForData\<close> waits.\<close>

definition sb_WaitForData :: "go_error option \<Rightarrow> int \<Rightarrow> stream_buffer \<Rightarrow> bool" where
  "sb_WaitForData ctx offset b \<longleftrightarrow> \<not> sb_closed b \<and> sb_write b \<le> offset \<and> ctx = None"

definition sb_Trim :: "int \<Rightarrow> stream_buffer \<Rightarrow> stream_buffer" where
  "sb_Trim minOffset b =
     (let trimCount = sb_first_after minOffset (sb_segments b)
      in if trimCount = 0 then b
         else let segs = drop trimCount (sb_segments b)
              in b\<lparr>sb_segments := segs, sb_base := (if segs \<noteq> [] then sg_base (hd segs) else sb_write b)\<rparr>)"

section \<open>Invariant and abstraction\<close>

text \<open>The segments are not empty and follow each other without gap from \<open>from\<close> to \<open>to\<close>.\<close>

fun seg_chain :: "int \<Rightarrow> segment list \<Rightarrow> int \<Rightarrow> bool" where
  "seg_chain from [] to \<longleftrightarrow> from = to"
| "seg_chain from (s # ss) to \<longleftrightarrow> sg_base s = from \<and> sg_data s \<noteq> [] \<and> length (sg_data s) \<le> segmentSize \<and>
     seg_chain (sg_end s) ss to"

definition sb_inv :: "stream_buffer \<Rightarrow> bool" where
  "sb_inv b \<longleftrightarrow> seg_chain (sb_base b) (sb_segments b) (sb_write b) \<and> (sb_closed b \<longleftrightarrow> sb_closeErr b \<noteq> None)"

definition seg_bytes :: "segment list \<Rightarrow> byte list" where
  "seg_bytes segs = concat (map sg_data segs)"

definition sb_content :: "stream_buffer \<Rightarrow> byte list" where
  "sb_content b = seg_bytes (sb_segments b)"

lemma seg_bytes_simps [simp]:
  "seg_bytes [] = []" "seg_bytes (s # ss) = sg_data s @ seg_bytes ss"
  "seg_bytes (ss @ ts) = seg_bytes ss @ seg_bytes ts"
  by (simp_all add: seg_bytes_def)

lemma seg_chain_append:
  "seg_chain a (ss @ ts) c \<longleftrightarrow> (\<exists>b. seg_chain a ss b \<and> seg_chain b ts c)"
  by (induction ss arbitrary: a) auto

lemma seg_chain_length: "seg_chain a ss b \<Longrightarrow> b = a + int (length (seg_bytes ss))"
proof (induction ss arbitrary: a)
  case (Cons s ss)
  then have "seg_chain (sg_end s) ss b" "sg_base s = a" by simp_all
  from Cons.IH [OF this(1)] this(2) show ?case by (simp add: sg_end_def)
qed simp

lemma sb_content_length: "sb_inv b \<Longrightarrow> sb_write b = sb_base b + int (length (sb_content b))"
  unfolding sb_inv_def sb_content_def by (blast dest: seg_chain_length)

section \<open>The operations on the log\<close>

lemma segmentSize_pos [simp]: "0 < segmentSize"
  by (simp add: segmentSize_def)

lemma seg_chain_last:
  "seg_chain a (ss @ [s]) b \<longleftrightarrow> seg_chain a ss (sg_base s) \<and> sg_data s \<noteq> [] \<and>
     length (sg_data s) \<le> segmentSize \<and> b = sg_end s"
  by (auto simp: seg_chain_append)

lemma sb_fill_room:
  assumes "seg_chain a segs at" and "d \<noteq> []"
    and "length d \<le> segmentSize - length (sg_data (last (sb_room_segment at segs)))"
  shows "seg_chain a (sb_fill d (sb_room_segment at segs)) (at + int (length d)) \<and>
    seg_bytes (sb_fill d (sb_room_segment at segs)) = seg_bytes segs @ d"
proof (cases "segs = [] \<or> length (sg_data (last segs)) \<ge> segmentSize")
  case True
  with assms show ?thesis
    by (auto simp: sb_room_segment_def sb_fill_def seg_chain_last sg_end_def)
next
  case False
  then obtain ss s where s: "segs = ss @ [s]" "length (sg_data s) < segmentSize"
    by (metis append_butlast_last_id not_le)
  with assms show ?thesis
    by (auto simp: sb_room_segment_def sb_fill_def seg_chain_last sg_end_def)
qed

lemma sb_append_loop_chain:
  "seg_chain a segs at \<Longrightarrow> seg_chain a (sb_append_loop at d segs) (at + int (length d)) \<and>
     seg_bytes (sb_append_loop at d segs) = seg_bytes segs @ d"
proof (induction at d segs rule: sb_append_loop.induct)
  case (1 at d segs)
  show ?case
  proof (cases "d = []")
    case True
    with "1.prems" show ?thesis by (simp add: sb_append_loop.simps)
  next
    case False
    let ?segs = "sb_room_segment at segs"
    let ?avail = "segmentSize - length (sg_data (last ?segs))"
    let ?n = "if length d > ?avail then ?avail else length d"
    have av: "0 < ?avail" by (auto simp: sb_room_segment_def)
    then have ne: "take ?n d \<noteq> []" using False by auto
    have le: "length (take ?n d) \<le> ?avail" by simp
    have len: "int (length (take ?n d)) = int ?n" by simp
    note f = sb_fill_room [OF "1.prems" ne le]
    have unf: "sb_append_loop at d segs = sb_append_loop (at + int ?n) (drop ?n d) (sb_fill (take ?n d) ?segs)"
      using False by (subst sb_append_loop.simps) (simp add: Let_def)
    from f len have "seg_chain a (sb_fill (take ?n d) ?segs) (at + int ?n)" by metis
    from "1.IH" [OF False refl refl refl this] f show ?thesis
      unfolding unf by simp
  qed
qed

lemma sb_Append_ok:
  assumes "sb_inv b" and "sb_Append d b = Appended b'"
  shows "sb_inv b' \<and> sb_content b' = sb_content b @ d \<and> sb_base b' = sb_base b \<and>
    sb_write b' = sb_write b + int (length d) \<and> sb_closed b' = sb_closed b \<and> \<not> sb_closed b"
  using assms sb_append_loop_chain [of "sb_base b" "sb_segments b" "sb_write b" d]
  by (auto simp: sb_Append_def sb_inv_def sb_content_def split: if_splits)

text \<open>Ends grow along a chain, so the search finds the first segment that reaches past an offset.\<close>

lemma seg_chain_nth_end:
  "seg_chain a ss b \<Longrightarrow> i < length ss \<Longrightarrow> sg_end (ss ! i) = a + int (length (seg_bytes (take (Suc i) ss)))"
proof -
  assume c: "seg_chain a ss b" and i: "i < length ss"
  from i have "ss = take i ss @ ss ! i # drop (Suc i) ss" by (simp add: id_take_nth_drop)
  with c have "seg_chain a (take i ss @ ss ! i # drop (Suc i) ss) b" by simp
  then obtain x where x: "seg_chain a (take i ss) x" "sg_base (ss ! i) = x"
    by (auto simp: seg_chain_append)
  from seg_chain_length [OF x(1)] x(2) i show ?thesis
    by (simp add: sg_end_def take_Suc_conv_app_nth)
qed

lemma seg_end_mono:
  assumes "seg_chain a ss b" and "i \<le> j" and "j < length ss"
  shows "sg_end (ss ! i) \<le> sg_end (ss ! j)"
proof -
  have "take (Suc j) ss = take (Suc i) ss @ drop (Suc i) (take (Suc j) ss)"
    using assms(2) append_take_drop_id [of "Suc i" "take (Suc j) ss"] by (simp add: min_def)
  then have "length (seg_bytes (take (Suc i) ss)) \<le> length (seg_bytes (take (Suc j) ss))"
    by (metis le_add1 length_append seg_bytes_simps(3))
  with seg_chain_nth_end [OF assms(1)] assms(2,3) show ?thesis by simp
qed

lemma sb_first_after:
  assumes "seg_chain a ss b"
  shows "sb_first_after x ss \<le> length ss"
    and "\<And>k. k < sb_first_after x ss \<Longrightarrow> sg_end (ss ! k) \<le> x"
    and "\<And>k. sb_first_after x ss \<le> k \<Longrightarrow> k < length ss \<Longrightarrow> x < sg_end (ss ! k)"
proof -
  have m: "\<And>i j. i \<le> j \<Longrightarrow> j < length ss \<Longrightarrow> x < sg_end (ss ! i) \<Longrightarrow> x < sg_end (ss ! j)"
    using seg_end_mono [OF assms] by force
  note g = go_search_least [of "length ss" "\<lambda>i. sg_end (ss ! i) > x", OF m]
  show "sb_first_after x ss \<le> length ss" using g(1) by (simp add: sb_first_after_def)
  show "sg_end (ss ! k) \<le> x" if "k < sb_first_after x ss" for k
    using g(2) that by (auto simp: sb_first_after_def not_less)
  show "x < sg_end (ss ! k)" if "sb_first_after x ss \<le> k" "k < length ss" for k
    using g(3) that by (auto simp: sb_first_after_def)
qed

text \<open>Where a chain is cut by the search: everything before the cut ends by the offset.\<close>

lemma sb_cut:
  assumes "seg_chain a ss b"
  obtains c where "seg_chain a (take (sb_first_after x ss) ss) c" "seg_chain c (drop (sb_first_after x ss) ss) b"
    "sb_first_after x ss = 0 \<or> c \<le> x" "drop (sb_first_after x ss) ss \<noteq> [] \<Longrightarrow> x < sg_end (ss ! sb_first_after x ss)"
proof -
  let ?k = "sb_first_after x ss"
  have "seg_chain a (take ?k ss @ drop ?k ss) b" using assms by simp
  then obtain c where c: "seg_chain a (take ?k ss) c" "seg_chain c (drop ?k ss) b"
    by (auto simp: seg_chain_append simp del: append_take_drop_id)
  have cx: "c \<le> x" if "?k \<noteq> 0"
  proof -
    have k: "?k - 1 < ?k" "?k - 1 < length ss" using that sb_first_after(1) [OF assms, of x] by simp_all
    from seg_chain_nth_end [OF assms k(2)] seg_chain_length [OF c(1)] that
    have "c = sg_end (ss ! (?k - 1))" by simp
    with sb_first_after(2) [OF assms k(1)] show ?thesis by simp
  qed
  have xe: "x < sg_end (ss ! ?k)" if "drop ?k ss \<noteq> []"
    using sb_first_after(3) [OF assms, of x ?k] that by simp
  show ?thesis
  proof (rule that [OF c])
    show "?k = 0 \<or> c \<le> x" using cx by blast
  qed (rule xe)
qed

lemma sb_read_loop_full: "m \<le> length out \<Longrightarrow> sb_read_loop offset m segs out = out"
  by (cases segs) simp_all

lemma sb_slice_take:
  assumes "sg_base seg \<le> pos" and "pos \<le> sg_end seg"
  shows "sb_slice pos want seg = take want (drop (nat (pos - sg_base seg)) (sg_data seg))"
proof -
  let ?k = "pos - sg_base seg" and ?d = "sg_data seg"
  have k: "0 \<le> ?k" "?k \<le> int (length ?d)" using assms by (simp_all add: sg_end_def)
  show ?thesis
  proof (cases "int (length ?d) - ?k > int want")
    case True
    then have "sb_slice pos want seg = go_slice (nat ?k) (nat (int want)) ?d"
      using k unfolding sb_slice_def Let_def by (simp del: nat_int)
    then show ?thesis by (simp add: go_slice_def)
  next
    case False
    then have "sb_slice pos want seg = go_slice (nat ?k) (nat (int (length ?d) - ?k)) ?d"
      using k unfolding sb_slice_def Let_def by simp
    moreover have "length (drop (nat ?k) ?d) \<le> nat (int (length ?d) - ?k)" "length (drop (nat ?k) ?d) \<le> want"
      using k False by simp_all
    ultimately show ?thesis by (simp add: go_slice_def)
  qed
qed

lemma sb_read_loop_chain:
  "seg_chain c segs w \<Longrightarrow> c \<le> offset + int (length out) \<Longrightarrow>
     (segs \<noteq> [] \<Longrightarrow> offset + int (length out) \<le> sg_end (hd segs)) \<Longrightarrow>
     sb_read_loop offset m segs out =
       out @ take (m - length out) (drop (nat (offset + int (length out) - c)) (seg_bytes segs))"
proof (induction segs arbitrary: c out)
  case (Cons s ss)
  let ?k = "offset + int (length out) - c" and ?d = "sg_data s"
  have s: "sg_base s = c" "seg_chain (sg_end s) ss w" "sg_end s = c + int (length ?d)"
    using Cons.prems(1) by (auto simp: sg_end_def)
  have k: "0 \<le> ?k" "?k \<le> int (length ?d)" using Cons.prems(2,3) s(3) by simp_all
  show ?case
  proof (cases "length out < m")
    case False
    then show ?thesis by (simp add: sb_read_loop_full)
  next
    case True
    let ?out = "out @ take (m - length out) (drop (nat ?k) ?d)"
    have step: "sb_read_loop offset m (s # ss) out = sb_read_loop offset m ss ?out"
      using True sb_slice_take [of s "offset + int (length out)" "m - length out"] Cons.prems(2,3) s(1) by simp
    show ?thesis
    proof (cases "m \<le> length ?out")
      case True
      have "m - length out \<le> length (drop (nat ?k) ?d)" using True \<open>length out < m\<close> by (auto simp: min_def split: if_splits)
      then show ?thesis
        using True unfolding step sb_read_loop_full [OF True] by (auto simp: drop_append)
    next
      case False
      then have sh: "length (drop (nat ?k) ?d) < m - length out" "?out = out @ drop (nat ?k) ?d"
        using True by (auto simp: min_def split: if_splits)
      have pos: "offset + int (length ?out) = sg_end s" using sh(2) k s(3) by simp
      have "sg_end s \<le> sg_end (hd ss)" if "ss \<noteq> []"
        using s(2) that by (cases ss) (auto simp: sg_end_def)
      with Cons.IH [OF s(2), of ?out] pos
      have "sb_read_loop offset m ss ?out = ?out @ take (m - length ?out) (seg_bytes ss)" by simp
      then show ?thesis unfolding step using sh k by (simp add: drop_append take_append nat_le_iff)
    qed
  qed
qed simp

lemma sb_Read_content:
  assumes "sb_inv b" and "sb_base b \<le> x" and "x < sb_write b"
  shows "sb_Read x m b = (take m (drop (nat (x - sb_base b)) (sb_content b)), None)"
proof -
  let ?ss = "sb_segments b" and ?k = "sb_first_after x (sb_segments b)"
  have ch: "seg_chain (sb_base b) ?ss (sb_write b)" using assms(1) by (simp add: sb_inv_def)
  from sb_cut [OF ch, of x] obtain c where c: "seg_chain (sb_base b) (take ?k ?ss) c"
    "seg_chain c (drop ?k ?ss) (sb_write b)" "?k = 0 \<or> c \<le> x" "drop ?k ?ss \<noteq> [] \<Longrightarrow> x < sg_end (?ss ! ?k)" by blast
  have cx: "c \<le> x" using c(1,3) assms(2) by auto
  have "hd (drop ?k ?ss) = ?ss ! ?k" if "drop ?k ?ss \<noteq> []" using that by (simp add: hd_drop_conv_nth)
  with c(4) have "drop ?k ?ss \<noteq> [] \<Longrightarrow> x + int (length ([]::byte list)) \<le> sg_end (hd (drop ?k ?ss))" by force
  from sb_read_loop_chain [OF c(2) _ this, of m] cx
  have r: "sb_read_loop x m (drop ?k ?ss) [] = take m (drop (nat (x - c)) (seg_bytes (drop ?k ?ss)))" by simp
  have len: "c = sb_base b + int (length (seg_bytes (take ?k ?ss)))" using seg_chain_length [OF c(1)] .
  have "sb_content b = seg_bytes (take ?k ?ss) @ seg_bytes (drop ?k ?ss)"
    unfolding sb_content_def by (metis append_take_drop_id seg_bytes_simps(3))
  moreover have "nat (x - sb_base b) = length (seg_bytes (take ?k ?ss)) + nat (x - c)" using len cx by simp
  ultimately have "drop (nat (x - sb_base b)) (sb_content b) = drop (nat (x - c)) (seg_bytes (drop ?k ?ss))"
    by (simp add: drop_append)
  with r assms(2,3) show ?thesis by (simp add: sb_Read_def)
qed

lemma sb_Trim_content:
  assumes "sb_inv b"
  shows "\<exists>k. sb_content (sb_Trim x b) = drop k (sb_content b) \<and> sb_base (sb_Trim x b) = sb_base b + int k \<and>
    k \<le> length (sb_content b) \<and> (k = 0 \<or> sb_base b + int k \<le> x) \<and> sb_inv (sb_Trim x b) \<and>
    sb_write (sb_Trim x b) = sb_write b \<and> sb_closed (sb_Trim x b) = sb_closed b"
proof -
  let ?ss = "sb_segments b" and ?k = "sb_first_after x (sb_segments b)"
  have ch: "seg_chain (sb_base b) ?ss (sb_write b)" using assms(1) by (simp add: sb_inv_def)
  from sb_cut [OF ch, of x] obtain c where c: "seg_chain (sb_base b) (take ?k ?ss) c"
    "seg_chain c (drop ?k ?ss) (sb_write b)" "?k = 0 \<or> c \<le> x" by blast
  have len: "c = sb_base b + int (length (seg_bytes (take ?k ?ss)))" using seg_chain_length [OF c(1)] .
  have cont: "sb_content b = seg_bytes (take ?k ?ss) @ seg_bytes (drop ?k ?ss)"
    unfolding sb_content_def by (metis append_take_drop_id seg_bytes_simps(3))
  have base: "(if drop ?k ?ss \<noteq> [] then sg_base (hd (drop ?k ?ss)) else sb_write b) = c"
    using c(2) by (cases "drop ?k ?ss") simp_all
  have t: "sb_Trim x b = b\<lparr>sb_segments := drop ?k ?ss, sb_base := c\<rparr>"
  proof (cases "?k = 0")
    case True
    with c(1) show ?thesis by (simp add: sb_Trim_def)
  qed (simp add: sb_Trim_def Let_def base [simplified])
  show ?thesis
  proof (intro exI [of _ "length (seg_bytes (take ?k ?ss))"] conjI)
    show "length (seg_bytes (take ?k ?ss)) = 0 \<or> sb_base b + int (length (seg_bytes (take ?k ?ss))) \<le> x"
      using c(3) len by auto
    show "sb_inv (sb_Trim x b)" using assms c(2) by (simp add: t sb_inv_def)
    show "sb_content (sb_Trim x b) = drop (length (seg_bytes (take ?k ?ss))) (sb_content b)"
      unfolding cont by (simp add: t) (simp add: sb_content_def)
  qed (simp_all add: t cont len)
qed

section \<open>The contract of an offset log\<close>

text \<open>
  What the push sender relies on: an append-only log read at absolute offsets, whose front may
  be trimmed, but never beyond the offset that the trim is given. A subscriber reads from its
  offset on, acknowledges, and after a reconnect goes on from an offset that it names, at or
  after what it has acknowledged; trims respect its acknowledgements. \<open>lr_log\<close> is everything that
  was ever appended.
\<close>

record 'b log_reader =
  lr_buf :: 'b
  lr_log :: "byte list"
  lr_off :: int
  lr_ack :: int
  lr_got :: "byte list"
  lr_err :: "go_error option"

datatype log_event =
    LogAppend "byte list"
  | LogRead nat
  | LogAck int
  | LogTrim int
  | LogReconnect int

fun log_step ::
  "(byte list \<Rightarrow> 'b \<Rightarrow> 'b option) \<Rightarrow> (int \<Rightarrow> nat \<Rightarrow> 'b \<Rightarrow> byte list \<times> go_error option) \<Rightarrow> (int \<Rightarrow> 'b \<Rightarrow> 'b)
     \<Rightarrow> log_event \<Rightarrow> 'b log_reader \<Rightarrow> 'b log_reader" where
  "log_step app rd trim (LogAppend d) r =
     (case app d (lr_buf r) of Some b \<Rightarrow> r\<lparr>lr_buf := b, lr_log := lr_log r @ d\<rparr> | None \<Rightarrow> r)"
| "log_step app rd trim (LogRead m) r =
     (if lr_off r < int (length (lr_log r))
      then (case rd (lr_off r) m (lr_buf r) of
              (bs, e) \<Rightarrow> r\<lparr>lr_off := lr_off r + int (length bs), lr_got := lr_got r @ bs, lr_err := e\<rparr>)
      else r)"
| "log_step app rd trim (LogAck x) r =
     (if lr_ack r < x \<and> x \<le> lr_off r then r\<lparr>lr_ack := x\<rparr> else r)"
| "log_step app rd trim (LogTrim x) r =
     (if x \<le> lr_ack r then r\<lparr>lr_buf := trim x (lr_buf r)\<rparr> else r)"
| "log_step app rd trim (LogReconnect x) r =
     (if lr_ack r \<le> x \<and> x \<le> lr_off r then r\<lparr>lr_off := x, lr_got := take (nat x) (lr_got r)\<rparr> else r)"

locale offset_log =
  fixes app :: "byte list \<Rightarrow> 'b \<Rightarrow> 'b option"
    and rd :: "int \<Rightarrow> nat \<Rightarrow> 'b \<Rightarrow> byte list \<times> go_error option"
    and trim :: "int \<Rightarrow> 'b \<Rightarrow> 'b"
    and base :: "'b \<Rightarrow> int"
    and content :: "'b \<Rightarrow> byte list"
    and inv :: "'b \<Rightarrow> bool"
  assumes app_log: "inv b \<Longrightarrow> app d b = Some b' \<Longrightarrow> inv b' \<and> content b' = content b @ d \<and> base b' = base b"
    and rd_log: "inv b \<Longrightarrow> base b \<le> x \<Longrightarrow> x < base b + int (length (content b)) \<Longrightarrow>
      rd x m b = (take m (drop (nat (x - base b)) (content b)), None)"
    and trim_log: "inv b \<Longrightarrow> \<exists>k. content (trim x b) = drop k (content b) \<and> base (trim x b) = base b + int k \<and>
      k \<le> length (content b) \<and> (k = 0 \<or> base b + int k \<le> x) \<and> inv (trim x b)"
begin

definition reader_inv :: "'b log_reader \<Rightarrow> bool" where
  "reader_inv r \<longleftrightarrow> inv (lr_buf r) \<and> 0 \<le> base (lr_buf r) \<and> base (lr_buf r) \<le> lr_ack r \<and> lr_ack r \<le> lr_off r \<and>
     lr_off r \<le> int (length (lr_log r)) \<and> content (lr_buf r) = drop (nat (base (lr_buf r))) (lr_log r) \<and>
     lr_got r = take (nat (lr_off r)) (lr_log r) \<and> lr_err r = None"

lemma reader_read:
  assumes "reader_inv r" and "lr_off r < int (length (lr_log r))"
  shows "rd (lr_off r) m (lr_buf r) = (take m (drop (nat (lr_off r)) (lr_log r)), None)"
proof -
  let ?b = "base (lr_buf r)"
  have b: "0 \<le> ?b" "?b \<le> lr_off r" "content (lr_buf r) = drop (nat ?b) (lr_log r)" "inv (lr_buf r)"
    using assms(1) by (simp_all add: reader_inv_def)
  then have "lr_off r < ?b + int (length (content (lr_buf r)))" using assms(2) by simp
  from rd_log [OF b(4,2) this, of m] b show ?thesis
    by (simp add: nat_diff_distrib)
qed

lemma reader_step:
  assumes "reader_inv r"
  shows "reader_inv (log_step app rd trim ev r)"
proof (cases ev)
  case (LogAppend d)
  with assms show ?thesis
    by (auto simp: reader_inv_def dest: app_log [rotated] split: option.split)
next
  case (LogRead m)
  show ?thesis
  proof (cases "lr_off r < int (length (lr_log r))")
    case True
    let ?bs = "take m (drop (nat (lr_off r)) (lr_log r))"
    have "nat (lr_off r + int (length ?bs)) = nat (lr_off r) + length ?bs"
      using assms by (simp add: reader_inv_def nat_add_distrib)
    then have "take (nat (lr_off r + int (length ?bs))) (lr_log r) = take (nat (lr_off r)) (lr_log r) @ ?bs"
      by (simp add: take_add min_def)
    with True assms reader_read [OF assms True, of m] LogRead show ?thesis
      by (auto simp: reader_inv_def)
  qed (use assms LogRead in simp)
next
  case (LogTrim x)
  show ?thesis
  proof (cases "x \<le> lr_ack r")
    case True
    have i: "inv (lr_buf r)" using assms by (simp add: reader_inv_def)
    from trim_log [OF i, of x] obtain k where "content (trim x (lr_buf r)) = drop k (content (lr_buf r))"
      "base (trim x (lr_buf r)) = base (lr_buf r) + int k" "k = 0 \<or> base (lr_buf r) + int k \<le> x"
      "inv (trim x (lr_buf r))" by blast
    with True assms LogTrim show ?thesis by (auto simp: reader_inv_def nat_add_distrib add.commute)
  qed (use assms LogTrim in simp)
qed (use assms in \<open>auto simp: reader_inv_def min_def\<close>)

lemma reader_steps: "reader_inv r \<Longrightarrow> reader_inv (fold (log_step app rd trim) evs r)"
  by (induction evs arbitrary: r) (simp_all add: reader_step)

end

definition sb_append_opt :: "byte list \<Rightarrow> stream_buffer \<Rightarrow> stream_buffer option" where
  "sb_append_opt d b = (case sb_Append d b of Appended b' \<Rightarrow> Some b' | _ \<Rightarrow> None)"

interpretation push_log: offset_log sb_append_opt sb_Read sb_Trim sb_base sb_content sb_inv
proof
  show "sb_inv b' \<and> sb_content b' = sb_content b @ d \<and> sb_base b' = sb_base b"
    if "sb_inv b" "sb_append_opt d b = Some b'" for b d b'
    using sb_Append_ok [OF that(1)] that(2) by (auto simp: sb_append_opt_def split: append_res.splits)
  show "sb_Read x m b = (take m (drop (nat (x - sb_base b)) (sb_content b)), None)"
    if "sb_inv b" "sb_base b \<le> x" "x < sb_base b + int (length (sb_content b))" for b x m
    using sb_Read_content [OF that(1,2)] sb_content_length [OF that(1)] that(3) by simp
  show "\<exists>k. sb_content (sb_Trim x b) = drop k (sb_content b) \<and> sb_base (sb_Trim x b) = sb_base b + int k \<and>
      k \<le> length (sb_content b) \<and> (k = 0 \<or> sb_base b + int k \<le> x) \<and> sb_inv (sb_Trim x b)"
    if "sb_inv b" for b x
    using sb_Trim_content [OF that, of x] by blast
qed

section \<open>Properties\<close>

lemma sb_inv_new: "sb_inv (NewStreamBuffer n)"
  by (simp add: sb_inv_def NewStreamBuffer_def)

text \<open>C9: The segmented buffer refines a plain log. \<open>Append\<close> adds its data at the write offset,
  \<open>Read\<close> with its binary search and its walk over the segments returns exactly the bytes at the
  offset, and \<open>Trim\<close> removes only bytes before the offset it is given; the segments stay
  contiguous and non-empty throughout.\<close>

theorem stream_buffer_refines_log:
  assumes "sb_inv b"
  shows "(sb_Append d b = Appended b' \<longrightarrow> sb_inv b' \<and> sb_content b' = sb_content b @ d \<and>
       sb_base b' = sb_base b \<and> sb_write b' = sb_write b + int (length d)) \<and>
    (sb_base b \<le> x \<and> x < sb_write b \<longrightarrow>
       sb_Read x m b = (take m (drop (nat (x - sb_base b)) (sb_content b)), None)) \<and>
    (\<exists>k. sb_content (sb_Trim x b) = drop k (sb_content b) \<and> sb_base (sb_Trim x b) = sb_base b + int k \<and>
       (k = 0 \<or> sb_base b + int k \<le> x) \<and> sb_write (sb_Trim x b) = sb_write b \<and> sb_inv (sb_Trim x b))"
  using sb_Append_ok [OF assms] sb_Read_content [OF assms] sb_Trim_content [OF assms, of x] by blast

lemma segment_example:
  "sb_Append [1, 2, 3] (NewStreamBuffer 10)
     = Appended \<lparr>sb_segments = [\<lparr>sg_base = 0, sg_data = [1, 2, 3]\<rparr>], sb_base = 0, sb_write = 3, sb_maxRetain = 10,
         sb_closed = False, sb_closeErr = None\<rparr>"
  by (simp add: sb_Append_def NewStreamBuffer_def sb_append_loop.simps sb_room_segment_def sb_fill_def
      segmentSize_def Let_def)

theorem stream_buffer_refines_log_witness:
  "sb_Read 1 5 \<lparr>sb_segments = [\<lparr>sg_base = 0, sg_data = [1, 2, 3]\<rparr>], sb_base = 0, sb_write = 3, sb_maxRetain = 10,
         sb_closed = False, sb_closeErr = None\<rparr> = ([2, 3], None)"
proof -
  let ?b = "\<lparr>sb_segments = [\<lparr>sg_base = 0, sg_data = [1, 2, 3::byte]\<rparr>], sb_base = 0, sb_write = 3, sb_maxRetain = 10,
         sb_closed = False, sb_closeErr = None\<rparr>"
  have i: "sb_inv ?b" using sb_Append_ok [OF sb_inv_new segment_example] by blast
  have "sb_Read 1 5 ?b = (take 5 (drop (nat (1 - sb_base ?b)) (sb_content ?b)), None)"
    using stream_buffer_refines_log [OF i, of "[]" ?b 1 5] by simp
  then show ?thesis by (simp add: sb_content_def)
qed

text \<open>A subscriber never misses and never repeats a byte. Over any interleaving of appends,
  reads, acknowledgements, trims up to what it has acknowledged, and reconnects that resume at
  or after that, what it has received is exactly the stream's beginning up to its offset, and
  no read ever finds its offset evicted.\<close>

theorem subscriber_gets_stream:
  "let r = fold (log_step sb_append_opt sb_Read sb_Trim) evs
       \<lparr>lr_buf = NewStreamBuffer n, lr_log = [], lr_off = 0, lr_ack = 0, lr_got = [], lr_err = None\<rparr>
   in lr_got r = take (nat (lr_off r)) (lr_log r) \<and> lr_off r \<le> int (length (lr_log r)) \<and> lr_err r = None"
proof -
  have "push_log.reader_inv \<lparr>lr_buf = NewStreamBuffer n, lr_log = [], lr_off = 0, lr_ack = 0, lr_got = [], lr_err = None\<rparr>"
    using sb_inv_new [of n] by (simp add: push_log.reader_inv_def) (simp add: NewStreamBuffer_def sb_content_def)
  from push_log.reader_steps [OF this, of evs] show ?thesis
    by (simp add: push_log.reader_inv_def Let_def)
qed

end
