(* ===== verification/Frame.thy ===== *)
theory Frame
  imports Prelude
begin

text \<open>
  The frame layer of the v2 mux protocol, \<^verbatim>\<open>internal/mux/muxproto/frame.go\<close>:
  constants, the \<open>Frame\<close> struct, \<open>WriteTo\<close> and \<open>ReadFrame\<close>, over models of
  \<open>encoding/binary\<close>, \<open>io.ReadFull\<close> and the \<open>io.Writer\<close> interface.
  The writer interface is the locale \<open>byte_writer\<close>; the connection theory interprets it on
  the buffered writer of \<open>MuxConn\<close>.
\<close>

unbundle bit_operations_syntax

section \<open>Big-endian 32-bit integers\<close>

text \<open>\<open>binary.BigEndian.PutUint32\<close> and \<open>Uint32\<close>.\<close>

definition put_u32 :: "u32 \<Rightarrow> byte list" where
  "put_u32 w = [ucast (drop_bit 24 w), ucast (drop_bit 16 w), ucast (drop_bit 8 w), ucast w]"

definition be_u32 :: "byte list \<Rightarrow> u32" where
  "be_u32 bs = ucast (bs ! 3) OR push_bit 8 (ucast (bs ! 2))
     OR push_bit 16 (ucast (bs ! 1)) OR push_bit 24 (ucast (bs ! 0))"

lemma length_put_u32 [simp, wire_simps]: "length (put_u32 w) = 4"
  by (simp add: put_u32_def)

lemma be_put_u32 [simp]: "be_u32 (put_u32 w) = w"
proof (rule bit_word_eqI)
  fix n assume n: "n < LENGTH(32)"
  then consider "n < 8" | "8 \<le> n" "n < 16" | "16 \<le> n" "n < 24" | "24 \<le> n" "n < 32"
    by fastforce
  then show "bit (be_u32 (put_u32 w)) n = bit w n"
    by cases (auto simp: be_u32_def put_u32_def bit_simps)
qed

lemma be_put_u32_append [simp]: "be_u32 (put_u32 w @ xs) = w"
proof -
  have "be_u32 (put_u32 w @ xs) = be_u32 (put_u32 w)"
    by (simp add: be_u32_def nth_append)
  then show ?thesis by simp
qed

section \<open>Constants\<close>

definition FrameHeaderSize :: nat where [wire_simps]: "FrameHeaderSize = 13"
definition MaxPayloadSize :: nat where [wire_simps]: "MaxPayloadSize = 8 * 1024 * 1024"
definition DataChunkSize :: nat where [wire_simps]: "DataChunkSize = 32 * 1024"
definition ControlStreamID :: u32 where [wire_simps]: "ControlStreamID = 0"

definition TypeRegister :: byte where [wire_simps]: "TypeRegister = 0x01"
definition TypeRegisterAck :: byte where [wire_simps]: "TypeRegisterAck = 0x02"
definition TypePing :: byte where [wire_simps]: "TypePing = 0x07"
definition TypePong :: byte where [wire_simps]: "TypePong = 0x08"
definition TypeGoAway :: byte where [wire_simps]: "TypeGoAway = 0x09"
definition TypePushData :: byte where [wire_simps]: "TypePushData = 0x10"
definition TypePushAck :: byte where [wire_simps]: "TypePushAck = 0x11"
definition TypePushRST :: byte where [wire_simps]: "TypePushRST = 0x12"
definition TypeHeaders :: byte where [wire_simps]: "TypeHeaders = 0x20"
definition TypeData :: byte where [wire_simps]: "TypeData = 0x21"
definition TypeRST :: byte where [wire_simps]: "TypeRST = 0x22"
definition TypeWindowUpdate :: byte where [wire_simps]: "TypeWindowUpdate = 0x30"

definition FlagEndStream :: byte where [wire_simps]: "FlagEndStream = 0x01"

definition WinDirRequest :: byte where [wire_simps]: "WinDirRequest = 0"
definition WinDirResponse :: byte where [wire_simps]: "WinDirResponse = 1"

lemma stream_types_distinct [simp]:
  "TypeHeaders \<noteq> TypeData" "TypeHeaders \<noteq> TypeRST" "TypeHeaders \<noteq> TypeWindowUpdate"
  "TypeData \<noteq> TypeHeaders" "TypeData \<noteq> TypeRST" "TypeData \<noteq> TypeWindowUpdate"
  "TypeRST \<noteq> TypeHeaders" "TypeRST \<noteq> TypeData" "TypeRST \<noteq> TypeWindowUpdate"
  "TypeWindowUpdate \<noteq> TypeHeaders" "TypeWindowUpdate \<noteq> TypeData" "TypeWindowUpdate \<noteq> TypeRST"
  by (simp_all add: wire_simps)

section \<open>Frames\<close>

record frame =
  StreamID :: u32
  FType :: byte
  FFlags :: byte
  Payload :: "byte list"

definition Flags_Has :: "byte \<Rightarrow> byte \<Rightarrow> bool" where
  "Flags_Has f flag \<longleftrightarrow> f AND flag \<noteq> 0"

definition HasFlag :: "frame \<Rightarrow> byte \<Rightarrow> bool" where
  "HasFlag f flag = Flags_Has (FFlags f) flag"

text \<open>The 13 header bytes that \<open>WriteTo\<close> fills in; the array is zero where it writes nothing.\<close>

definition frame_header :: "frame \<Rightarrow> byte list" where
  "frame_header f = put_u32 (StreamID f) @ [FType f, FFlags f]
     @ put_u32 (of_nat (length (Payload f))) @ [0, 0, 0]"

text \<open>
  \<open>WriteTo\<close> over any \<open>io.Writer\<close>: \<open>wr w bs\<close> is the error of \<open>w.Write(bs)\<close>
  (\<open>None\<close> for \<open>nil\<close>) and the writer afterwards.
\<close>

definition frame_write_to ::
  "('w \<Rightarrow> byte list \<Rightarrow> go_error option \<times> 'w) \<Rightarrow> frame \<Rightarrow> 'w \<Rightarrow> go_error option \<times> 'w" where
  "frame_write_to wr f w =
     (if length (Payload f) > MaxPayloadSize
      then (Some (Errorf ''payload too large: %d'' [ArgInt (int (length (Payload f)))]), w)
      else case wr w (frame_header f) of
             (Some e, w1) \<Rightarrow> (Some e, w1)
           | (None, w1) \<Rightarrow> if length (Payload f) > 0 then wr w1 (Payload f) else (None, w1))"

text \<open>
  A reader holds the bytes it will still deliver and the error it returns once they are
  used up. \<open>read_full\<close> is \<open>io.ReadFull\<close>: an \<open>io.EOF\<close> after a part of the buffer
  is reported as \<open>io.ErrUnexpectedEOF\<close>.
\<close>

record reader =
  rd_data :: "byte list"
  rd_err :: go_error

definition read_full :: "nat \<Rightarrow> reader \<Rightarrow> (go_error + byte list) \<times> reader" where
  "read_full n r =
     (if n \<le> length (rd_data r)
      then (Inr (take n (rd_data r)), r\<lparr>rd_data := drop n (rd_data r)\<rparr>)
      else (Inl (if rd_data r \<noteq> [] \<and> rd_err r = ErrEOF then ErrUnexpectedEOF else rd_err r),
            r\<lparr>rd_data := []\<rparr>))"

definition read_frame :: "reader \<Rightarrow> (go_error + frame) \<times> reader" where
  "read_frame r =
     (case read_full FrameHeaderSize r of
        (Inl e, r1) \<Rightarrow> (Inl e, r1)
      | (Inr hdr, r1) \<Rightarrow>
          (let f = \<lparr>StreamID = be_u32 (take 4 hdr), FType = hdr ! 4, FFlags = hdr ! 5,
                    Payload = []\<rparr>;
               len = be_u32 (go_slice 6 4 hdr)
           in if unat len > MaxPayloadSize
              then (Inl (Errorf ''payload too large: %d'' [ArgInt (uint len)]), r1)
              else if unat len > 0
              then (case read_full (unat len) r1 of
                      (Inl e, r2) \<Rightarrow> (Inl e, r2)
                    | (Inr p, r2) \<Rightarrow> (Inr (f\<lparr>Payload := p\<rparr>), r2))
              else (Inr f, r1)))"

text \<open>The bytes of one frame on the wire, and the frames that may be sent at all.\<close>

definition encode_frame :: "frame \<Rightarrow> byte list" where
  "encode_frame f = frame_header f @ Payload f"

definition frame_ok :: "frame \<Rightarrow> bool" where
  "frame_ok f \<longleftrightarrow> length (Payload f) \<le> MaxPayloadSize"

lemma length_frame_header [simp]: "length (frame_header f) = FrameHeaderSize"
  by (simp add: frame_header_def wire_simps)

lemma frame_header_nonempty: "frame_header f \<noteq> []"
  by (simp add: frame_header_def)

lemma length_encode_frame [simp]:
  "length (encode_frame f) = FrameHeaderSize + length (Payload f)"
  by (simp add: encode_frame_def)

section \<open>The writer interface\<close>

text \<open>
  What \<open>WriteTo\<close> relies on: \<open>out\<close> is everything the writer has accepted; a write
  without error accepts all its bytes, one with an error a prefix of them. \<open>write_parts\<close> is
  the part of \<open>WriteTo\<close> that both versions of the protocol share: a header, then the payload
  unless it is empty.
\<close>

definition write_parts ::
  "('w \<Rightarrow> byte list \<Rightarrow> go_error option \<times> 'w) \<Rightarrow> byte list \<Rightarrow> byte list \<Rightarrow> 'w \<Rightarrow> go_error option \<times> 'w" where
  "write_parts wr hdr p w =
     (case wr w hdr of
        (Some e, w1) \<Rightarrow> (Some e, w1)
      | (None, w1) \<Rightarrow> if length p > 0 then wr w1 p else (None, w1))"

lemma frame_write_to_parts:
  "frame_write_to wr f w =
     (if frame_ok f then write_parts wr (frame_header f) (Payload f) w
      else (Some (Errorf ''payload too large: %d'' [ArgInt (int (length (Payload f)))]), w))"
  by (simp add: frame_write_to_def write_parts_def frame_ok_def)

locale byte_writer =
  fixes wr :: "'w \<Rightarrow> byte list \<Rightarrow> go_error option \<times> 'w"
    and out :: "'w \<Rightarrow> byte list"
    and inv :: "'w \<Rightarrow> bool"
  assumes write_ok: "inv w \<Longrightarrow> wr w bs = (None, w') \<Longrightarrow> out w' = out w @ bs \<and> inv w'"
    and write_err: "inv w \<Longrightarrow> bs \<noteq> [] \<Longrightarrow> wr w bs = (Some e, w') \<Longrightarrow>
      inv w' \<and> (\<exists>k < length bs. out w' = out w @ take k bs)"
begin

lemma parts_ok:
  assumes "inv w" and "write_parts wr hdr p w = (None, w')"
  shows "out w' = out w @ hdr @ p \<and> inv w'"
proof -
  obtain w1 where h: "wr w hdr = (None, w1)"
    and p: "(if length p > 0 then wr w1 p else (None, w1)) = (None, w')"
    using assms(2) by (auto simp: write_parts_def split: prod.splits option.splits)
  from write_ok [OF assms(1) h] have w1: "out w1 = out w @ hdr" "inv w1"
    by simp_all
  with p show ?thesis by (cases "p = []") (auto dest: write_ok)
qed

lemma parts_err:
  assumes "inv w" and "hdr \<noteq> []" and "write_parts wr hdr p w = (Some e, w')"
  shows "inv w' \<and> (\<exists>k < length (hdr @ p). out w' = out w @ take k (hdr @ p))"
proof -
  obtain r w1 where h: "wr w hdr = (r, w1)" by fastforce
  show ?thesis
  proof (cases r)
    case (Some e1)
    with h assms(3) have "w' = w1" by (simp add: write_parts_def)
    with write_err [OF assms(1,2)] h Some obtain k where
      "inv w'" "k < length hdr" "out w' = out w @ take k hdr" by blast
    then show ?thesis
      by (intro conjI exI [of _ k]) simp_all
  next
    case None
    with h assms(3) have ne: "p \<noteq> []" and p: "wr w1 p = (Some e, w')"
      by (auto simp: write_parts_def split: if_splits)
    from write_ok [OF assms(1)] h None have w1: "out w1 = out w @ hdr" "inv w1"
      by simp_all
    from write_err [OF w1(2) ne p] obtain k where
      "inv w'" "k < length p" "out w' = out w1 @ take k p" by blast
    with w1 show ?thesis
      by (intro conjI exI [of _ "length hdr + k"]) simp_all
  qed
qed

lemma write_to_ok:
  assumes "inv w" and "frame_write_to wr f w = (None, w')"
  shows "frame_ok f \<and> out w' = out w @ encode_frame f \<and> inv w'"
  using assms parts_ok [OF assms(1), of "frame_header f" "Payload f" w']
  by (auto simp: frame_write_to_parts encode_frame_def split: if_splits)

lemma write_to_err:
  assumes "inv w" and "frame_write_to wr f w = (Some e, w')"
  shows "(\<not> frame_ok f \<and> w' = w) \<or>
    (frame_ok f \<and> inv w' \<and> (\<exists>k < length (encode_frame f). out w' = out w @ take k (encode_frame f)))"
  using assms parts_err [OF assms(1) frame_header_nonempty, of f "Payload f" e w']
  by (auto simp: frame_write_to_parts encode_frame_def split: if_splits)

end

section \<open>Reading back\<close>

lemma put_be_u32: "length bs = 4 \<Longrightarrow> put_u32 (be_u32 bs) = bs"
proof -
  assume len: "length bs = 4"
  then obtain a b c d where bs: "bs = [a, b, c, d]"
    by (auto simp: length_Suc_conv eval_nat_numeral)
  have "ucast (drop_bit 24 (be_u32 bs)) = a" "ucast (drop_bit 16 (be_u32 bs)) = b"
    "ucast (drop_bit 8 (be_u32 bs)) = c" "ucast (be_u32 bs) = d"
    by (rule bit_word_eqI; auto simp: bs be_u32_def bit_simps dest: bit_imp_le_length)+
  then show ?thesis by (simp add: put_u32_def bs)
qed

lemma unat_payload_len: "frame_ok f \<Longrightarrow> unat (of_nat (length (Payload f)) :: u32) = length (Payload f)"
  by (simp add: frame_ok_def wire_simps unsigned_of_nat take_bit_nat_eq_self_iff)

lemma read_full_append:
  "length xs = n \<Longrightarrow> read_full n \<lparr>rd_data = xs @ rest, rd_err = e\<rparr>
     = (Inr xs, \<lparr>rd_data = rest, rd_err = e\<rparr>)"
  by (simp add: read_full_def)

lemma header_fields:
  "be_u32 (take 4 (frame_header f)) = StreamID f"
  "frame_header f ! 4 = FType f" "frame_header f ! 5 = FFlags f"
  "be_u32 (go_slice 6 4 (frame_header f)) = of_nat (length (Payload f))"
  by (simp_all add: frame_header_def go_slice_def nth_append)

lemma read_frame_encode_aux:
  assumes "frame_ok f"
  shows "read_frame \<lparr>rd_data = encode_frame f @ rest, rd_err = e\<rparr>
    = (Inr f, \<lparr>rd_data = rest, rd_err = e\<rparr>)"
proof -
  have h: "read_full FrameHeaderSize \<lparr>rd_data = encode_frame f @ rest, rd_err = e\<rparr>
      = (Inr (frame_header f), \<lparr>rd_data = Payload f @ rest, rd_err = e\<rparr>)"
    by (simp add: encode_frame_def read_full_append)
  have p: "read_full (length (Payload f)) \<lparr>rd_data = Payload f @ rest, rd_err = e\<rparr>
      = (Inr (Payload f), \<lparr>rd_data = rest, rd_err = e\<rparr>)"
    by (simp add: read_full_append)
  have le: "\<not> MaxPayloadSize < length (Payload f)"
    using assms by (simp add: frame_ok_def)
  show ?thesis
  proof (cases "Payload f = []")
    case True
    then show ?thesis
      by (simp add: read_frame_def h header_fields Let_def)
  next
    case False
    then show ?thesis
      by (simp add: read_frame_def h header_fields unat_payload_len [OF assms] le p Let_def)
  qed
qed

lemma read_full_InrD:
  assumes "read_full n r = (Inr xs, r')"
  shows "length xs = n" and "rd_data r = xs @ rd_data r'" and "rd_err r' = rd_err r"
  using assms by (auto simp: read_full_def split: if_splits)

lemma header_split:
  assumes "length hdr = FrameHeaderSize"
  shows "hdr = take 4 hdr @ [hdr ! 4, hdr ! 5] @ go_slice 6 4 hdr @ drop 10 hdr"
proof -
  have 1: "hdr = take 4 hdr @ drop 4 hdr" by simp
  have 2: "drop 4 hdr = hdr ! 4 # hdr ! 5 # drop 6 hdr"
    using assms Cons_nth_drop_Suc [of 4 hdr] Cons_nth_drop_Suc [of 5 hdr]
    by (simp add: wire_simps)
  have 3: "drop 6 hdr = go_slice 6 4 hdr @ drop 10 hdr"
    using append_take_drop_id [of 4 "drop 6 hdr"] by (simp add: go_slice_def)
  show ?thesis
    by (subst 1, subst 2, subst 3) simp
qed

lemma read_frame_InrD:
  assumes "read_frame r = (Inr f, r')"
  shows "frame_ok f" and "rd_err r' = rd_err r"
    and "\<exists>res. length res = 3 \<and>
      rd_data r = take 10 (frame_header f) @ res @ Payload f @ rd_data r'"
proof -
  obtain hdr r1 where h: "read_full FrameHeaderSize r = (Inr hdr, r1)"
    using assms by (auto simp: read_frame_def split: prod.splits sum.splits)
  let ?len = "be_u32 (go_slice 6 4 hdr)"
  from assms h have le: "unat ?len \<le> MaxPayloadSize"
    by (auto simp: read_frame_def Let_def split: if_splits)
  note hd = read_full_InrD [OF h]
  have f: "StreamID f = be_u32 (take 4 hdr)" "FType f = hdr ! 4" "FFlags f = hdr ! 5"
    and pl: "length (Payload f) = unat ?len" "rd_data r1 = Payload f @ rd_data r'"
    "rd_err r' = rd_err r1"
    using assms h le
    by (auto simp: read_frame_def Let_def dest: read_full_InrD split: if_splits prod.splits sum.splits)
  show "frame_ok f" using pl le by (simp add: frame_ok_def)
  show "rd_err r' = rd_err r" using pl hd by simp
  have len4: "length (take 4 hdr) = 4" "length (go_slice 6 4 hdr) = 4"
    using hd by (simp_all add: wire_simps)
  have "take 10 (frame_header f) = take 4 hdr @ [hdr ! 4, hdr ! 5] @ go_slice 6 4 hdr"
    using len4 by (simp add: frame_header_def f pl put_be_u32)
  with header_split [OF hd(1)] hd(2) pl(2)
  have "rd_data r = take 10 (frame_header f) @ drop 10 hdr @ Payload f @ rd_data r'"
    by (metis append.assoc)
  moreover have "length (drop 10 hdr) = 3" using hd(1) by (simp add: wire_simps)
  ultimately show "\<exists>res. length res = 3 \<and>
      rd_data r = take 10 (frame_header f) @ res @ Payload f @ rd_data r'" by blast
qed

section \<open>The read loop\<close>

text \<open>
  \<open>for { f, err := conn.ReadFrame(); if err != nil { return }; ... }\<close>: the frames the loop
  hands to its dispatcher, and the error it stops with.
\<close>

function read_loop :: "reader \<Rightarrow> frame list \<times> go_error" where
  "read_loop r =
     (case read_frame r of
        (Inl e, _) \<Rightarrow> ([], e)
      | (Inr f, r') \<Rightarrow> (case read_loop r' of (fs, e) \<Rightarrow> (f # fs, e)))"
  by pat_completeness auto
termination
proof (relation "measure (\<lambda>r. length (rd_data r))", simp)
  fix r :: reader and res r' x
  assume a: "(res, r') = read_frame r" "res = Inr x"
  then obtain s where s: "length s = 3"
    "rd_data r = take 10 (frame_header x) @ s @ Payload x @ rd_data r'"
    using read_frame_InrD(3) [of r x r'] by metis
  have "length (rd_data r) = 13 + length (Payload x) + length (rd_data r')"
    unfolding s(2) using s(1) by (simp add: wire_simps)
  then show "(r', r) \<in> measure (\<lambda>r. length (rd_data r))" by simp
qed

declare read_loop.simps [simp del]

lemma read_loop_encode:
  "list_all frame_ok fs \<Longrightarrow>
   read_loop \<lparr>rd_data = concat (map encode_frame fs) @ rest, rd_err = e\<rparr>
     = (fs @ fst (read_loop \<lparr>rd_data = rest, rd_err = e\<rparr>), snd (read_loop \<lparr>rd_data = rest, rd_err = e\<rparr>))"
proof (induction fs)
  case Nil
  then show ?case by simp
next
  case (Cons f fs)
  then show ?case
    by (subst read_loop.simps) (simp add: read_frame_encode_aux split: prod.splits)
qed

lemma read_frame_prefix:
  assumes "frame_ok f" and "k < length (encode_frame f)"
  shows "read_frame \<lparr>rd_data = take k (encode_frame f), rd_err = ErrEOF\<rparr>
    = (Inl (if k = 0 \<or> k = FrameHeaderSize then ErrEOF else ErrUnexpectedEOF), \<lparr>rd_data = [], rd_err = ErrEOF\<rparr>)"
proof (cases "k < FrameHeaderSize")
  case True
  then have "take k (encode_frame f) = [] \<longleftrightarrow> k = 0"
    by (simp add: encode_frame_def frame_header_nonempty)
  with True show ?thesis
    by (simp add: read_frame_def read_full_def not_le)
next
  case False
  then obtain j where k: "k = FrameHeaderSize + j" by (metis le_iff_add not_less)
  with assms have j: "j < length (Payload f)" by simp
  have t: "take k (encode_frame f) = frame_header f @ take j (Payload f)"
    by (simp add: encode_frame_def k)
  have h: "read_full FrameHeaderSize \<lparr>rd_data = take k (encode_frame f), rd_err = ErrEOF\<rparr>
      = (Inr (frame_header f), \<lparr>rd_data = take j (Payload f), rd_err = ErrEOF\<rparr>)"
    by (simp add: t read_full_append)
  have le: "\<not> MaxPayloadSize < length (Payload f)" "Payload f \<noteq> []"
    using assms j by (auto simp: frame_ok_def)
  from j have "read_full (length (Payload f)) \<lparr>rd_data = take j (Payload f), rd_err = ErrEOF\<rparr>
      = (Inl (if j = 0 then ErrEOF else ErrUnexpectedEOF), \<lparr>rd_data = [], rd_err = ErrEOF\<rparr>)"
    using le by (simp add: read_full_def)
  with h le show ?thesis
    by (simp add: read_frame_def header_fields unat_payload_len [OF assms(1)] Let_def k)
qed

section \<open>Properties\<close>

text \<open>Frame synchronisation. A stream of encoded frames is read back by the read loop as
  exactly those frames, in order, and the loop then goes on with whatever bytes follow them
  as if the frames had never been there.\<close>

theorem frame_stream_roundtrip:
  assumes "list_all frame_ok fs"
  shows "read_loop \<lparr>rd_data = concat (map encode_frame fs) @ rest, rd_err = e\<rparr>
    = (fs @ fst (read_loop \<lparr>rd_data = rest, rd_err = e\<rparr>), snd (read_loop \<lparr>rd_data = rest, rd_err = e\<rparr>))"
  using assms by (rule read_loop_encode)

theorem frame_stream_roundtrip_witness:
  "read_loop \<lparr>rd_data = concat (map encode_frame
       [\<lparr>StreamID = 3, FType = TypeHeaders, FFlags = 0, Payload = [1, 2]\<rparr>,
        \<lparr>StreamID = 3, FType = TypeData, FFlags = 1, Payload = []\<rparr>]) @ [0, 0], rd_err = ErrEOF\<rparr>
   = ([\<lparr>StreamID = 3, FType = TypeHeaders, FFlags = 0, Payload = [1, 2]\<rparr>,
       \<lparr>StreamID = 3, FType = TypeData, FFlags = 1, Payload = []\<rparr>], ErrUnexpectedEOF)"
  by (subst frame_stream_roundtrip)
    (simp_all add: frame_ok_def MaxPayloadSize_def read_loop.simps [of "\<lparr>rd_data = [0, 0], rd_err = ErrEOF\<rparr>"]
      read_frame_def read_full_def wire_simps)

text \<open>Whatever bytes arrive, a frame that \<open>ReadFrame\<close> returns is within the payload limit,
  and the bytes consumed are that frame's encoding, except that the three reserved header bytes
  may hold anything: the reader never looks at them.\<close>

theorem read_frame_sound:
  assumes "read_frame r = (Inr f, r')"
  shows "frame_ok f \<and> rd_err r' = rd_err r \<and>
    (\<exists>res. length res = 3 \<and> rd_data r = take 10 (frame_header f) @ res @ Payload f @ rd_data r')"
  using read_frame_InrD [OF assms] by blast

theorem read_frame_sound_witness:
  "frame_ok \<lparr>StreamID = 1, FType = 0x21, FFlags = 0, Payload = [5]\<rparr> \<and>
   (\<exists>res. length res = 3 \<and> [0, 0, 0, 1, 0x21, 0, 0, 0, 0, 1, 9, 9, 9, 5] =
      take 10 (frame_header \<lparr>StreamID = 1, FType = 0x21, FFlags = 0, Payload = [5]\<rparr>) @ res @ [5])"
proof -
  have r: "read_frame \<lparr>rd_data = [0, 0, 0, 1, 0x21, 0, 0, 0, 0, 1, 9, 9, 9, 5], rd_err = ErrEOF\<rparr>
      = (Inr \<lparr>StreamID = 1, FType = 0x21, FFlags = 0, Payload = [5]\<rparr>, \<lparr>rd_data = [], rd_err = ErrEOF\<rparr>)"
    by (simp add: read_frame_def read_full_def wire_simps be_u32_def go_slice_def)
  show ?thesis using read_frame_sound [OF r] by simp
qed

text \<open>A connection that ends inside a frame never yields that frame: every proper prefix of an
  encoding is an error, \<open>io.EOF\<close> exactly when the cut is at the frame's start or between
  its header and its payload, and \<open>io.ErrUnexpectedEOF\<close> anywhere else.\<close>

theorem read_frame_truncated:
  assumes "frame_ok f" and "k < length (encode_frame f)"
  shows "fst (read_frame \<lparr>rd_data = take k (encode_frame f), rd_err = ErrEOF\<rparr>)
    = Inl (if k = 0 \<or> k = FrameHeaderSize then ErrEOF else ErrUnexpectedEOF)"
  by (simp add: read_frame_prefix [OF assms])

theorem read_frame_truncated_witness:
  "fst (read_frame \<lparr>rd_data = take 14 (encode_frame
      \<lparr>StreamID = 1, FType = TypeData, FFlags = 0, Payload = [5, 6]\<rparr>), rd_err = ErrEOF\<rparr>)
   = Inl ErrUnexpectedEOF"
  by (subst read_frame_truncated) (simp_all add: frame_ok_def FrameHeaderSize_def MaxPayloadSize_def)

text \<open>A header that announces more than 8 MiB is refused before any payload is read or
  allocated: only the header is consumed.\<close>

theorem read_frame_oversize:
  assumes "FrameHeaderSize \<le> length (rd_data r)"
    and "MaxPayloadSize < unat (be_u32 (go_slice 6 4 (rd_data r)))"
  shows "read_frame r =
    (Inl (Errorf ''payload too large: %d'' [ArgInt (uint (be_u32 (go_slice 6 4 (rd_data r))))]),
     r\<lparr>rd_data := drop FrameHeaderSize (rd_data r)\<rparr>)"
proof -
  have "go_slice 6 4 (take FrameHeaderSize (rd_data r)) = go_slice 6 4 (rd_data r)"
    by (simp add: go_slice_def drop_take wire_simps)
  with assms show ?thesis by (simp add: read_frame_def read_full_def Let_def)
qed

theorem read_frame_oversize_witness:
  "fst (read_frame \<lparr>rd_data = [0, 0, 0, 1, 0x21, 0, 1, 0, 0, 0, 0, 0, 0], rd_err = ErrEOF\<rparr>)
   = Inl (Errorf ''payload too large: %d'' [ArgInt 16777216])"
  by (subst read_frame_oversize) (simp_all add: wire_simps go_slice_def be_u32_def)

end
