(* ===== verification/Conn.thy ===== *)
theory Conn
  imports Frame
begin

text \<open>
  \<^verbatim>\<open>internal/mux/muxproto/conn.go\<close>: \<open>MuxConn\<close>, a network connection behind a
  \<open>bufio.Reader\<close> and a \<open>bufio.Writer\<close> of 64 KiB, with writes serialised by \<open>wmu\<close>
  (each operation here is the body under that mutex).

  The network side of the connection accepts \<open>nc_budget\<close> more bytes before it breaks;
  \<open>nc_wire\<close> is what the peer has been sent. \<open>bufio.Writer\<close> is modelled as its
  documentation and source say: bytes are buffered until a write does not fit, a write that
  does not fit into an empty buffer goes straight to the network, and an error is sticky.
\<close>

section \<open>The connection and its buffered writer\<close>

record mux_conn =
  nc_wire :: "byte list"
  nc_budget :: nat
  nc_closed :: bool
  bw_buf :: "byte list"
  bw_err :: "go_error option"
  br :: reader

definition bw_size :: nat where [wire_simps]: "bw_size = 64 * 1024"

definition NewMuxConn :: "nat \<Rightarrow> reader \<Rightarrow> mux_conn" where
  "NewMuxConn budget r =
     \<lparr>nc_wire = [], nc_budget = budget, nc_closed = False, bw_buf = [], bw_err = None, br = r\<rparr>"

text \<open>\<open>net.Conn.Write\<close>: everything within the budget, or an error and a proper prefix.\<close>

definition net_write :: "byte list \<Rightarrow> mux_conn \<Rightarrow> go_error option \<times> nat \<times> mux_conn" where
  "net_write bs c =
     (if nc_closed c then (Some (ErrNet ''use of closed network connection''), 0, c)
      else if length bs \<le> nc_budget c
      then (None, length bs,
            c\<lparr>nc_wire := nc_wire c @ bs, nc_budget := nc_budget c - length bs\<rparr>)
      else (Some (ErrNet ''broken pipe''), nc_budget c,
            c\<lparr>nc_wire := nc_wire c @ take (nc_budget c) bs, nc_budget := 0\<rparr>))"

text \<open>\<open>bufio.Writer.Flush\<close>: what the network did not take stays in the buffer.\<close>

definition bw_flush :: "mux_conn \<Rightarrow> go_error option \<times> mux_conn" where
  "bw_flush c =
     (case bw_err c of
        Some e \<Rightarrow> (Some e, c)
      | None \<Rightarrow>
          if bw_buf c = [] then (None, c)
          else case net_write (bw_buf c) c of
                 (None, _, c1) \<Rightarrow> (None, c1\<lparr>bw_buf := []\<rparr>)
               | (Some e, n, c1) \<Rightarrow>
                   (Some e, c1\<lparr>bw_buf := drop n (bw_buf c), bw_err := Some e\<rparr>))"

text \<open>
  \<open>bufio.Writer.Write\<close>. Its loop runs while the rest does not fit: with a non-empty buffer
  it fills and flushes the buffer, with an empty one it writes the whole rest to the network.
\<close>

definition bw_write_empty :: "byte list \<Rightarrow> mux_conn \<Rightarrow> go_error option \<times> mux_conn" where
  "bw_write_empty p c =
     (if length p \<le> bw_size then (None, c\<lparr>bw_buf := p\<rparr>)
      else case net_write p c of
             (None, _, c1) \<Rightarrow> (None, c1)
           | (Some e, _, c1) \<Rightarrow> (Some e, c1\<lparr>bw_err := Some e\<rparr>))"

definition bw_write :: "mux_conn \<Rightarrow> byte list \<Rightarrow> go_error option \<times> mux_conn" where
  "bw_write c p =
     (case bw_err c of
        Some e \<Rightarrow> (Some e, c)
      | None \<Rightarrow>
          (let avail = bw_size - length (bw_buf c)
           in if length p \<le> avail then (None, c\<lparr>bw_buf := bw_buf c @ p\<rparr>)
              else if bw_buf c = [] then bw_write_empty p c
              else case bw_flush (c\<lparr>bw_buf := bw_buf c @ take avail p\<rparr>) of
                     (Some e, c1) \<Rightarrow> (Some e, c1)
                   | (None, c1) \<Rightarrow> bw_write_empty (drop avail p) c1))"

section \<open>MuxConn\<close>

definition mc_ReadFrame :: "mux_conn \<Rightarrow> (go_error + frame) \<times> mux_conn" where
  "mc_ReadFrame c = (case read_frame (br c) of (res, r) \<Rightarrow> (res, c\<lparr>br := r\<rparr>))"

definition mc_WriteFrame :: "mux_conn \<Rightarrow> frame \<Rightarrow> go_error option \<times> mux_conn" where
  "mc_WriteFrame c f =
     (case frame_write_to bw_write f c of
        (Some e, c1) \<Rightarrow> (Some e, c1)
      | (None, c1) \<Rightarrow> bw_flush c1)"

definition mc_Close :: "mux_conn \<Rightarrow> mux_conn" where
  "mc_Close c = c\<lparr>nc_closed := True\<rparr>"

section \<open>The buffered writer meets the writer contract\<close>

text \<open>
  Accepted bytes are those on the wire followed by those in the buffer; the buffer never
  outgrows its size, and after an error the connection takes no more bytes.
\<close>

definition mc_out :: "mux_conn \<Rightarrow> byte list" where
  "mc_out c = nc_wire c @ bw_buf c"

definition mc_inv :: "mux_conn \<Rightarrow> bool" where
  "mc_inv c \<longleftrightarrow> length (bw_buf c) \<le> bw_size"

lemma net_write_ok:
  "net_write bs c = (None, n, c') \<Longrightarrow>
     nc_wire c' = nc_wire c @ bs \<and> n = length bs \<and> bw_buf c' = bw_buf c \<and> bw_err c' = bw_err c"
  by (auto simp: net_write_def split: if_splits)

lemma net_write_err:
  "net_write bs c = (Some e, n, c') \<Longrightarrow> bs \<noteq> [] \<Longrightarrow>
     nc_wire c' = nc_wire c @ take n bs \<and> n < length bs \<and> bw_buf c' = bw_buf c \<and> bw_err c' = bw_err c"
  by (auto simp: net_write_def split: if_splits)

lemma bw_flush_ok:
  "bw_flush c = (None, c') \<Longrightarrow>
     nc_wire c' = nc_wire c @ bw_buf c \<and> bw_buf c' = [] \<and> bw_err c = None \<and> bw_err c' = None"
  by (auto simp: bw_flush_def dest!: net_write_ok split: option.splits if_splits prod.splits)

lemma bw_flush_err:
  "bw_flush c = (Some e, c') \<Longrightarrow>
     mc_out c' = mc_out c \<and> length (bw_buf c') \<le> length (bw_buf c) \<and> bw_err c' = Some e"
  by (auto simp: bw_flush_def mc_out_def dest!: net_write_err split: option.splits if_splits prod.splits)

lemma bw_write_empty_ok:
  "bw_write_empty p c = (None, c') \<Longrightarrow> bw_buf c = [] \<Longrightarrow> bw_err c = None \<Longrightarrow>
     mc_out c' = mc_out c @ p \<and> mc_inv c' \<and> bw_err c' = None"
  by (auto simp: bw_write_empty_def mc_out_def mc_inv_def dest!: net_write_ok
      split: if_splits option.splits prod.splits)

lemma bw_write_empty_err:
  "bw_write_empty p c = (Some e, c') \<Longrightarrow> bw_buf c = [] \<Longrightarrow>
     (\<exists>k < length p. mc_out c' = mc_out c @ take k p) \<and> mc_inv c' \<and> bw_err c' = Some e"
  by (cases "p = []")
    (auto simp: bw_write_empty_def mc_out_def mc_inv_def dest!: net_write_err
      split: if_splits option.splits prod.splits)

lemma bw_write_ok:
  assumes "mc_inv c" and "bw_write c p = (None, c')"
  shows "mc_out c' = mc_out c @ p \<and> mc_inv c' \<and> bw_err c = None \<and> bw_err c' = None"
proof -
  let ?avail = "bw_size - length (bw_buf c)"
  from assms(2) have e: "bw_err c = None" by (auto simp: bw_write_def split: option.splits)
  consider "length p \<le> ?avail" | "\<not> length p \<le> ?avail" "bw_buf c = []"
    | "\<not> length p \<le> ?avail" "bw_buf c \<noteq> []" by blast
  then show ?thesis
  proof cases
    case 1
    with assms e show ?thesis by (auto simp: bw_write_def mc_out_def mc_inv_def)
  next
    case 2
    with assms e show ?thesis using bw_write_empty_ok [of p c c'] by (simp add: bw_write_def)
  next
    case 3
    with assms(2) e obtain c1 where f: "bw_flush (c\<lparr>bw_buf := bw_buf c @ take ?avail p\<rparr>) = (None, c1)"
      and w: "bw_write_empty (drop ?avail p) c1 = (None, c')"
      by (auto simp: bw_write_def Let_def split: option.splits prod.splits)
    from bw_flush_ok [OF f] bw_write_empty_ok [OF w] e show ?thesis
      by (simp add: mc_out_def)
  qed
qed

lemma bw_write_err:
  assumes "mc_inv c" and "p \<noteq> []" and "bw_write c p = (Some e, c')"
  shows "mc_inv c' \<and> (\<exists>k < length p. mc_out c' = mc_out c @ take k p) \<and> bw_err c' = Some e"
proof -
  let ?avail = "bw_size - length (bw_buf c)"
  show ?thesis
  proof (cases "bw_err c")
    case (Some e1)
    with assms show ?thesis by (auto simp: bw_write_def intro!: exI [of _ 0])
  next
    case None
    have nf: "\<not> length p \<le> ?avail"
      using assms(3) None by (auto simp: bw_write_def split: if_splits)
    show ?thesis
    proof (cases "bw_buf c = []")
      case True
      with assms nf None show ?thesis using bw_write_empty_err [of p c e c'] by (auto simp: bw_write_def)
    next
      case False
      let ?c = "c\<lparr>bw_buf := bw_buf c @ take ?avail p\<rparr>"
      have out: "mc_out ?c = mc_out c @ take ?avail p" by (simp add: mc_out_def)
      have len: "length (bw_buf ?c) \<le> bw_size" using nf assms(1) by (simp add: mc_inv_def)
      obtain r c1 where f: "bw_flush ?c = (r, c1)" by fastforce
      show ?thesis
      proof (cases r)
        case (Some e1)
        with f nf False None assms(3) have "c' = c1" "e1 = e" by (auto simp: bw_write_def)
        with bw_flush_err [of ?c e1 c1] f Some out len nf show ?thesis
          by (auto simp: mc_inv_def not_le intro!: exI [of _ ?avail])
      next
        case r: None
        with f nf False None assms(3) have w: "bw_write_empty (drop ?avail p) c1 = (Some e, c')"
          by (simp add: bw_write_def Let_def)
        from f r have fl: "bw_flush ?c = (None, c1)" by simp
        from bw_flush_ok [OF fl] out have c1: "mc_out c1 = mc_out c @ take ?avail p" "bw_buf c1 = []"
          by (simp_all add: mc_out_def)
        from bw_write_empty_err [OF w c1(2)] obtain k where
          "k < length (drop ?avail p)" "mc_out c' = mc_out c1 @ take k (drop ?avail p)"
          "mc_inv c'" "bw_err c' = Some e" by blast
        with c1 show ?thesis
          by (auto simp: take_add intro!: exI [of _ "?avail + k"])
      qed
    qed
  qed
qed

interpretation bufio: byte_writer bw_write mc_out mc_inv
  by unfold_locales (blast dest: bw_write_ok bw_write_err)+

section \<open>Frames on the wire\<close>

text \<open>A sequence of \<open>WriteFrame\<close> calls, by whichever goroutines, in the order of the mutex.\<close>

fun mc_WriteFrames :: "mux_conn \<Rightarrow> frame list \<Rightarrow> go_error option list \<times> mux_conn" where
  "mc_WriteFrames c [] = ([], c)"
| "mc_WriteFrames c (f # fs) =
     (case mc_WriteFrame c f of (r, c1) \<Rightarrow>
        (case mc_WriteFrames c1 fs of (rs, c2) \<Rightarrow> (r # rs, c2)))"

text \<open>The frames whose \<open>WriteFrame\<close> returned \<open>nil\<close>.\<close>

definition written :: "frame list \<Rightarrow> go_error option list \<Rightarrow> frame list" where
  "written fs rs = map fst (filter (\<lambda>(f, r). r = None) (zip fs rs))"

definition wire_grows :: "mux_conn \<Rightarrow> mux_conn \<Rightarrow> bool" where
  "wire_grows c c' \<longleftrightarrow> (\<exists>x. nc_wire c' = nc_wire c @ x)"

lemma wire_grows_refl [simp, intro]: "wire_grows c c"
  by (simp add: wire_grows_def)

lemma wire_grows_trans: "wire_grows a b \<Longrightarrow> wire_grows b c \<Longrightarrow> wire_grows a c"
  by (auto simp: wire_grows_def)

lemma wire_grows_update [simp]:
  "wire_grows c (c'\<lparr>bw_buf := b\<rparr>) = wire_grows c c'" "wire_grows c (c'\<lparr>bw_err := e\<rparr>) = wire_grows c c'"
  "wire_grows (c\<lparr>bw_buf := b\<rparr>) c' = wire_grows c c'"
  by (simp_all add: wire_grows_def)

lemma net_write_grows: "net_write bs c = (r, n, c') \<Longrightarrow> wire_grows c c'"
  by (auto simp: net_write_def wire_grows_def split: if_splits)

lemma bw_flush_grows: "bw_flush c = (r, c') \<Longrightarrow> wire_grows c c'"
  by (auto simp: bw_flush_def dest!: net_write_grows split: option.splits if_splits prod.splits)

lemma bw_write_empty_grows: "bw_write_empty p c = (r, c') \<Longrightarrow> wire_grows c c'"
  by (auto simp: bw_write_empty_def dest!: net_write_grows split: option.splits if_splits prod.splits)

lemma bw_write_grows: "bw_write c p = (r, c') \<Longrightarrow> wire_grows c c'"
  by (auto simp: bw_write_def Let_def dest!: bw_flush_grows bw_write_empty_grows
      intro: wire_grows_trans split: option.splits if_splits prod.splits)

lemma write_parts_grows: "write_parts bw_write hdr p c = (r, c') \<Longrightarrow> wire_grows c c'"
  by (auto simp: write_parts_def dest!: bw_write_grows
      intro: wire_grows_trans split: option.splits if_splits prod.splits)

lemma bw_flush_err_nonempty:
  "bw_flush c = (Some e, c') \<Longrightarrow> bw_err c = None \<Longrightarrow> bw_buf c' \<noteq> []"
  by (auto simp: bw_flush_def dest!: net_write_err split: option.splits if_splits prod.splits)

lemma write_parts_no_err:
  assumes "mc_inv c" and "write_parts bw_write hdr p c = (None, c')"
  shows "bw_err c' = None"
proof -
  from assms(2) obtain c1 where h: "bw_write c hdr = (None, c1)"
    and p: "(if length p > 0 then bw_write c1 p else (None, c1)) = (None, c')"
    by (auto simp: write_parts_def split: option.splits prod.splits)
  from bw_write_ok [OF assms(1) h] p show ?thesis
    by (cases "p = []") (auto dest: bw_write_ok)
qed

lemma write_parts_keeps_err:
  assumes "mc_inv c" and "hdr \<noteq> []" and "write_parts bw_write hdr p c = (Some e, c')"
  shows "bw_err c' = Some e"
proof -
  obtain r c1 where h: "bw_write c hdr = (r, c1)" by fastforce
  show ?thesis
  proof (cases r)
    case (Some e1)
    with h assms have "bw_write c hdr = (Some e, c')"
      by (simp add: write_parts_def)
    from bw_write_err [OF assms(1,2) this] show ?thesis by simp
  next
    case None
    with h have i: "mc_inv c1" using bw_write_ok [OF assms(1)] by blast
    from None h assms have "p \<noteq> []" "bw_write c1 p = (Some e, c')"
      by (auto simp: write_parts_def split: if_splits)
    from bw_write_err [OF i this] show ?thesis by simp
  qed
qed

lemma write_parts_sticky: "bw_err c = Some e \<Longrightarrow> write_parts bw_write hdr p c = (Some e, c)"
  by (simp add: write_parts_def bw_write_def)

lemma prefix_of_split:
  assumes "w @ x @ b = w @ ys" and "b \<noteq> []"
  shows "\<exists>k < length ys. x = take k ys"
  using assms by (intro exI [of _ "length x"]) (auto simp flip: length_greater_0_conv)

text \<open>
  A wire format: \<open>hdr f\<close> is a header that is never empty, \<open>pl f\<close> the payload, \<open>ok\<close> the frames
  \<open>WriteTo\<close> accepts; \<open>dec\<close> is what a read loop makes of the bytes of a connection that then
  ends. Both versions of the protocol are formats; \<open>WriteTo\<close> refuses the frames that are not
  \<open>ok\<close> with the error \<open>big f\<close>.
\<close>

locale wire_format =
  fixes hdr :: "'f \<Rightarrow> byte list" and pl :: "'f \<Rightarrow> byte list" and ok :: "'f \<Rightarrow> bool"
    and big :: "'f \<Rightarrow> go_error" and dec :: "byte list \<Rightarrow> 'f list"
    and wfr :: "mux_conn \<Rightarrow> 'f \<Rightarrow> go_error option \<times> mux_conn"
  assumes hdr_nonempty: "hdr f \<noteq> []"
    and wfr_def: "wfr c f =
      (if ok f
       then case write_parts bw_write (hdr f) (pl f) c of
              (Some e, c1) \<Rightarrow> (Some e, c1)
            | (None, c1) \<Rightarrow> bw_flush c1
       else (Some (big f), c))"
    and dec_frames: "list_all ok fs \<Longrightarrow> dec (concat (map (\<lambda>f. hdr f @ pl f) fs) @ rest) = fs @ dec rest"
    and dec_prefix: "ok f \<Longrightarrow> k < length (hdr f @ pl f) \<Longrightarrow> dec (take k (hdr f @ pl f)) = []"
    and dec_nil: "dec [] = []"

text \<open>
  Between two calls the wire holds whole frames and an empty buffer, or the connection has
  failed and the wire ends in a proper prefix of a frame.
\<close>

definition conn_sync ::
  "('f \<Rightarrow> byte list) \<Rightarrow> ('f \<Rightarrow> bool) \<Rightarrow> mux_conn \<Rightarrow> 'f list \<Rightarrow> bool" where
  "conn_sync enc ok c fs \<longleftrightarrow> list_all ok fs \<and>
     ((bw_err c = None \<and> bw_buf c = [] \<and> nc_wire c = concat (map enc fs)) \<or>
      (bw_err c \<noteq> None \<and> mc_inv c \<and> (\<exists>f k. ok f \<and> k < length (enc f) \<and>
         nc_wire c = concat (map enc fs) @ take k (enc f))))"

lemma conn_sync_new: "conn_sync enc ok (NewMuxConn b r) []"
  by (simp add: conn_sync_def NewMuxConn_def)

context wire_format
begin

abbreviation "enc \<equiv> \<lambda>f. hdr f @ pl f"
abbreviation "csync \<equiv> conn_sync enc ok"

lemma wfr_sync:
  assumes "csync c fs" and w: "wfr c f = (r, c')"
  shows "csync c' (if r = None then fs @ [f] else fs)"
proof (cases "\<not> ok f \<or> bw_err c \<noteq> None")
  case True
  have "c' = c \<and> r \<noteq> None"
  proof (cases "ok f")
    case ok: True
    with True obtain e where "bw_err c = Some e" by auto
    from write_parts_sticky [OF this, of "hdr f" "pl f"] w ok show ?thesis by (auto simp: wfr_def)
  qed (use w in \<open>auto simp: wfr_def\<close>)
  with assms(1) show ?thesis by auto
next
  case False
  then have ok: "ok f" by simp
  with False assms(1) have c: "bw_buf c = []" "nc_wire c = concat (map enc fs)" "list_all ok fs"
    by (auto simp: conn_sync_def)
  then have i: "mc_inv c" and out: "mc_out c = nc_wire c" by (simp_all add: mc_inv_def mc_out_def)
  obtain r1 c1 where fw: "write_parts bw_write (hdr f) (pl f) c = (r1, c1)" by fastforce
  show ?thesis
  proof (cases r1)
    case r1: None
    with fw have fw: "write_parts bw_write (hdr f) (pl f) c = (None, c1)" by simp
    from bufio.parts_ok [OF i this] out have c1: "mc_out c1 = nc_wire c @ enc f" "mc_inv c1"
      by simp_all
    from w fw r1 ok have fl: "bw_flush c1 = (r, c')" by (simp add: wfr_def)
    show ?thesis
    proof (cases r)
      case rn: None
      with bw_flush_ok [of c1 c'] fl ok c1 c show ?thesis by (simp add: conn_sync_def mc_out_def)
    next
      case (Some e)
      from fl Some have fe: "bw_flush c1 = (Some e, c')" by simp
      note fe' = bw_flush_err [OF fe] bw_flush_err_nonempty [OF fe write_parts_no_err [OF i fw]]
      from write_parts_grows [OF fw] bw_flush_grows [OF fl] have "wire_grows c c'"
        by (rule wire_grows_trans)
      then obtain x where x: "nc_wire c' = nc_wire c @ x" by (auto simp: wire_grows_def)
      from fe' c1 x have "nc_wire c @ x @ bw_buf c' = nc_wire c @ enc f"
        by (simp add: mc_out_def)
      from prefix_of_split [OF this] fe' obtain k where "k < length (enc f)" "x = take k (enc f)"
        by blast
      with Some x c ok c1 fe' show ?thesis by (auto simp: conn_sync_def mc_inv_def)
    qed
  next
    case (Some e)
    with w fw ok have r: "r = Some e" "c' = c1" by (auto simp: wfr_def)
    from fw Some have fe: "write_parts bw_write (hdr f) (pl f) c = (Some e, c1)" by simp
    obtain k where k: "mc_inv c1" "k < length (enc f)" "mc_out c1 = nc_wire c @ take k (enc f)"
      using bufio.parts_err [OF i hdr_nonempty fe] unfolding out by blast
    from write_parts_grows [OF fw] obtain x where x: "nc_wire c1 = nc_wire c @ x"
      by (auto simp: wire_grows_def)
    with k(3) have xb: "x @ bw_buf c1 = take k (enc f)" by (simp add: mc_out_def)
    then have "x = take (length x) (take k (enc f))" by (metis append_eq_conv_conj)
    moreover have "length x \<le> k" using arg_cong [OF xb, of length] by simp
    ultimately have "x = take (length x) (enc f)" "length x < length (enc f)"
      using k(2) by (simp_all only: take_take min_absorb1)
    with ok have "\<exists>f k. ok f \<and> k < length (enc f) \<and> x = take k (enc f)" by blast
    with r x c(2,3) k(1) write_parts_keeps_err [OF i hdr_nonempty fe] show ?thesis
      by (simp add: conn_sync_def)
  qed
qed

lemma csync_decodes: "csync c fs \<Longrightarrow> dec (nc_wire c) = fs"
  using dec_frames [of fs "[]"] dec_frames [of fs] dec_prefix dec_nil
  by (auto simp: conn_sync_def)

end

section \<open>The frames of version 2\<close>

definition wire_frames :: "byte list \<Rightarrow> frame list" where
  "wire_frames bs = fst (read_loop \<lparr>rd_data = bs, rd_err = ErrEOF\<rparr>)"

lemma wire_frames_prefix: "frame_ok f \<Longrightarrow> k < length (encode_frame f) \<Longrightarrow> wire_frames (take k (encode_frame f)) = []"
  unfolding wire_frames_def by (subst read_loop.simps) (simp add: read_frame_prefix)

interpretation v2: wire_format frame_header Payload frame_ok
  "\<lambda>f. Errorf ''payload too large: %d'' [ArgInt (int (length (Payload f)))]" wire_frames mc_WriteFrame
proof
  fix f :: frame and k and c and fs :: "frame list" and rest
  show "frame_header f \<noteq> []" by (rule frame_header_nonempty)
  show "mc_WriteFrame c f =
    (if frame_ok f then case write_parts bw_write (frame_header f) (Payload f) c of
        (Some e, c1) \<Rightarrow> (Some e, c1) | (None, c1) \<Rightarrow> bw_flush c1
     else (Some (Errorf ''payload too large: %d'' [ArgInt (int (length (Payload f)))]), c))"
    by (simp add: mc_WriteFrame_def frame_write_to_parts)
  show "wire_frames (concat (map (\<lambda>f. frame_header f @ Payload f) fs) @ rest) = fs @ wire_frames rest"
    if "list_all frame_ok fs"
    using read_loop_encode [OF that, of rest ErrEOF] by (simp add: wire_frames_def encode_frame_def [abs_def])
  show "wire_frames (take k (frame_header f @ Payload f)) = []"
    if "frame_ok f" "k < length (frame_header f @ Payload f)"
    using wire_frames_prefix [of f k] that by (simp add: encode_frame_def)
  show "wire_frames [] = []"
    using wire_frames_prefix [of "\<lparr>StreamID = 0, FType = 0, FFlags = 0, Payload = []\<rparr>" 0]
    by (simp add: frame_ok_def FrameHeaderSize_def)
qed

lemma written_Cons [simp]:
  "written (f # fs) (r # rs) = (if r = None then f # written fs rs else written fs rs)"
  by (simp add: written_def)

lemma mc_WriteFrames_sync:
  "v2.csync c gs \<Longrightarrow> mc_WriteFrames c fs = (rs, c') \<Longrightarrow> v2.csync c' (gs @ written fs rs)"
proof (induction fs arbitrary: c gs rs)
  case Nil
  then show ?case by (auto simp: written_def)
next
  case (Cons f fs)
  obtain r c1 where w: "mc_WriteFrame c f = (r, c1)" by fastforce
  obtain rs1 where ws: "mc_WriteFrames c1 fs = (rs1, c')" "rs = r # rs1"
    using Cons.prems(2) w by (auto split: prod.splits)
  from Cons.IH [OF v2.wfr_sync [OF Cons.prems(1) w] ws(1)] ws(2) show ?case
    by (cases r) simp_all
qed

text \<open>A connection that works takes a frame that fits its buffer.\<close>

definition conn_ready :: "nat \<Rightarrow> mux_conn \<Rightarrow> bool" where
  "conn_ready n c \<longleftrightarrow> bw_err c = None \<and> bw_buf c = [] \<and> \<not> nc_closed c \<and> n \<le> nc_budget c"

lemma conn_ready_new: "n \<le> m \<Longrightarrow> conn_ready n (NewMuxConn m r)"
  by (simp add: conn_ready_def NewMuxConn_def)

lemma mc_WriteFrame_ready:
  assumes "conn_ready n c" and "length (encode_frame f) \<le> n" and "length (encode_frame f) \<le> bw_size"
  shows "\<exists>c'. mc_WriteFrame c f = (None, c') \<and> conn_ready (n - length (encode_frame f)) c'"
proof -
  have small: "length (frame_header f) \<le> bw_size" "length (Payload f) \<le> bw_size - length (frame_header f)"
    "\<not> MaxPayloadSize < length (Payload f)"
    using assms(3) by (simp_all add: encode_frame_def wire_simps)
  have e: "frame_write_to bw_write f c = (None, c\<lparr>bw_buf := encode_frame f\<rparr>)"
    using assms(1) small by (simp add: frame_write_to_def bw_write_def conn_ready_def encode_frame_def)
  have ne: "encode_frame f \<noteq> []" by (simp add: encode_frame_def frame_header_nonempty)
  show ?thesis
    using assms(1,2) ne by (auto simp: mc_WriteFrame_def e bw_flush_def net_write_def conn_ready_def)
qed

section \<open>Properties\<close>

text \<open>C24: Whatever the network does, and whichever of a sequence of \<open>WriteFrame\<close> calls fail
  (payload too large, a broken connection, a connection that breaks half way through a frame),
  a peer that runs the read loop over what arrived gets exactly the frames whose call returned
  \<open>nil\<close>, in order: no frame is torn, merged, reordered or invented.\<close>

theorem write_frames_decode:
  assumes "mc_WriteFrames (NewMuxConn budget r) fs = (rs, c)"
  shows "fst (read_loop \<lparr>rd_data = nc_wire c, rd_err = ErrEOF\<rparr>) = written fs rs"
proof -
  have "v2.csync c ([] @ written fs rs)"
    using conn_sync_new assms by (rule mc_WriteFrames_sync)
  from v2.csync_decodes [OF this] show ?thesis by (simp add: wire_frames_def)
qed

theorem write_frames_decode_witness:
  "fst (read_loop \<lparr>rd_data = nc_wire (snd (mc_WriteFrames (NewMuxConn 20 \<lparr>rd_data = [], rd_err = ErrEOF\<rparr>)
       [\<lparr>StreamID = 1, FType = TypeData, FFlags = 0, Payload = [7, 8]\<rparr>,
        \<lparr>StreamID = 1, FType = TypeData, FFlags = 1, Payload = [9]\<rparr>])), rd_err = ErrEOF\<rparr>)
   = [\<lparr>StreamID = 1, FType = TypeData, FFlags = 0, Payload = [7, 8]\<rparr>]"
  by (rule write_frames_decode [THEN trans, OF prod.collapse [symmetric]])
    (simp add: written_def mc_WriteFrame_def frame_write_to_def bw_write_def bw_flush_def
      net_write_def NewMuxConn_def frame_header_def put_u32_def MaxPayloadSize_def bw_size_def)

end
