(* ===== verification/Messages.thy ===== *)
theory Messages
  imports Conn
begin

text \<open>
  The JSON messages of \<^verbatim>\<open>internal/mux/muxproto/frame.go\<close>. What \<open>encoding/json\<close> makes of a
  message is an argument of the handlers that use it: \<open>codec\<close> has, per message type, the
  bytes that \<open>Marshal\<close> produces and what \<open>Unmarshal\<close> leaves in a zero value of the type,
  with its error (the code goes on with the value after some failed calls).
\<close>

text \<open>The conversions \<open>[]byte(s)\<close> and \<open>string(b)\<close>; a string is its bytes.\<close>

definition to_bytes :: "string \<Rightarrow> byte list" where
  "to_bytes s = map (\<lambda>c. of_nat (of_char c)) s"

definition of_bytes :: "byte list \<Rightarrow> string" where
  "of_bytes bs = map (\<lambda>b. char_of (unat b)) bs"

lemma of_to_bytes [simp]: "of_bytes (to_bytes s) = s"
  by (induction s) (simp_all add: of_bytes_def to_bytes_def unat_of_nat)

record register_msg =
  rm_NodeID :: string
  rm_PushSubs :: "string list"
  rm_PushResume :: "string \<rightharpoonup> int"
  rm_Capabilities :: "string list"
  rm_Metadata :: "string \<rightharpoonup> string"

record register_ack_msg =
  ra_OK :: bool
  ra_Message :: string
  ra_PushStreamIDs :: "string \<rightharpoonup> u32"

record request_meta =
  rq_Method :: string
  rq_URL :: string
  rq_Host :: string
  rq_Headers :: "string \<rightharpoonup> string list"

record response_meta =
  rp_StatusCode :: int
  rp_Headers :: "string \<rightharpoonup> string list"

record push_ack_msg =
  pa_StreamID :: u32
  pa_Offset :: int

record rst_msg =
  rst_Reason :: string

record goaway_msg =
  ga_Reason :: string

record codec =
  enc_register :: "register_msg \<Rightarrow> byte list"
  dec_register :: "byte list \<Rightarrow> go_error option \<times> register_msg"
  enc_register_ack :: "register_ack_msg \<Rightarrow> byte list"
  dec_register_ack :: "byte list \<Rightarrow> go_error option \<times> register_ack_msg"
  enc_request :: "request_meta \<Rightarrow> byte list"
  dec_request :: "byte list \<Rightarrow> go_error option \<times> request_meta"
  enc_response :: "response_meta \<Rightarrow> byte list"
  dec_response :: "byte list \<Rightarrow> go_error option \<times> response_meta"
  enc_push_ack :: "push_ack_msg \<Rightarrow> byte list"
  dec_push_ack :: "byte list \<Rightarrow> go_error option \<times> push_ack_msg"
  enc_rst :: "rst_msg \<Rightarrow> byte list"
  dec_rst :: "byte list \<Rightarrow> go_error option \<times> rst_msg"
  enc_goaway :: "goaway_msg \<Rightarrow> byte list"
  dec_goaway :: "byte list \<Rightarrow> go_error option \<times> goaway_msg"

text \<open>
  Sending: a connection is anything with a \<open>WriteFrame\<close>. The contract says what a peer
  reads: the frames whose \<open>WriteFrame\<close> returned \<open>nil\<close>, in order. \<open>MuxConn\<close> meets it,
  and so does the queue of frames of a connection that works.
\<close>

locale frame_conn =
  fixes wfr :: "'c \<Rightarrow> 'f \<Rightarrow> go_error option \<times> 'c"
    and sent :: "'c \<Rightarrow> 'f list"
    and cinv :: "'c \<Rightarrow> bool"
  assumes wf_sent: "cinv c \<Longrightarrow> wfr c f = (r, c') \<Longrightarrow>
      cinv c' \<and> sent c' = (if r = None then sent c @ [f] else sent c)"
begin

lemma wf_ok: "cinv c \<Longrightarrow> wfr c f = (None, c') \<Longrightarrow> cinv c' \<and> sent c' = sent c @ [f]"
  using wf_sent by fastforce

lemma wf_err: "cinv c \<Longrightarrow> wfr c f = (Some e, c') \<Longrightarrow> cinv c' \<and> sent c' = sent c"
  using wf_sent by fastforce

end

text \<open>The connections of the v2 streams; the flow control theory proves the senders once here.\<close>

locale stream_conn = frame_conn wfr sent cinv
  for wfr :: "'c \<Rightarrow> frame \<Rightarrow> go_error option \<times> 'c" and sent :: "'c \<Rightarrow> frame list"
    and cinv :: "'c \<Rightarrow> bool"

text \<open>What a peer decodes from a connection.\<close>

definition mc_sent :: "mux_conn \<Rightarrow> frame list" where
  "mc_sent c = wire_frames (nc_wire c)"

definition mc_synced :: "mux_conn \<Rightarrow> bool" where
  "mc_synced c \<longleftrightarrow> (\<exists>fs. v2.csync c fs)"

interpretation mux_conn_sent: stream_conn mc_WriteFrame mc_sent mc_synced
proof
  fix c f r c'
  assume "mc_synced c" and w: "mc_WriteFrame c f = (r, c')"
  then obtain fs where s: "v2.csync c fs" by (auto simp: mc_synced_def)
  note s' = v2.wfr_sync [OF s w]
  from v2.csync_decodes [OF s] v2.csync_decodes [OF s'] s'
  show "mc_synced c' \<and> mc_sent c' = (if r = None then mc_sent c @ [f] else mc_sent c)"
    by (auto simp: mc_synced_def mc_sent_def)
qed

definition queue_write :: "'f list \<Rightarrow> 'f \<Rightarrow> go_error option \<times> 'f list" where
  "queue_write q f = (None, q @ [f])"

interpretation frame_queue: stream_conn queue_write "\<lambda>q. q" "\<lambda>q. True"
  by unfold_locales (auto simp: queue_write_def)

end
