(* ===== verification/FrameV1.thy ===== *)
theory FrameV1
  imports Messages
begin

text \<open>
  The frame layer of the v1 mux protocol, \<^verbatim>\<open>internal/mux_http/muxproto/frame.go\<close> and
  \<^verbatim>\<open>conn.go\<close>: a nine byte header without flags. The connection is the one of v2
  (\<open>mux_conn\<close>), and the wire format is a second interpretation of \<open>wire_format\<close>, so what is proved there of
  broken connections holds for both protocols. The JSON messages of v1 are here too.
\<close>

section \<open>Constants\<close>

definition FrameHeaderSize1 :: nat where [wire_simps]: "FrameHeaderSize1 = 9"

definition TypeRegister1 :: byte where [wire_simps]: "TypeRegister1 = 0x01"
definition TypeRegisterAck1 :: byte where [wire_simps]: "TypeRegisterAck1 = 0x02"
definition TypeData1 :: byte where [wire_simps]: "TypeData1 = 0x03"
definition TypeAck1 :: byte where [wire_simps]: "TypeAck1 = 0x04"
definition TypeWindowUpdate1 :: byte where [wire_simps]: "TypeWindowUpdate1 = 0x05"
definition TypeRST1 :: byte where [wire_simps]: "TypeRST1 = 0x06"
definition TypePing1 :: byte where [wire_simps]: "TypePing1 = 0x07"
definition TypePong1 :: byte where [wire_simps]: "TypePong1 = 0x08"
definition TypeHTTPRequest :: byte where [wire_simps]: "TypeHTTPRequest = 0x10"
definition TypeHTTPResponseHead :: byte where [wire_simps]: "TypeHTTPResponseHead = 0x11"
definition TypeHTTPResponseBody :: byte where [wire_simps]: "TypeHTTPResponseBody = 0x12"
definition TypeHTTPResponseEnd :: byte where [wire_simps]: "TypeHTTPResponseEnd = 0x13"
definition TypeHTTPError :: byte where [wire_simps]: "TypeHTTPError = 0x14"

lemmas types1 = TypeRegister1_def TypeRegisterAck1_def TypeData1_def TypeAck1_def TypeWindowUpdate1_def
  TypeRST1_def TypePing1_def TypePong1_def TypeHTTPRequest_def TypeHTTPResponseHead_def
  TypeHTTPResponseBody_def TypeHTTPResponseEnd_def TypeHTTPError_def

section \<open>Frames\<close>

record frame1 =
  f1_StreamID :: u32
  f1_Type :: byte
  f1_Payload :: "byte list"

definition frame1_header :: "frame1 \<Rightarrow> byte list" where
  "frame1_header f = put_u32 (f1_StreamID f) @ [f1_Type f] @ put_u32 (of_nat (length (f1_Payload f)))"

definition too_large1 :: "frame1 \<Rightarrow> go_error" where
  "too_large1 f = Errorf ''frame payload too large to write: %d > %d''
     [ArgInt (int (length (f1_Payload f))), ArgInt (int MaxPayloadSize)]"

definition frame1_write_to ::
  "('w \<Rightarrow> byte list \<Rightarrow> go_error option \<times> 'w) \<Rightarrow> frame1 \<Rightarrow> 'w \<Rightarrow> go_error option \<times> 'w" where
  "frame1_write_to wr f w =
     (if length (f1_Payload f) > MaxPayloadSize
      then (Some (too_large1 f), w)
      else case wr w (frame1_header f) of
             (Some e, w1) \<Rightarrow> (Some e, w1)
           | (None, w1) \<Rightarrow> if length (f1_Payload f) > 0 then wr w1 (f1_Payload f) else (None, w1))"

definition read_frame1 :: "reader \<Rightarrow> (go_error + frame1) \<times> reader" where
  "read_frame1 r =
     (case read_full FrameHeaderSize1 r of
        (Inl e, r1) \<Rightarrow> (Inl e, r1)
      | (Inr hdr, r1) \<Rightarrow>
          (let streamID = be_u32 (take 4 hdr); typ = hdr ! 4; len = be_u32 (go_slice 5 4 hdr)
           in if unat len > MaxPayloadSize
              then (Inl (Errorf ''frame payload too large: %d > %d''
                           [ArgInt (uint len), ArgInt (int MaxPayloadSize)]), r1)
              else if unat len > 0
              then (case read_full (unat len) r1 of
                      (Inl e, r2) \<Rightarrow> (Inl e, r2)
                    | (Inr p, r2) \<Rightarrow> (Inr \<lparr>f1_StreamID = streamID, f1_Type = typ, f1_Payload = p\<rparr>, r2))
              else (Inr \<lparr>f1_StreamID = streamID, f1_Type = typ, f1_Payload = []\<rparr>, r1)))"

definition mc1_ReadFrame :: "mux_conn \<Rightarrow> (go_error + frame1) \<times> mux_conn" where
  "mc1_ReadFrame c = (case read_frame1 (br c) of (res, r) \<Rightarrow> (res, c\<lparr>br := r\<rparr>))"

definition mc1_WriteFrame :: "mux_conn \<Rightarrow> frame1 \<Rightarrow> go_error option \<times> mux_conn" where
  "mc1_WriteFrame c f =
     (case frame1_write_to bw_write f c of
        (Some e, c1) \<Rightarrow> (Some e, c1)
      | (None, c1) \<Rightarrow> bw_flush c1)"

text \<open>The bytes of one frame on the wire, and the frames that may be sent at all.\<close>

definition encode_frame1 :: "frame1 \<Rightarrow> byte list" where
  "encode_frame1 f = frame1_header f @ f1_Payload f"

definition frame1_ok :: "frame1 \<Rightarrow> bool" where
  "frame1_ok f \<longleftrightarrow> length (f1_Payload f) \<le> MaxPayloadSize"

lemma length_frame1_header [simp]: "length (frame1_header f) = FrameHeaderSize1"
  by (simp add: frame1_header_def wire_simps)

lemma frame1_header_nonempty: "frame1_header f \<noteq> []"
  by (simp add: frame1_header_def)

lemma frame1_write_to_parts:
  "frame1_write_to wr f w =
     (if frame1_ok f then write_parts wr (frame1_header f) (f1_Payload f) w
      else (Some (too_large1 f), w))"
  by (simp add: frame1_write_to_def write_parts_def frame1_ok_def)

lemma header1_fields:
  "be_u32 (take 4 (frame1_header f)) = f1_StreamID f"
  "frame1_header f ! 4 = f1_Type f"
  "be_u32 (go_slice 5 4 (frame1_header f)) = of_nat (length (f1_Payload f))"
  by (simp_all add: frame1_header_def go_slice_def nth_append)

lemma unat_payload_len1:
  "frame1_ok f \<Longrightarrow> unat (of_nat (length (f1_Payload f)) :: u32) = length (f1_Payload f)"
  by (simp add: frame1_ok_def wire_simps unsigned_of_nat take_bit_nat_eq_self_iff)

lemma read_frame1_header:
  assumes "frame1_ok f"
  shows "read_frame1 \<lparr>rd_data = frame1_header f @ rest, rd_err = e\<rparr> =
    (if f1_Payload f = [] then (Inr f, \<lparr>rd_data = rest, rd_err = e\<rparr>)
     else case read_full (length (f1_Payload f)) \<lparr>rd_data = rest, rd_err = e\<rparr> of
            (Inl e, r2) \<Rightarrow> (Inl e, r2)
          | (Inr p, r2) \<Rightarrow> (Inr (f\<lparr>f1_Payload := p\<rparr>), r2))"
proof -
  have "read_full FrameHeaderSize1 \<lparr>rd_data = frame1_header f @ rest, rd_err = e\<rparr>
      = (Inr (frame1_header f), \<lparr>rd_data = rest, rd_err = e\<rparr>)"
    by (simp add: read_full_append)
  then show ?thesis
    using assms unat_payload_len1 [OF assms]
    by (cases f) (simp add: read_frame1_def header1_fields Let_def frame1_ok_def split: prod.splits sum.splits)
qed

lemma read_frame1_encode:
  assumes "frame1_ok f"
  shows "read_frame1 \<lparr>rd_data = encode_frame1 f @ rest, rd_err = e\<rparr>
    = (Inr f, \<lparr>rd_data = rest, rd_err = e\<rparr>)"
  by (simp add: encode_frame1_def read_frame1_header [OF assms] read_full_append)

lemma read_frame1_prefix:
  assumes "frame1_ok f" and "k < length (encode_frame1 f)"
  shows "\<exists>e. fst (read_frame1 \<lparr>rd_data = take k (encode_frame1 f), rd_err = ErrEOF\<rparr>) = Inl e"
proof (cases "k < FrameHeaderSize1")
  case True
  then have "take k (encode_frame1 f) = take k (frame1_header f)" by (simp add: encode_frame1_def)
  with True show ?thesis by (simp add: read_frame1_def read_full_def not_le)
next
  case False
  then obtain j where k: "k = FrameHeaderSize1 + j" by (metis le_iff_add not_less)
  with assms have j: "j < length (f1_Payload f)" by (simp add: encode_frame1_def)
  have t: "take k (encode_frame1 f) = frame1_header f @ take j (f1_Payload f)"
    by (simp add: encode_frame1_def k)
  from j show ?thesis unfolding t
    by (auto simp: read_frame1_header [OF assms(1)] read_full_def)
qed

lemma read_frame1_consumes:
  assumes "read_frame1 r = (Inr f, r')"
  shows "length (rd_data r) = FrameHeaderSize1 + length (f1_Payload f) + length (rd_data r')"
proof -
  obtain hdr r1 where h: "read_full FrameHeaderSize1 r = (Inr hdr, r1)"
    using assms by (auto simp: read_frame1_def split: prod.splits sum.splits)
  have "length (rd_data r1) = length (f1_Payload f) + length (rd_data r')"
    using assms h by (auto simp: read_frame1_def Let_def dest: read_full_InrD(2) split: if_splits prod.splits sum.splits)
  with read_full_InrD(1,2) [OF h] show ?thesis by simp
qed

section \<open>The read loop\<close>

function read_loop1 :: "reader \<Rightarrow> frame1 list \<times> go_error" where
  "read_loop1 r =
     (case read_frame1 r of
        (Inl e, _) \<Rightarrow> ([], e)
      | (Inr f, r') \<Rightarrow> (case read_loop1 r' of (fs, e) \<Rightarrow> (f # fs, e)))"
  by pat_completeness auto
termination
proof (relation "measure (\<lambda>r. length (rd_data r))", simp)
  fix r :: reader and res r' x
  assume a: "(res, r') = read_frame1 r" "res = Inr x"
  then show "(r', r) \<in> measure (\<lambda>r. length (rd_data r))"
    using read_frame1_consumes [of r x r'] by (simp add: wire_simps)
qed

declare read_loop1.simps [simp del]

definition wire_frames1 :: "byte list \<Rightarrow> frame1 list" where
  "wire_frames1 bs = fst (read_loop1 \<lparr>rd_data = bs, rd_err = ErrEOF\<rparr>)"

lemma wire_frames1_encode:
  "list_all frame1_ok fs \<Longrightarrow> wire_frames1 (concat (map encode_frame1 fs) @ rest) = fs @ wire_frames1 rest"
proof (induction fs)
  case (Cons f fs)
  then show ?case
    unfolding wire_frames1_def
    by (subst read_loop1.simps) (simp add: read_frame1_encode case_prod_beta)
qed simp

lemma wire_frames1_prefix:
  "frame1_ok f \<Longrightarrow> k < length (encode_frame1 f) \<Longrightarrow> wire_frames1 (take k (encode_frame1 f)) = []"
  using read_frame1_prefix [of f k] unfolding wire_frames1_def
  by (subst read_loop1.simps) (auto split: prod.splits sum.splits)

interpretation v1: wire_format frame1_header f1_Payload frame1_ok too_large1 wire_frames1 mc1_WriteFrame
proof
  fix f :: frame1 and k and c and fs :: "frame1 list" and rest
  show "frame1_header f \<noteq> []" by (rule frame1_header_nonempty)
  show "mc1_WriteFrame c f =
    (if frame1_ok f then case write_parts bw_write (frame1_header f) (f1_Payload f) c of
        (Some e, c1) \<Rightarrow> (Some e, c1) | (None, c1) \<Rightarrow> bw_flush c1
     else (Some (too_large1 f), c))"
    by (simp add: mc1_WriteFrame_def frame1_write_to_parts)
  show "wire_frames1 (concat (map (\<lambda>f. frame1_header f @ f1_Payload f) fs) @ rest) = fs @ wire_frames1 rest"
    if "list_all frame1_ok fs"
    using wire_frames1_encode [OF that, of rest] by (simp add: encode_frame1_def [abs_def])
  show "wire_frames1 (take k (frame1_header f @ f1_Payload f)) = []"
    if "frame1_ok f" "k < length (frame1_header f @ f1_Payload f)"
    using wire_frames1_prefix [of f k] that by (simp add: encode_frame1_def)
  show "wire_frames1 [] = []"
    using wire_frames1_prefix [of "\<lparr>f1_StreamID = 0, f1_Type = 0, f1_Payload = []\<rparr>" 0]
    by (simp add: frame1_ok_def encode_frame1_def FrameHeaderSize1_def)
qed

definition mc1_sent :: "mux_conn \<Rightarrow> frame1 list" where
  "mc1_sent c = wire_frames1 (nc_wire c)"

definition mc1_synced :: "mux_conn \<Rightarrow> bool" where
  "mc1_synced c \<longleftrightarrow> (\<exists>fs. v1.csync c fs)"

interpretation mux_conn1_sent: frame_conn mc1_WriteFrame mc1_sent mc1_synced
proof
  fix c f r c'
  assume "mc1_synced c" and w: "mc1_WriteFrame c f = (r, c')"
  then obtain fs where s: "v1.csync c fs" by (auto simp: mc1_synced_def)
  note s' = v1.wfr_sync [OF s w]
  from v1.csync_decodes [OF s] v1.csync_decodes [OF s'] s'
  show "mc1_synced c' \<and> mc1_sent c' = (if r = None then mc1_sent c @ [f] else mc1_sent c)"
    by (auto simp: mc1_synced_def mc1_sent_def)
qed

section \<open>Messages\<close>

record register1_msg =
  r1_NodeID :: string
  r1_Subs :: "string list"
  r1_Resume :: "(string \<rightharpoonup> int) option"   \<comment> \<open>\<open>None\<close> is the \<open>nil\<close> map\<close>
  r1_Caps :: "string list"

record register_ack1_msg =
  k1_OK :: bool
  k1_Message :: string
  k1_StreamIDs :: "string \<rightharpoonup> u32"

record ack_msg =
  am_StreamID :: u32
  am_Offset :: int

record rst1_msg =
  x1_StreamID :: u32
  x1_Reason :: string

record http_request_msg =
  hq_Method :: string
  hq_URL :: string
  hq_Headers :: "string \<rightharpoonup> string"
  hq_Body :: "byte list"

record http_response_head_msg =
  hh_StatusCode :: int
  hh_Headers :: "string \<rightharpoonup> string"

record http_error_msg =
  he_Code :: int
  he_Message :: string

text \<open>What \<open>encoding/json\<close> makes of them, as in v2.\<close>

record codec1 =
  enc_register1 :: "register1_msg \<Rightarrow> byte list"
  dec_register1 :: "byte list \<Rightarrow> go_error option \<times> register1_msg"
  enc_register_ack1 :: "register_ack1_msg \<Rightarrow> byte list"
  dec_register_ack1 :: "byte list \<Rightarrow> go_error option \<times> register_ack1_msg"
  enc_ack :: "ack_msg \<Rightarrow> byte list"
  dec_ack :: "byte list \<Rightarrow> go_error option \<times> ack_msg"
  enc_rst1 :: "rst1_msg \<Rightarrow> byte list"
  dec_rst1 :: "byte list \<Rightarrow> go_error option \<times> rst1_msg"
  enc_http_request :: "http_request_msg \<Rightarrow> byte list"
  dec_http_head :: "byte list \<Rightarrow> go_error option \<times> http_response_head_msg"
  dec_http_error :: "byte list \<Rightarrow> go_error option \<times> http_error_msg"

section \<open>Properties\<close>

fun mc1_WriteFrames :: "mux_conn \<Rightarrow> frame1 list \<Rightarrow> go_error option list \<times> mux_conn" where
  "mc1_WriteFrames c [] = ([], c)"
| "mc1_WriteFrames c (f # fs) =
     (case mc1_WriteFrame c f of (r, c1) \<Rightarrow>
        (case mc1_WriteFrames c1 fs of (rs, c2) \<Rightarrow> (r # rs, c2)))"

lemma mc1_WriteFrames_sent:
  "mc1_synced c \<Longrightarrow> mc1_WriteFrames c fs = (rs, c') \<Longrightarrow>
     mc1_sent c' = mc1_sent c @ map fst (filter (\<lambda>(f, r). r = None) (zip fs rs))"
proof (induction fs arbitrary: c rs)
  case (Cons f fs)
  obtain r c1 where w: "mc1_WriteFrame c f = (r, c1)" by fastforce
  obtain rs1 where ws: "mc1_WriteFrames c1 fs = (rs1, c')" "rs = r # rs1"
    using Cons.prems(2) w by (auto split: prod.splits)
  from mux_conn1_sent.wf_sent [OF Cons.prems(1) w] Cons.IH [OF _ ws(1)] ws(2) show ?case
    by (cases r) auto
qed simp

text \<open>The v1 wire is as robust as the v2 one: whatever the network does and whichever of a
  sequence of \<open>WriteFrame\<close> calls fail, also half way through a frame, a peer that reads frames
  until the connection ends gets exactly those whose call returned \<open>nil\<close>, in order.\<close>

theorem v1_frames_decode:
  assumes "mc1_WriteFrames (NewMuxConn budget r) fs = (rs, c)"
  shows "fst (read_loop1 \<lparr>rd_data = nc_wire c, rd_err = ErrEOF\<rparr>) =
    map fst (filter (\<lambda>(f, r). r = None) (zip fs rs))"
proof -
  have n: "v1.csync (NewMuxConn budget r) []" by (rule conn_sync_new)
  then have "mc1_synced (NewMuxConn budget r)" unfolding mc1_synced_def by blast
  from mc1_WriteFrames_sent [OF this assms] v1.csync_decodes [OF n] show ?thesis
    by (simp add: mc1_sent_def wire_frames1_def)
qed

theorem v1_frames_decode_witness:
  "fst (read_loop1 \<lparr>rd_data = nc_wire (snd (mc1_WriteFrames (NewMuxConn 16 \<lparr>rd_data = [], rd_err = ErrEOF\<rparr>)
       [\<lparr>f1_StreamID = 1, f1_Type = TypeData1, f1_Payload = [7, 8]\<rparr>,
        \<lparr>f1_StreamID = 1, f1_Type = TypeData1, f1_Payload = [9]\<rparr>])), rd_err = ErrEOF\<rparr>)
   = [\<lparr>f1_StreamID = 1, f1_Type = TypeData1, f1_Payload = [7, 8]\<rparr>]"
  by (rule v1_frames_decode [THEN trans, OF prod.collapse [symmetric]])
    (simp add: mc1_WriteFrame_def frame1_write_to_def bw_write_def bw_flush_def
      net_write_def NewMuxConn_def frame1_header_def put_u32_def MaxPayloadSize_def bw_size_def)

end
