(* ===== verification/Registry.thy ===== *)
theory Registry
  imports StreamBuf FrameV1 "HOL-Library.AList"
begin

text \<open>
  \<^verbatim>\<open>internal/mux_http/server/registry.go\<close>: stream ids, the stream registry with its reverse
  index, and the subscription table. (The node registry closes sessions and is in the broker
  theory.) Go maps are association lists with distinct keys; the order of a range loop over a
  map is the list's, and nothing proved depends on it. The two maps of the registry hold
  pointers to shared entries: pointers are indices into \<open>sr_heap\<close>, which keeps every entry ever made.
\<close>

section \<open>Stream ids\<close>

text \<open>\<open>allocStreamID\<close> on the counter \<open>nextStreamID\<close>: the id it returns is the counter's new value.\<close>

function alloc_id :: "u32 \<Rightarrow> u32" where
  "alloc_id next = (let n = next + 1 in if n \<noteq> 0 then n else alloc_id n)"
  by pat_completeness auto
termination
  by (relation "measure (\<lambda>n. if n = 0 then 0 else 1)") auto

declare alloc_id.simps [simp del]

lemma alloc_id_nonzero: "alloc_id n \<noteq> 0"
  by (induction n rule: alloc_id.induct) (subst alloc_id.simps, simp add: Let_def)

lemma alloc_id_of_nat: "k + 1 < 2 ^ 32 \<Longrightarrow> alloc_id (of_nat k) = of_nat (k + 1)"
proof -
  assume k: "k + 1 < 2 ^ 32"
  have "(of_nat (k + 1) :: u32) \<noteq> 0"
  proof
    assume "(of_nat (k + 1) :: u32) = 0"
    then have "(2::nat) ^ LENGTH(32) dvd k + 1" by (simp only: word_of_nat_eq_0_iff)
    then have "(2::nat) ^ 32 dvd k + 1" by simp
    from dvd_imp_le [OF this] k show False by simp
  qed
  then show ?thesis by (subst alloc_id.simps) (simp add: add.commute)
qed

definition initStreamID :: u32 where "initStreamID = 1"

section \<open>StreamRegistry\<close>

record stream_entry =
  en_Name :: string
  en_ID :: u32
  en_Buffer :: stream_buffer

record stream_registry =
  sr_streams :: "(string \<times> nat) list"
  sr_byID :: "(u32 \<times> nat) list"
  sr_maxRetain :: int
  sr_heap :: "stream_entry list"
  nextStreamID :: u32

definition NewStreamRegistry :: "int \<Rightarrow> stream_registry" where
  "NewStreamRegistry maxRetain =
     \<lparr>sr_streams = [], sr_byID = [], sr_maxRetain = maxRetain, sr_heap = [], nextStreamID = initStreamID\<rparr>"

definition sr_GetOrCreate :: "string \<Rightarrow> stream_registry \<Rightarrow> nat \<times> stream_registry" where
  "sr_GetOrCreate name r =
     (case map_of (sr_streams r) name of
        Some e \<Rightarrow> (e, r)
      | None \<Rightarrow>
          (let sid = alloc_id (nextStreamID r);
               e = length (sr_heap r)
           in (e, r\<lparr>sr_heap := sr_heap r @ [\<lparr>en_Name = name, en_ID = sid,
                                            en_Buffer = NewStreamBuffer (sr_maxRetain r)\<rparr>],
                    sr_streams := AList.update name e (sr_streams r),
                    sr_byID := AList.update sid e (sr_byID r),
                    nextStreamID := sid\<rparr>)))"

definition sr_Get :: "string \<Rightarrow> stream_registry \<Rightarrow> nat option" where
  "sr_Get name r = map_of (sr_streams r) name"

definition sr_GetByID :: "u32 \<Rightarrow> stream_registry \<Rightarrow> go_error + nat" where
  "sr_GetByID sid r =
     (case map_of (sr_byID r) sid of
        Some e \<Rightarrow> Inr e
      | None \<Rightarrow> Inl (Errorf ''unknown stream id %d'' [ArgInt (uint sid)]))"

definition sr_Remove :: "string \<Rightarrow> stream_registry \<Rightarrow> stream_registry" where
  "sr_Remove name r =
     (case map_of (sr_streams r) name of
        Some e \<Rightarrow> r\<lparr>sr_byID := AList.delete (en_ID (sr_heap r ! e)) (sr_byID r),
                    sr_streams := AList.delete name (sr_streams r)\<rparr>
      | None \<Rightarrow> r)"

definition sr_ClosedStreams :: "stream_registry \<Rightarrow> string list" where
  "sr_ClosedStreams r =
     map fst (filter (\<lambda>(name, e). sb_IsClosed (en_Buffer (sr_heap r ! e))) (sr_streams r))"

definition sr_Names :: "stream_registry \<Rightarrow> string list" where
  "sr_Names r = map fst (sr_streams r)"

text \<open>A call on the buffer of an entry, which all holders of the pointer see.\<close>

definition sr_on :: "(stream_buffer \<Rightarrow> stream_buffer) \<Rightarrow> nat \<Rightarrow> stream_registry \<Rightarrow> stream_registry" where
  "sr_on h e r = r\<lparr>sr_heap := (sr_heap r)[e := (sr_heap r ! e)\<lparr>en_Buffer := h (en_Buffer (sr_heap r ! e))\<rparr>]\<rparr>"

definition sr_buffer :: "stream_registry \<Rightarrow> nat \<Rightarrow> stream_buffer" where
  "sr_buffer r e = en_Buffer (sr_heap r ! e)"

text \<open>
  The two maps are each other's inverse. Ids are handed out in order from 2, which keeps them
  distinct until the counter wraps round.
\<close>

definition sr_inv :: "stream_registry \<Rightarrow> bool" where
  "sr_inv r \<longleftrightarrow> distinct (map fst (sr_streams r)) \<and> distinct (map fst (sr_byID r)) \<and>
     (\<forall>n e. map_of (sr_streams r) n = Some e \<longleftrightarrow>
        e < length (sr_heap r) \<and> en_Name (sr_heap r ! e) = n \<and> map_of (sr_byID r) (en_ID (sr_heap r ! e)) = Some e) \<and>
     (\<forall>sid e. map_of (sr_byID r) sid = Some e \<longrightarrow> e < length (sr_heap r) \<and> en_ID (sr_heap r ! e) = sid) \<and>
     (\<forall>e < length (sr_heap r). en_ID (sr_heap r ! e) = of_nat (e + 2)) \<and>
     nextStreamID r = of_nat (length (sr_heap r) + 1) \<and> length (sr_heap r) + 2 \<le> 2 ^ 32"

lemma sr_inv_new: "sr_inv (NewStreamRegistry n)"
  by (simp add: sr_inv_def NewStreamRegistry_def initStreamID_def)

lemma of_nat_id_neq:
  assumes "e < n" and "n + 2 < 2 ^ 32"
  shows "(of_nat (e + 2) :: u32) \<noteq> of_nat (n + 2)"
proof
  assume "(of_nat (e + 2) :: u32) = of_nat (n + 2)"
  then have "take_bit 32 (e + 2) = take_bit 32 (n + 2)"
    unfolding word_of_nat_eq_iff by simp
  moreover have "take_bit 32 (e + 2) = e + 2" "take_bit 32 (n + 2) = n + 2"
    using assms by (simp_all only: take_bit_nat_eq_self_iff)
  ultimately show False using assms(1) by simp
qed

lemma sr_GetOrCreate_old: "map_of (sr_streams r) n = Some e \<Longrightarrow> sr_GetOrCreate n r = (e, r)"
  by (simp add: sr_GetOrCreate_def)

lemma sr_GetOrCreate_new:
  assumes "sr_inv r" and "map_of (sr_streams r) n = None" and "length (sr_heap r) + 2 < 2 ^ 32"
  shows "sr_GetOrCreate n r = (length (sr_heap r),
    r\<lparr>sr_heap := sr_heap r @ [\<lparr>en_Name = n, en_ID = of_nat (length (sr_heap r) + 2), en_Buffer = NewStreamBuffer (sr_maxRetain r)\<rparr>],
      sr_streams := AList.update n (length (sr_heap r)) (sr_streams r),
      sr_byID := AList.update (of_nat (length (sr_heap r) + 2)) (length (sr_heap r)) (sr_byID r),
      nextStreamID := of_nat (length (sr_heap r) + 2)\<rparr>)"
proof -
  have "nextStreamID r = of_nat (length (sr_heap r) + 1)" using assms(1) by (simp add: sr_inv_def)
  then have "alloc_id (nextStreamID r) = of_nat (length (sr_heap r) + 2)"
    using alloc_id_of_nat [of "length (sr_heap r) + 1"] assms(3) by (simp add: add.assoc)
  with assms(2) show ?thesis by (simp add: sr_GetOrCreate_def Let_def)
qed

lemma sr_byID_none:
  assumes "sr_inv r" and "length (sr_heap r) + 2 < 2 ^ 32"
  shows "map_of (sr_byID r) (of_nat (length (sr_heap r) + 2)) = None"
proof (rule ccontr)
  assume "map_of (sr_byID r) (of_nat (length (sr_heap r) + 2)) \<noteq> None"
  then obtain e where "e < length (sr_heap r)" "en_ID (sr_heap r ! e) = of_nat (length (sr_heap r) + 2)"
    using assms(1) unfolding sr_inv_def by blast
  then have "(of_nat (e + 2) :: u32) = of_nat (length (sr_heap r) + 2)"
    using assms(1) unfolding sr_inv_def by metis
  with of_nat_id_neq [of e "length (sr_heap r)"] \<open>e < length (sr_heap r)\<close> assms(2) show False by blast
qed

lemma sr_GetOrCreate_inv:
  assumes i: "sr_inv r" and "length (sr_heap r) + 2 < 2 ^ 32" and g: "sr_GetOrCreate n r = (e, r')"
  shows "sr_inv r'"
proof (cases "map_of (sr_streams r) n")
  case (Some e1)
  with g i show ?thesis by (simp add: sr_GetOrCreate_old)
next
  case None
  let ?N = "length (sr_heap r)"
  let ?id = "of_nat (?N + 2) :: u32"
  note new = sr_GetOrCreate_new [OF i None assms(2), unfolded g]
  have ids: "\<And>e. e < ?N \<Longrightarrow> en_ID (sr_heap r ! e) = of_nat (e + 2)"
    using i by (simp add: sr_inv_def)
  have neq: "en_ID (sr_heap r ! e) \<noteq> ?id" if "e < ?N" for e
    using of_nat_id_neq [OF that assms(2)] ids [OF that] by simp
  have str: "\<And>m e. map_of (sr_streams r) m = Some e \<longleftrightarrow>
      e < ?N \<and> en_Name (sr_heap r ! e) = m \<and> map_of (sr_byID r) (en_ID (sr_heap r ! e)) = Some e"
    and by_id: "\<And>s e. map_of (sr_byID r) s = Some e \<Longrightarrow> e < ?N \<and> en_ID (sr_heap r ! e) = s"
    using i by (simp_all add: sr_inv_def)
  note none = sr_byID_none [OF i assms(2)]
  have d: "distinct (map fst (sr_streams r))" "distinct (map fst (sr_byID r))"
    using i by (simp_all add: sr_inv_def)
  have s': "map_of (sr_streams r') = (map_of (sr_streams r))(n \<mapsto> ?N)"
    and b': "map_of (sr_byID r') = (map_of (sr_byID r))(?id \<mapsto> ?N)"
    and h': "sr_heap r' = sr_heap r @ [\<lparr>en_Name = n, en_ID = ?id, en_Buffer = NewStreamBuffer (sr_maxRetain r)\<rparr>]"
    and n': "nextStreamID r' = ?id"
    and d': "distinct (map fst (sr_streams r'))" "distinct (map fst (sr_byID r'))"
    using new d by (simp_all add: update_conv' distinct_update)
  have A: "map_of (sr_streams r') m = Some e1 \<longleftrightarrow>
      e1 < length (sr_heap r') \<and> en_Name (sr_heap r' ! e1) = m \<and> map_of (sr_byID r') (en_ID (sr_heap r' ! e1)) = Some e1" for m e1
  proof (cases "e1 < ?N")
    case True
    have "m = n \<Longrightarrow> \<not> (en_Name (sr_heap r ! e1) = m \<and> map_of (sr_byID r) (en_ID (sr_heap r ! e1)) = Some e1)"
      using str [of m e1] None True by auto
    with True neq [OF True] str [of m e1] show ?thesis by (auto simp: s' b' h' nth_append)
  next
    case False
    with str [of m e1] show ?thesis by (auto simp: s' b' h' nth_append)
  qed
  have B: "e1 < length (sr_heap r') \<and> en_ID (sr_heap r' ! e1) = sid" if "map_of (sr_byID r') sid = Some e1" for sid e1
    using that by_id [of sid e1] by (auto simp: b' h' nth_append split: if_splits)
  have C: "en_ID (sr_heap r' ! e1) = of_nat (e1 + 2)" if "e1 < length (sr_heap r')" for e1
    using that ids [of e1] by (cases "e1 < ?N") (auto simp: h' nth_append less_Suc_eq)
  show ?thesis unfolding sr_inv_def
  proof (intro conjI allI impI)
    show "length (sr_heap r') + 2 \<le> 2 ^ 32" using assms(2) by (simp add: h')
    show "nextStreamID r' = of_nat (length (sr_heap r') + 1)" by (simp add: h' n')
  qed (use d' A B C in blast)+
qed

lemma sr_Remove_inv:
  assumes i: "sr_inv r"
  shows "sr_inv (sr_Remove n r)"
proof (cases "map_of (sr_streams r) n")
  case (Some e)
  have str: "\<And>m e. map_of (sr_streams r) m = Some e \<longleftrightarrow>
      e < length (sr_heap r) \<and> en_Name (sr_heap r ! e) = m \<and> map_of (sr_byID r) (en_ID (sr_heap r ! e)) = Some e"
    using i by (simp add: sr_inv_def)
  have e: "e < length (sr_heap r)" "en_Name (sr_heap r ! e) = n" "map_of (sr_byID r) (en_ID (sr_heap r ! e)) = Some e"
    using str [of n e] Some by simp_all
  let ?id = "en_ID (sr_heap r ! e)"
  have A: "(m \<noteq> n \<and> map_of (sr_streams r) m = Some e1) \<longleftrightarrow>
      e1 < length (sr_heap r) \<and> en_Name (sr_heap r ! e1) = m \<and> en_ID (sr_heap r ! e1) \<noteq> ?id \<and>
      map_of (sr_byID r) (en_ID (sr_heap r ! e1)) = Some e1" for m e1
    using str [of m e1] e Some by (cases "e1 = e") auto
  have s': "map_of (AList.delete n (sr_streams r)) m = Some e1 \<longleftrightarrow> m \<noteq> n \<and> map_of (sr_streams r) m = Some e1" for m e1
    by (simp add: AList.delete_conv')
  have b': "map_of (AList.delete ?id (sr_byID r)) s = Some e1 \<longleftrightarrow> s \<noteq> ?id \<and> map_of (sr_byID r) s = Some e1" for s e1
    by (simp add: AList.delete_conv')
  let ?r = "sr_Remove n r"
  have f: "sr_streams ?r = AList.delete n (sr_streams r)" "sr_byID ?r = AList.delete ?id (sr_byID r)"
    "sr_heap ?r = sr_heap r" "nextStreamID ?r = nextStreamID r"
    by (simp_all add: sr_Remove_def Some)
  have B: "(s \<noteq> ?id \<and> map_of (sr_byID r) s = Some e1) \<Longrightarrow> e1 < length (sr_heap r) \<and> en_ID (sr_heap r ! e1) = s" for s e1
    using i unfolding sr_inv_def by blast
  show ?thesis
    unfolding sr_inv_def f s' b' A
  proof (intro conjI allI impI)
    show "distinct (map fst (AList.delete n (sr_streams r)))" "distinct (map fst (AList.delete ?id (sr_byID r)))"
      using i by (simp_all add: sr_inv_def AList.distinct_delete)
    show "nextStreamID r = of_nat (length (sr_heap r) + 1)" "length (sr_heap r) + 2 \<le> 2 ^ 32"
      using i by (simp_all add: sr_inv_def)
    show "en_ID (sr_heap r ! e1) = of_nat (e1 + 2)" if "e1 < length (sr_heap r)" for e1
      using i that by (simp add: sr_inv_def)
  qed (use B in blast)+
qed (use i in \<open>simp add: sr_Remove_def\<close>)

lemma sr_on_simps [simp]:
  "sr_streams (sr_on h e r) = sr_streams r" "sr_byID (sr_on h e r) = sr_byID r"
  "nextStreamID (sr_on h e r) = nextStreamID r" "length (sr_heap (sr_on h e r)) = length (sr_heap r)"
  "sr_maxRetain (sr_on h e r) = sr_maxRetain r"
  by (simp_all add: sr_on_def)

lemma sr_on_heap [simp]:
  "en_Name (sr_heap (sr_on h e r) ! i) = en_Name (sr_heap r ! i)"
  "en_ID (sr_heap (sr_on h e r) ! i) = en_ID (sr_heap r ! i)"
  by (cases "e = i"; cases "e < length (sr_heap r)"; simp add: sr_on_def list_update_beyond)
    (cases "e = i"; cases "e < length (sr_heap r)"; simp add: sr_on_def list_update_beyond)

lemma sr_buffer_on:
  "e < length (sr_heap r) \<Longrightarrow> sr_buffer (sr_on h e r) i = (if i = e then h (sr_buffer r e) else sr_buffer r i)"
  by (simp add: sr_buffer_def sr_on_def nth_list_update)

lemma sr_on_inv: "sr_inv (sr_on h e r) = sr_inv r"
  unfolding sr_inv_def sr_on_simps sr_on_heap by (rule refl)

section \<open>SubscriptionTable\<close>

type_synonym subscription_table = "(string \<times> string list) list"

definition NewSubscriptionTable :: subscription_table where
  "NewSubscriptionTable = []"

definition sub_Subscribe :: "string \<Rightarrow> string \<Rightarrow> subscription_table \<Rightarrow> subscription_table" where
  "sub_Subscribe streamName nodeID t =
     (let t1 = (if map_of t streamName = None then AList.update streamName [] t else t)
      in AList.update streamName (List.insert nodeID (the (map_of t1 streamName))) t1)"

definition sub_Unsubscribe :: "string \<Rightarrow> subscription_table \<Rightarrow> subscription_table" where
  "sub_Unsubscribe nodeID t =
     filter (\<lambda>(name, ns). length ns \<noteq> 0) (map (\<lambda>(name, ns). (name, removeAll nodeID ns)) t)"

definition sub_Subscribers :: "string \<Rightarrow> subscription_table \<Rightarrow> string list" where
  "sub_Subscribers streamName t = (case map_of t streamName of None \<Rightarrow> [] | Some ns \<Rightarrow> ns)"

text \<open>The relation the table stands for.\<close>

definition sub_rel :: "subscription_table \<Rightarrow> (string \<times> string) set" where
  "sub_rel t = {(s, n). \<exists>ns. (s, ns) \<in> set t \<and> n \<in> set ns}"

definition sub_inv :: "subscription_table \<Rightarrow> bool" where
  "sub_inv t \<longleftrightarrow> distinct (map fst t) \<and> (\<forall>(s, ns) \<in> set t. ns \<noteq> [] \<and> distinct ns)"

text \<open>
  What the broker needs of a subscription table: a relation, changed by the two operations and
  read by the third.
\<close>

locale subscriptions =
  fixes subscribe :: "string \<Rightarrow> string \<Rightarrow> 't \<Rightarrow> 't"
    and unsubscribe :: "string \<Rightarrow> 't \<Rightarrow> 't"
    and subscribers :: "string \<Rightarrow> 't \<Rightarrow> string list"
    and rel :: "'t \<Rightarrow> (string \<times> string) set"
    and inv :: "'t \<Rightarrow> bool"
  assumes subscribe_rel: "inv t \<Longrightarrow> inv (subscribe s n t) \<and> rel (subscribe s n t) = insert (s, n) (rel t)"
    and unsubscribe_rel: "inv t \<Longrightarrow> inv (unsubscribe n t) \<and> rel (unsubscribe n t) = {(s, m) \<in> rel t. m \<noteq> n}"
    and subscribers_rel: "inv t \<Longrightarrow> set (subscribers s t) = {n. (s, n) \<in> rel t} \<and> distinct (subscribers s t)"
begin

lemma subscribe_all:
  "inv t \<Longrightarrow> inv (fold (\<lambda>s. subscribe s n) ss t) \<and> rel (fold (\<lambda>s. subscribe s n) ss t) = rel t \<union> (\<lambda>s. (s, n)) ` set ss"
  by (induction ss arbitrary: t) (auto simp: subscribe_rel)

text \<open>A node that registers and leaves leaves no trace.\<close>

lemma register_leave:
  assumes "inv t" and "\<forall>s. (s, n) \<notin> rel t"
  shows "rel (unsubscribe n (fold (\<lambda>s. subscribe s n) ss t)) = rel t"
proof -
  note a = subscribe_all [OF assms(1), of n ss]
  from unsubscribe_rel [OF conjunct1 [OF a], of n] conjunct2 [OF a] assms(2) show ?thesis by auto
qed

end

lemma sub_rel_map_of: "distinct (map fst t) \<Longrightarrow> (s, n) \<in> sub_rel t \<longleftrightarrow> (\<exists>ns. map_of t s = Some ns \<and> n \<in> set ns)"
  by (auto simp: sub_rel_def)

lemma sub_inv_of: "sub_inv t \<longleftrightarrow> distinct (map fst t) \<and> (\<forall>s ns. map_of t s = Some ns \<longrightarrow> ns \<noteq> [] \<and> distinct ns)"
proof (cases "distinct (map fst t)")
  case True
  then have "\<And>s ns. map_of t s = Some ns \<longleftrightarrow> (s, ns) \<in> set t" by simp
  then show ?thesis unfolding sub_inv_def by blast
qed (simp add: sub_inv_def)

lemma sub_Subscribe_map:
  "map_of (sub_Subscribe s n t) = (map_of t)(s \<mapsto> List.insert n (case map_of t s of None \<Rightarrow> [] | Some ns \<Rightarrow> ns))"
  by (auto simp: sub_Subscribe_def Let_def update_conv' split: option.split)

lemma sub_Subscribe_distinct: "distinct (map fst t) \<Longrightarrow> distinct (map fst (sub_Subscribe s n t))"
  by (simp add: sub_Subscribe_def Let_def distinct_update)

lemma sub_Unsubscribe_set:
  "(s, ns) \<in> set (sub_Unsubscribe n t) \<longleftrightarrow> (\<exists>ms. (s, ms) \<in> set t \<and> ns = removeAll n ms \<and> ns \<noteq> [])"
  by (force simp: sub_Unsubscribe_def)

lemma sub_Unsubscribe_distinct: "distinct (map fst t) \<Longrightarrow> distinct (map fst (sub_Unsubscribe n t))"
  unfolding sub_Unsubscribe_def by (induction t) (auto simp: image_iff)

lemma sub_Subscribe_inv: "sub_inv t \<Longrightarrow> sub_inv (sub_Subscribe s n t)"
  unfolding sub_inv_of
proof (elim conjE, intro conjI allI impI)
  fix s1 ns
  assume t: "\<forall>s ns. map_of t s = Some ns \<longrightarrow> ns \<noteq> [] \<and> distinct ns" and m: "map_of (sub_Subscribe s n t) s1 = Some ns"
  have t': "map_of t r \<noteq> Some []" "map_of t r = Some ms \<Longrightarrow> distinct ms" for r ms
    using t by blast+
  show "ns \<noteq> []"
    using t' (1) [of s1] m
    by (cases "map_of t s") (auto simp: sub_Subscribe_map List.insert_def split: if_splits)
  show "distinct ns"
    using t' (2) [of s1 ns] t' (2) [of s] m
    by (cases "map_of t s") (auto simp: sub_Subscribe_map split: if_splits)
qed (rule sub_Subscribe_distinct)

lemma sub_Subscribe_rel:
  assumes "distinct (map fst t)"
  shows "sub_rel (sub_Subscribe s n t) = insert (s, n) (sub_rel t)"
proof -
  have "(s1, n1) \<in> sub_rel (sub_Subscribe s n t) \<longleftrightarrow> (s1, n1) = (s, n) \<or> (s1, n1) \<in> sub_rel t" for s1 n1
    unfolding sub_rel_map_of [OF assms] sub_rel_map_of [OF sub_Subscribe_distinct [OF assms]] sub_Subscribe_map
    by (cases "map_of t s"; cases "s1 = s") auto
  then show ?thesis by auto
qed

lemma sub_Unsubscribe_inv: "sub_inv t \<Longrightarrow> sub_inv (sub_Unsubscribe n t)"
  unfolding sub_inv_def
proof (elim conjE, intro conjI ballI)
  fix p
  assume t: "\<forall>(s, ns)\<in>set t. ns \<noteq> [] \<and> distinct ns" and "p \<in> set (sub_Unsubscribe n t)"
  then obtain s ms where "p = (s, removeAll n ms)" "(s, ms) \<in> set t" "removeAll n ms \<noteq> []"
    by (cases p) (auto simp: sub_Unsubscribe_set)
  with t show "case p of (s, ns) \<Rightarrow> ns \<noteq> [] \<and> distinct ns" by (auto intro: distinct_removeAll)
qed (rule sub_Unsubscribe_distinct)

lemma sub_Unsubscribe_rel: "sub_rel (sub_Unsubscribe n t) = {(s, m) \<in> sub_rel t. m \<noteq> n}"
proof -
  have "(s, m) \<in> sub_rel (sub_Unsubscribe n t) \<longleftrightarrow> (s, m) \<in> sub_rel t \<and> m \<noteq> n" for s m
    unfolding sub_rel_def mem_Collect_eq case_prod_conv sub_Unsubscribe_set
    by (metis empty_iff empty_set set_removeAll Diff_iff singletonD singletonI)
  then show ?thesis by auto
qed

lemma sub_Subscribers_rel:
  assumes "sub_inv t"
  shows "set (sub_Subscribers s t) = {n. (s, n) \<in> sub_rel t} \<and> distinct (sub_Subscribers s t)"
proof -
  have d: "distinct (map fst t)" using assms by (simp add: sub_inv_def)
  show ?thesis
    using assms unfolding sub_rel_map_of [OF d] sub_Subscribers_def sub_inv_of
    by (cases "map_of t s") simp_all
qed

interpretation subs: subscriptions sub_Subscribe sub_Unsubscribe sub_Subscribers sub_rel sub_inv
proof
  fix t s n
  assume i: "sub_inv t"
  then have "distinct (map fst t)" by (simp add: sub_inv_def)
  with i show "sub_inv (sub_Subscribe s n t) \<and> sub_rel (sub_Subscribe s n t) = insert (s, n) (sub_rel t)"
    by (simp add: sub_Subscribe_inv sub_Subscribe_rel)
  show "sub_inv (sub_Unsubscribe n t) \<and> sub_rel (sub_Unsubscribe n t) = {(s, m) \<in> sub_rel t. m \<noteq> n}"
    using i by (simp add: sub_Unsubscribe_inv sub_Unsubscribe_rel)
qed (rule sub_Subscribers_rel)

section \<open>Properties\<close>

text \<open>Every sequence of registry operations, and of calls on the buffers of the entries.\<close>

datatype registry_op =
    OpGetOrCreate string
  | OpRemove string
  | OpOnBuffer nat "stream_buffer \<Rightarrow> stream_buffer"

fun sr_op :: "registry_op \<Rightarrow> stream_registry \<Rightarrow> stream_registry" where
  "sr_op (OpGetOrCreate n) r = snd (sr_GetOrCreate n r)"
| "sr_op (OpRemove n) r = sr_Remove n r"
| "sr_op (OpOnBuffer e h) r = sr_on h e r"

lemma sr_op_heap: "length (sr_heap (sr_op a r)) \<le> Suc (length (sr_heap r))"
  by (cases a) (simp_all add: sr_GetOrCreate_def sr_Remove_def Let_def split: option.split)

lemma sr_ops_inv:
  "sr_inv r \<Longrightarrow> length (sr_heap r) + length ops + 2 \<le> 2 ^ 32 \<Longrightarrow> sr_inv (fold sr_op ops r)"
proof (induction ops arbitrary: r)
  case (Cons a ops)
  have "sr_inv (sr_op a r)"
  proof (cases a)
    case (OpGetOrCreate n)
    from sr_GetOrCreate_inv [OF Cons.prems(1) _ prod.collapse [symmetric], of n] Cons.prems(2) OpGetOrCreate
    show ?thesis by simp
  qed (use Cons.prems in \<open>simp_all add: sr_Remove_inv sr_on_inv\<close>)
  moreover have "length (sr_heap (sr_op a r)) + length ops + 2 \<le> 2 ^ 32"
    using sr_op_heap [of a r] Cons.prems(2) by simp
  ultimately show ?case using Cons.IH by simp
qed simp

lemma sr_inv_lookup:
  assumes "sr_inv r"
  shows "sr_Get n r = Some e \<longleftrightarrow>
    e < length (sr_heap r) \<and> en_Name (sr_heap r ! e) = n \<and> sr_GetByID (en_ID (sr_heap r ! e)) r = Inr e"
proof -
  have "sr_GetByID sid r = Inr e \<longleftrightarrow> map_of (sr_byID r) sid = Some e" for sid
    by (simp add: sr_GetByID_def split: option.split)
  then show ?thesis using assms by (simp add: sr_inv_def sr_Get_def)
qed

lemma sr_inv_ids:
  assumes "sr_inv r" and "d < e" and "e < length (sr_heap r)"
  shows "en_ID (sr_heap r ! d) \<noteq> en_ID (sr_heap r ! e)"
proof -
  have "en_ID (sr_heap r ! d) = of_nat (d + 2)" "en_ID (sr_heap r ! e) = of_nat (e + 2)" "e + 2 < 2 ^ 32"
    using assms by (simp_all add: sr_inv_def)
  with of_nat_id_neq [OF assms(2)] show ?thesis by simp
qed

text \<open>C26: The stream registry's two indices agree. After any sequence of creations, removals and
  buffer operations (fewer than $2^{32}-2$ of them), a name leads to an entry exactly when the
  entry has that name and its id leads back to it, and no two entries ever made, removed ones
  included, share an id: a stale id never reaches another stream.\<close>

theorem stream_registry_consistent:
  assumes "length ops + 2 \<le> 2 ^ 32" and r_def: "r = fold sr_op ops (NewStreamRegistry maxRetain)"
  shows "(sr_Get n r = Some e \<longleftrightarrow>
      e < length (sr_heap r) \<and> en_Name (sr_heap r ! e) = n \<and> sr_GetByID (en_ID (sr_heap r ! e)) r = Inr e) \<and>
    (d < e \<and> e < length (sr_heap r) \<longrightarrow> en_ID (sr_heap r ! d) \<noteq> en_ID (sr_heap r ! e))"
proof -
  have i: "sr_inv r"
    unfolding r_def using assms(1) by (intro sr_ops_inv sr_inv_new) (simp add: NewStreamRegistry_def)
  show ?thesis using sr_inv_lookup [OF i] sr_inv_ids [OF i] by blast
qed

theorem stream_registry_consistent_witness:
  "sr_Get ''a'' (fold sr_op [OpGetOrCreate ''a'', OpRemove ''a'', OpGetOrCreate ''a''] (NewStreamRegistry 10)) = Some 1"
proof -
  let ?ops = "[OpGetOrCreate ''a'', OpRemove ''a'', OpGetOrCreate ''a'']"
  have "length ?ops + 2 \<le> (2::nat) ^ 32" by simp
  from stream_registry_consistent [OF this refl, of "''a''" 10 1 0] show ?thesis
    by (simp add: sr_GetOrCreate_def sr_Remove_def sr_GetByID_def NewStreamRegistry_def initStreamID_def
        alloc_id.simps [of 1] alloc_id.simps [of 2] Let_def)
qed

datatype sub_op = OpSubscribe string string | OpUnsubscribe string

fun sub_do :: "sub_op \<Rightarrow> subscription_table \<Rightarrow> subscription_table" where
  "sub_do (OpSubscribe s n) t = sub_Subscribe s n t"
| "sub_do (OpUnsubscribe n) t = sub_Unsubscribe n t"

fun rel_do :: "sub_op \<Rightarrow> (string \<times> string) set \<Rightarrow> (string \<times> string) set" where
  "rel_do (OpSubscribe s n) R = insert (s, n) R"
| "rel_do (OpUnsubscribe n) R = {(s, m) \<in> R. m \<noteq> n}"

lemma sub_do_rel: "sub_inv t \<Longrightarrow> sub_inv (sub_do a t) \<and> sub_rel (sub_do a t) = rel_do a (sub_rel t)"
  using subs.subscribe_rel [of t] subs.unsubscribe_rel [of t] by (cases a) simp_all

text \<open>C25: The subscription table implements a relation. After any sequence of \<open>Subscribe\<close> and
  \<open>Unsubscribe\<close>, \<open>Subscribers\<close> returns each subscribed node exactly once and no other, and the
  table keeps no entry for a stream without subscribers.\<close>

theorem subscription_table_refines:
  "let t = fold sub_do ops NewSubscriptionTable in
     set (sub_Subscribers s t) = {n. (s, n) \<in> fold rel_do ops {}} \<and> distinct (sub_Subscribers s t) \<and>
     (s \<in> fst ` set t \<longleftrightarrow> sub_Subscribers s t \<noteq> [])"
proof -
  have gen: "sub_inv t \<Longrightarrow> sub_inv (fold sub_do ops t) \<and> sub_rel (fold sub_do ops t) = fold rel_do ops (sub_rel t)" for t
    using sub_do_rel by (induction ops arbitrary: t) auto
  have "sub_inv NewSubscriptionTable" "sub_rel NewSubscriptionTable = {}"
    by (simp_all add: sub_inv_def sub_rel_def NewSubscriptionTable_def)
  with gen have t: "sub_inv (fold sub_do ops NewSubscriptionTable)"
    "sub_rel (fold sub_do ops NewSubscriptionTable) = fold rel_do ops {}" by metis+
  have "s \<in> fst ` set u \<longleftrightarrow> sub_Subscribers s u \<noteq> []" if "sub_inv u" for u
  proof (cases "map_of u s")
    case None
    then have "s \<notin> fst ` set u" by (simp add: map_of_eq_None_iff)
    with None show ?thesis by (simp add: sub_Subscribers_def)
  next
    case (Some ns)
    then have "s \<in> fst ` set u" by (force dest: map_of_SomeD)
    with Some that show ?thesis by (simp add: sub_Subscribers_def sub_inv_of)
  qed
  with t subs.subscribers_rel [OF t(1), of s] show ?thesis by (simp add: Let_def)
qed

end
