(* ===== verification/PushSession.thy ===== *)
theory PushSession
  imports Registry
begin

text \<open>
  \<^verbatim>\<open>internal/mux_http/server/session.go\<close>: the send state of a push stream, the edge session of
  v1, the sender goroutine and the reassembly of HTTP responses. The handlers that end in a call
  to the broker return what they hand to it (\<open>delivery\<close>); the broker theory composes them.

  A session's stream states are filed under their stream id and never removed, so the id stands
  for the pointer that the map, the sender and \<open>readLoop\<close> share.
\<close>

section \<open>streamSendState\<close>

record send_state =
  ss_entry :: nat
  ss_sendOffset :: int
  ss_ackedOffset :: int
  ss_window :: int
  ss_evicted :: bool

definition defaultSendWindow :: int where "defaultSendWindow = 8 * 1024 * 1024"

definition newStreamSendState :: "nat \<Rightarrow> send_state" where
  "newStreamSendState entry =
     \<lparr>ss_entry = entry, ss_sendOffset = 0, ss_ackedOffset = 0, ss_window = defaultSendWindow, ss_evicted = False\<rparr>"

definition inflight :: "send_state \<Rightarrow> int" where
  "inflight s = ss_sendOffset s - ss_ackedOffset s"

text \<open>\<open>waitWindow\<close>: \<open>None\<close> while it waits, then the error it returns (\<open>Some None\<close> for \<open>nil\<close>).\<close>

definition waitWindow :: "go_error option \<Rightarrow> u32 \<Rightarrow> send_state \<Rightarrow> go_error option option" where
  "waitWindow ctx sid s =
     (if \<not> ss_evicted s \<and> inflight s \<ge> ss_window s \<and> ctx = None then None
      else if ctx \<noteq> None then Some ctx
      else if ss_evicted s then Some (Some (Errorf ''stream %d evicted'' [ArgInt (uint sid)]))
      else Some None)"

definition updateAck :: "int \<Rightarrow> send_state \<Rightarrow> send_state" where
  "updateAck offset s = (if offset \<le> ss_ackedOffset s then s else s\<lparr>ss_ackedOffset := offset\<rparr>)"

definition evict :: "send_state \<Rightarrow> send_state" where
  "evict s = s\<lparr>ss_evicted := True\<rparr>"

section \<open>EdgeSession\<close>

record http_acc =
  ha_head :: "http_response_head_msg option"
  ha_body :: "byte list"

record edge_session1 =
  h_nodeID :: string
  h_conn :: mux_conn
  h_capPush :: bool
  h_capHTTPProxy :: bool
  h_cancelled :: bool
  h_streams :: "(u32 \<times> send_state) list"
  h_httpRespBuf :: "(u32 \<times> http_acc) list"
  h_once :: bool

definition newEdgeSession1 :: "string \<Rightarrow> mux_conn \<Rightarrow> edge_session1" where
  "newEdgeSession1 nodeID conn =
     \<lparr>h_nodeID = nodeID, h_conn = conn, h_capPush = False, h_capHTTPProxy = False, h_cancelled = False,
      h_streams = [], h_httpRespBuf = [], h_once = False\<rparr>"

definition h_ctx :: "edge_session1 \<Rightarrow> go_error option" where
  "h_ctx s = (if h_cancelled s then Some ErrContext else None)"

definition h_send :: "frame1 \<Rightarrow> edge_session1 \<Rightarrow> go_error option \<times> edge_session1" where
  "h_send f s = (case mc1_WriteFrame (h_conn s) f of (r, c) \<Rightarrow> (r, s\<lparr>h_conn := c\<rparr>))"

definition closeWithReason1 :: "string \<Rightarrow> edge_session1 \<Rightarrow> edge_session1" where
  "closeWithReason1 reason s =
     (if h_once s then s
      else s\<lparr>h_once := True, h_cancelled := True, h_conn := mc_Close (h_conn s),
             h_streams := map (\<lambda>(sid, st). (sid, evict st)) (h_streams s)\<rparr>)"

definition addStream :: "u32 \<Rightarrow> nat \<Rightarrow> edge_session1 \<Rightarrow> edge_session1" where
  "addStream sid entry s =
     (case map_of (h_streams s) sid of
        Some st \<Rightarrow> s
      | None \<Rightarrow> s\<lparr>h_streams := AList.update sid (newStreamSendState entry) (h_streams s)\<rparr>)"

text \<open>A change of the state filed under \<open>sid\<close>.\<close>

definition h_on :: "(send_state \<Rightarrow> send_state) \<Rightarrow> u32 \<Rightarrow> edge_session1 \<Rightarrow> edge_session1" where
  "h_on h sid s =
     (case map_of (h_streams s) sid of
        None \<Rightarrow> s
      | Some st \<Rightarrow> s\<lparr>h_streams := AList.update sid (h st) (h_streams s)\<rparr>)"

definition startSender :: "u32 \<Rightarrow> int \<Rightarrow> edge_session1 \<Rightarrow> edge_session1" where
  "startSender sid resumeOffset s =
     h_on (\<lambda>st. st\<lparr>ss_sendOffset := resumeOffset, ss_ackedOffset := resumeOffset\<rparr>) sid s"

text \<open>
  One turn of the sender's loop at its local \<open>offset\<close>, on the buffer \<open>b\<close> of its entry: it waits in
  \<open>WaitForData\<close> or \<open>waitWindow\<close>, or returns, or goes on at a new offset.
\<close>

datatype sender_res = SenderWaits | SenderStops | SenderAt int

definition sender_iter ::
  "codec1 \<Rightarrow> stream_buffer \<Rightarrow> u32 \<Rightarrow> send_state \<Rightarrow> int \<Rightarrow> edge_session1 \<Rightarrow> sender_res \<times> edge_session1" where
  "sender_iter J b sid st offset s =
     (if sb_WaitForData (h_ctx s) offset b then (SenderWaits, s)
      else if h_ctx s \<noteq> None then (SenderStops, s)
      else case waitWindow (h_ctx s) sid st of
        None \<Rightarrow> (SenderWaits, s)
      | Some (Some e) \<Rightarrow> (SenderStops, s)
      | Some None \<Rightarrow>
          (case sb_Read offset DataChunkSize b of (bs, err) \<Rightarrow>
             if err = Some ErrEOF
             then (SenderStops, snd (h_send \<lparr>f1_StreamID = sid, f1_Type = TypeRST1,
                     f1_Payload = enc_rst1 J \<lparr>x1_StreamID = sid, x1_Reason = ''EOF''\<rparr>\<rparr> s))
             else if err \<noteq> None then (SenderStops, closeWithReason1 ''buffer error'' s)
             else if length bs = 0 then (SenderAt offset, s)
             else case h_send \<lparr>f1_StreamID = sid, f1_Type = TypeData1, f1_Payload = bs\<rparr> s of
                    (Some e, s1) \<Rightarrow> (SenderStops, closeWithReason1 ''write DATA'' s1)
                  | (None, s1) \<Rightarrow>
                      (SenderAt (offset + int (length bs)),
                       h_on (\<lambda>st. st\<lparr>ss_sendOffset := ss_sendOffset st + int (length bs)\<rparr>) sid s1)))"

section \<open>HTTP responses\<close>

datatype delivery =
    DeliverComplete u32 http_response_head_msg "byte list"
  | DeliverError u32 http_error_msg

fun delivery_id :: "delivery \<Rightarrow> u32" where
  "delivery_id (DeliverComplete q h b) = q"
| "delivery_id (DeliverError q m) = q"

type_synonym acc_table = "(u32 \<times> http_acc) list"

definition handleHTTPResponseHead :: "codec1 \<Rightarrow> frame1 \<Rightarrow> acc_table \<Rightarrow> acc_table" where
  "handleHTTPResponseHead J f t =
     (case dec_http_head J (f1_Payload f) of
        (Some e, _) \<Rightarrow> t
      | (None, msg) \<Rightarrow> AList.update (f1_StreamID f) \<lparr>ha_head = Some msg, ha_body = []\<rparr> t)"

definition handleHTTPResponseBody :: "frame1 \<Rightarrow> acc_table \<Rightarrow> acc_table" where
  "handleHTTPResponseBody f t =
     (case map_of t (f1_StreamID f) of
        Some acc \<Rightarrow> AList.update (f1_StreamID f) (acc\<lparr>ha_body := ha_body acc @ f1_Payload f\<rparr>) t
      | None \<Rightarrow> t)"

definition handleHTTPResponseEnd :: "frame1 \<Rightarrow> acc_table \<Rightarrow> delivery option \<times> acc_table" where
  "handleHTTPResponseEnd f t =
     (let q = f1_StreamID f; t1 = AList.delete q t
      in case map_of t q of
           None \<Rightarrow> (None, t1)
         | Some acc \<Rightarrow>
             (case ha_head acc of
                None \<Rightarrow> (None, t1)
              | Some head \<Rightarrow> (Some (DeliverComplete q head (ha_body acc)), t1)))"

definition handleHTTPError :: "codec1 \<Rightarrow> frame1 \<Rightarrow> acc_table \<Rightarrow> delivery option \<times> acc_table" where
  "handleHTTPError J f t =
     (case dec_http_error J (f1_Payload f) of
        (Some e, _) \<Rightarrow> (None, t)
      | (None, msg) \<Rightarrow> (Some (DeliverError (f1_StreamID f) msg), AList.delete (f1_StreamID f) t))"

text \<open>The part of the switch in \<open>readLoop\<close> that concerns HTTP, and the loop over a list of frames.\<close>

definition http_dispatch :: "codec1 \<Rightarrow> frame1 \<Rightarrow> acc_table \<Rightarrow> delivery option \<times> acc_table" where
  "http_dispatch J f t =
     (if f1_Type f = TypeHTTPResponseHead then (None, handleHTTPResponseHead J f t)
      else if f1_Type f = TypeHTTPResponseBody then (None, handleHTTPResponseBody f t)
      else if f1_Type f = TypeHTTPResponseEnd then handleHTTPResponseEnd f t
      else if f1_Type f = TypeHTTPError then handleHTTPError J f t
      else (None, t))"

fun http_run :: "codec1 \<Rightarrow> frame1 list \<Rightarrow> acc_table \<Rightarrow> delivery list" where
  "http_run J [] t = []"
| "http_run J (f # fs) t =
     (case http_dispatch J f t of
        (None, t1) \<Rightarrow> http_run J fs t1
      | (Some d, t1) \<Rightarrow> d # http_run J fs t1)"

section \<open>Reassembly\<close>

text \<open>A frame reads and writes only the accumulator of its own request.\<close>

lemma http_dispatch_other:
  assumes "http_dispatch J f t = (d, t1)" and "f1_StreamID f \<noteq> q"
  shows "map_of t1 q = map_of t q" and "\<And>x. d = Some x \<Longrightarrow> delivery_id x \<noteq> q"
  using assms
  by (auto simp: http_dispatch_def handleHTTPResponseHead_def handleHTTPResponseBody_def handleHTTPResponseEnd_def
      handleHTTPError_def update_conv' AList.delete_conv' Let_def split: if_splits option.splits prod.splits)

lemma http_dispatch_same:
  assumes "http_dispatch J f t = (d, t1)" and "http_dispatch J f u = (e, u1)" and "f1_StreamID f = q"
    and "map_of t q = map_of u q"
  shows "map_of t1 q = map_of u1 q" and "d = e"
  using assms
  by (auto simp: http_dispatch_def handleHTTPResponseHead_def handleHTTPResponseBody_def handleHTTPResponseEnd_def
      handleHTTPError_def update_conv' AList.delete_conv' Let_def split: if_splits option.splits prod.splits)

lemma http_dispatch_id: "http_dispatch J f t = (Some x, t1) \<Longrightarrow> delivery_id x = f1_StreamID f"
  by (auto simp: http_dispatch_def handleHTTPResponseEnd_def handleHTTPError_def Let_def
      split: if_splits option.splits prod.splits)

lemma http_run_filter:
  "map_of t q = map_of u q \<Longrightarrow>
   filter (\<lambda>d. delivery_id d = q) (http_run J fs t) = http_run J (filter (\<lambda>f. f1_StreamID f = q) fs) u"
proof (induction fs arbitrary: t u)
  case (Cons f fs)
  obtain d t1 where t: "http_dispatch J f t = (d, t1)" by fastforce
  obtain e u1 where u: "http_dispatch J f u = (e, u1)" by fastforce
  show ?case
  proof (cases "f1_StreamID f = q")
    case True
    note s = http_dispatch_same [OF t u True Cons.prems]
    show ?thesis
      using Cons.IH [OF s(1)] t u True s(2) http_dispatch_id [of J f t]
      by (cases d) auto
  next
    case False
    note o' = http_dispatch_other [OF t False]
    show ?thesis
      using Cons.IH [of t1 u] Cons.prems o' t False by (cases d) auto
  qed
qed simp

definition body_frames :: "u32 \<Rightarrow> byte list list \<Rightarrow> frame1 list" where
  "body_frames q bs = map (\<lambda>b. \<lparr>f1_StreamID = q, f1_Type = TypeHTTPResponseBody, f1_Payload = b\<rparr>) bs"

lemma http_run_body:
  "map_of t q = Some acc \<Longrightarrow>
   \<exists>t1. map_of t1 q = Some (acc\<lparr>ha_body := ha_body acc @ concat bs\<rparr>) \<and>
        http_run J (body_frames q bs @ fs) t = http_run J fs t1"
proof (induction bs arbitrary: t acc)
  case Nil
  then show ?case by (auto simp: body_frames_def)
next
  case (Cons b bs)
  let ?f = "\<lparr>f1_StreamID = q, f1_Type = TypeHTTPResponseBody, f1_Payload = b\<rparr>"
  let ?t = "AList.update q (acc\<lparr>ha_body := ha_body acc @ b\<rparr>) t"
  have d: "http_dispatch J ?f t = (None, ?t)"
    using Cons.prems by (simp add: http_dispatch_def handleHTTPResponseBody_def types1)
  from Cons.IH [of ?t "acc\<lparr>ha_body := ha_body acc @ b\<rparr>"] show ?case
    by (simp add: body_frames_def d update_conv')
qed

lemma http_run_response:
  assumes h: "dec_http_head J hp = (None, head)"
  shows "http_run J (\<lparr>f1_StreamID = q, f1_Type = TypeHTTPResponseHead, f1_Payload = hp\<rparr> # body_frames q bs
      @ [\<lparr>f1_StreamID = q, f1_Type = TypeHTTPResponseEnd, f1_Payload = ep\<rparr>]) t = [DeliverComplete q head (concat bs)]"
proof -
  let ?t = "AList.update q \<lparr>ha_head = Some head, ha_body = []\<rparr> t"
  have hd: "http_dispatch J \<lparr>f1_StreamID = q, f1_Type = TypeHTTPResponseHead, f1_Payload = hp\<rparr> t = (None, ?t)"
    by (simp add: http_dispatch_def handleHTTPResponseHead_def h types1)
  have "map_of ?t q = Some \<lparr>ha_head = Some head, ha_body = []\<rparr>" by (simp add: update_conv')
  from http_run_body [OF this, of bs J "[\<lparr>f1_StreamID = q, f1_Type = TypeHTTPResponseEnd, f1_Payload = ep\<rparr>]"]
  obtain t1 where t1: "map_of t1 q = Some \<lparr>ha_head = Some head, ha_body = concat bs\<rparr>"
    and r: "http_run J (body_frames q bs @ [\<lparr>f1_StreamID = q, f1_Type = TypeHTTPResponseEnd, f1_Payload = ep\<rparr>]) ?t
      = http_run J [\<lparr>f1_StreamID = q, f1_Type = TypeHTTPResponseEnd, f1_Payload = ep\<rparr>] t1"
    by auto
  have "http_dispatch J \<lparr>f1_StreamID = q, f1_Type = TypeHTTPResponseEnd, f1_Payload = ep\<rparr> t1
      = (Some (DeliverComplete q head (concat bs)), AList.delete q t1)"
    by (simp add: http_dispatch_def handleHTTPResponseEnd_def t1 Let_def types1)
  then show ?thesis by (simp add: hd r)
qed

section \<open>The sender among the other goroutines\<close>

text \<open>
  One push stream of one session, with everything that may happen between two turns of its
  sender: the origin appends or closes the buffer, the trim loop trims it at any offset, an
  acknowledgement with any offset arrives, other goroutines send other frames, and the session
  may be closed. \<open>ps_log\<close> is all that was ever appended.
\<close>

record push_sys =
  ps_buf :: stream_buffer
  ps_sess :: edge_session1
  ps_offset :: int
  ps_running :: bool
  ps_log :: "byte list"

datatype push_event =
    PvAppend "byte list"
  | PvClose "go_error option"
  | PvTrim int
  | PvAck int
  | PvOther frame1
  | PvSender
  | PvSessionClose string

definition own_frame :: "u32 \<Rightarrow> frame1 \<Rightarrow> bool" where
  "own_frame sid f \<longleftrightarrow> f1_StreamID f = sid \<and> (f1_Type f = TypeData1 \<or> f1_Type f = TypeRST1)"

fun push_step :: "codec1 \<Rightarrow> u32 \<Rightarrow> push_event \<Rightarrow> push_sys \<Rightarrow> push_sys" where
  "push_step J sid (PvAppend d) y =
     (case sb_append_opt d (ps_buf y) of
        None \<Rightarrow> y
      | Some b \<Rightarrow> y\<lparr>ps_buf := b, ps_log := ps_log y @ d\<rparr>)"
| "push_step J sid (PvClose e) y = y\<lparr>ps_buf := sb_Close e (ps_buf y)\<rparr>"
| "push_step J sid (PvTrim x) y = y\<lparr>ps_buf := sb_Trim x (ps_buf y)\<rparr>"
| "push_step J sid (PvAck x) y = y\<lparr>ps_sess := h_on (updateAck x) sid (ps_sess y)\<rparr>"
| "push_step J sid (PvOther f) y =
     (if own_frame sid f then y else y\<lparr>ps_sess := snd (h_send f (ps_sess y))\<rparr>)"
| "push_step J sid PvSender y =
     (if \<not> ps_running y then y
      else case sender_iter J (ps_buf y) sid (the (map_of (h_streams (ps_sess y)) sid)) (ps_offset y) (ps_sess y) of
             (SenderWaits, s) \<Rightarrow> y\<lparr>ps_sess := s\<rparr>
           | (SenderStops, s) \<Rightarrow> y\<lparr>ps_sess := s, ps_running := False\<rparr>
           | (SenderAt x, s) \<Rightarrow> y\<lparr>ps_sess := s, ps_offset := x\<rparr>)"
| "push_step J sid (PvSessionClose r) y = y\<lparr>ps_sess := closeWithReason1 r (ps_sess y)\<rparr>"

definition push_start ::
  "stream_buffer \<Rightarrow> byte list \<Rightarrow> u32 \<Rightarrow> nat \<Rightarrow> int \<Rightarrow> edge_session1 \<Rightarrow> push_sys" where
  "push_start b log sid entry resumeOffset s =
     \<lparr>ps_buf = b, ps_sess = startSender sid resumeOffset (addStream sid entry s),
      ps_offset = resumeOffset, ps_running = True, ps_log = log\<rparr>"

definition own_frames :: "u32 \<Rightarrow> edge_session1 \<Rightarrow> frame1 list" where
  "own_frames sid s = filter (own_frame sid) (mc1_sent (h_conn s))"

definition data_sent :: "u32 \<Rightarrow> edge_session1 \<Rightarrow> byte list" where
  "data_sent sid s = concat (map f1_Payload (filter (\<lambda>f. f1_Type f = TypeData1) (own_frames sid s)))"

definition eof_sent :: "u32 \<Rightarrow> edge_session1 \<Rightarrow> bool" where
  "eof_sent sid s \<longleftrightarrow> (\<exists>f \<in> set (own_frames sid s). f1_Type f = TypeRST1)"

lemma data_not_rst: "TypeData1 \<noteq> TypeRST1" "TypeRST1 \<noteq> TypeData1"
  by (simp_all add: types1)

lemma mc1_close [simp]: "mc1_sent (mc_Close c) = mc1_sent c" "mc1_synced (mc_Close c) = mc1_synced c"
  by (simp_all add: mc1_sent_def mc1_synced_def mc_Close_def conn_sync_def mc_inv_def)

lemma close1_simps [simp]:
  "map_of (h_streams (closeWithReason1 r s)) sid = (if h_once s then map_of (h_streams s) sid
     else map_option evict (map_of (h_streams s) sid))"
  "own_frames sid (closeWithReason1 r s) = own_frames sid s"
  "mc1_synced (h_conn (closeWithReason1 r s)) = mc1_synced (h_conn s)"
  by (simp_all add: closeWithReason1_def own_frames_def map_of_map)

lemma h_on_simps [simp]:
  "map_of (h_streams (h_on h sid s)) sid = map_option h (map_of (h_streams s) sid)"
  "h_conn (h_on h sid s) = h_conn s" "own_frames t (h_on h sid s) = own_frames t s"
  by (simp_all add: h_on_def own_frames_def update_conv' split: option.split)

lemma h_send_simps:
  assumes "h_send f s = (r, s')" and "mc1_synced (h_conn s)"
  shows "h_streams s' = h_streams s" "mc1_synced (h_conn s')"
    "own_frames sid s' = (if r = None \<and> own_frame sid f then own_frames sid s @ [f] else own_frames sid s)"
proof -
  obtain c where w: "mc1_WriteFrame (h_conn s) f = (r, c)" "s' = s\<lparr>h_conn := c\<rparr>"
    using assms(1) by (auto simp: h_send_def split: prod.splits)
  from mux_conn1_sent.wf_sent [OF assms(2) w(1)] w(2)
  show "h_streams s' = h_streams s" "mc1_synced (h_conn s')"
    "own_frames sid s' = (if r = None \<and> own_frame sid f then own_frames sid s @ [f] else own_frames sid s)"
    by (auto simp: own_frames_def)
qed

definition push_inv :: "u32 \<Rightarrow> int \<Rightarrow> push_sys \<Rightarrow> bool" where
  "push_inv sid x0 y \<longleftrightarrow>
     sb_inv (ps_buf y) \<and> 0 \<le> sb_base (ps_buf y) \<and> sb_write (ps_buf y) = int (length (ps_log y)) \<and>
     sb_content (ps_buf y) = drop (nat (sb_base (ps_buf y))) (ps_log y) \<and>
     mc1_synced (h_conn (ps_sess y)) \<and> 0 \<le> x0 \<and> x0 \<le> ps_offset y \<and> ps_offset y \<le> int (length (ps_log y)) \<and>
     data_sent sid (ps_sess y) = take (nat (ps_offset y - x0)) (drop (nat x0) (ps_log y)) \<and>
     (eof_sent sid (ps_sess y) \<longrightarrow> sb_closed (ps_buf y) \<and> ps_offset y = int (length (ps_log y)) \<and> \<not> ps_running y) \<and>
     (\<exists>st. map_of (h_streams (ps_sess y)) sid = Some st \<and> ss_sendOffset st = ps_offset y \<and>
        ss_window st = defaultSendWindow \<and> inflight st < defaultSendWindow + int DataChunkSize)"

lemma sb_Close_simps [simp]:
  "sb_base (sb_Close e b) = sb_base b" "sb_write (sb_Close e b) = sb_write b"
  "sb_content (sb_Close e b) = sb_content b" "sb_closed (sb_Close e b)"
  by (simp_all add: sb_Close_def sb_content_def)

lemma sb_Close_inv: "sb_inv b \<Longrightarrow> sb_inv (sb_Close e b)"
  by (auto simp: sb_Close_def sb_inv_def)

lemma push_inv_session:
  assumes "push_inv sid x0 y" and "mc1_synced (h_conn s)" and "own_frames sid s = own_frames sid (ps_sess y)"
    and "map_of (h_streams s) sid = map_option h (map_of (h_streams (ps_sess y)) sid)"
    and "\<And>st. ss_sendOffset (h st) = ss_sendOffset st \<and> ss_window (h st) = ss_window st \<and> inflight (h st) \<le> inflight st"
  shows "push_inv sid x0 (y\<lparr>ps_sess := s\<rparr>)"
  using assms(1,2,4) order.strict_trans1 [OF conjunct2 [OF conjunct2 [OF assms(5)]]] assms(5)
  by (auto simp: push_inv_def data_sent_def eof_sent_def assms(3))

lemma evict_simps [simp]:
  "ss_sendOffset (evict st) = ss_sendOffset st" "ss_window (evict st) = ss_window st" "inflight (evict st) = inflight st"
  by (simp_all add: evict_def inflight_def)

lemma push_inv_close:
  assumes i: "push_inv sid x0 y"
  shows "push_inv sid x0 (y\<lparr>ps_sess := closeWithReason1 r (ps_sess y)\<rparr>)"
  by (rule push_inv_session [OF i, where h = "\<lambda>st. if h_once (ps_sess y) then st else evict st"])
    (use i in \<open>simp_all add: push_inv_def option.map_ident\<close>)

lemma push_inv_stop: "push_inv sid x0 y \<Longrightarrow> push_inv sid x0 (y\<lparr>ps_running := False\<rparr>)"
  by (simp add: push_inv_def)

lemma push_step_append:
  assumes i: "push_inv sid x0 y"
  shows "push_inv sid x0 (push_step J sid (PvAppend d) y)"
proof (cases "sb_append_opt d (ps_buf y)")
  case (Some b)
  then have a: "sb_Append d (ps_buf y) = Appended b" by (simp add: sb_append_opt_def split: append_res.splits)
  then have nc: "\<not> sb_closed (ps_buf y)" by (auto simp: sb_Append_def split: if_splits)
  have inv: "sb_inv (ps_buf y)" using i by (simp add: push_inv_def)
  note b = sb_Append_ok [OF inv a]
  have "sb_base (ps_buf y) \<le> sb_write (ps_buf y)" using sb_content_length [OF inv] by simp
  with i b nc Some show ?thesis by (auto simp: push_inv_def)
qed (use i in simp)

lemma push_step_trim:
  assumes i: "push_inv sid x0 y"
  shows "push_inv sid x0 (push_step J sid (PvTrim x) y)"
proof -
  have inv: "sb_inv (ps_buf y)" using i by (simp add: push_inv_def)
  from sb_Trim_content [OF inv, of x] obtain k where
    k: "sb_content (sb_Trim x (ps_buf y)) = drop k (sb_content (ps_buf y))"
    "sb_base (sb_Trim x (ps_buf y)) = sb_base (ps_buf y) + int k"
    "sb_write (sb_Trim x (ps_buf y)) = sb_write (ps_buf y)" "sb_inv (sb_Trim x (ps_buf y))" by blast
  have "sb_closed (sb_Trim x (ps_buf y)) = sb_closed (ps_buf y)" by (simp add: sb_Trim_def Let_def)
  with i k show ?thesis by (auto simp: push_inv_def nat_add_distrib add.commute)
qed

lemma push_step_sender:
  assumes i: "push_inv sid x0 y"
  shows "push_inv sid x0 (push_step J sid PvSender y)"
proof (cases "ps_running y")
  case True
  let ?s = "ps_sess y" and ?b = "ps_buf y" and ?x = "ps_offset y"
  obtain st where st: "map_of (h_streams ?s) sid = Some st" "ss_sendOffset st = ?x"
    "ss_window st = defaultSendWindow" "inflight st < defaultSendWindow + int DataChunkSize"
    using i by (auto simp: push_inv_def)
  have sy: "mc1_synced (h_conn ?s)" and inv: "sb_inv ?b" using i by (simp_all add: push_inv_def)
  have close: "push_inv sid x0 (y\<lparr>ps_sess := closeWithReason1 r ?s, ps_running := False\<rparr>)" for r
    using push_inv_stop [OF push_inv_close [OF i]] by simp
  have stop: "push_inv sid x0 (y\<lparr>ps_sess := ?s, ps_running := False\<rparr>)" and stay: "push_inv sid x0 (y\<lparr>ps_sess := ?s\<rparr>)"
    using i by (simp_all add: push_inv_def)
  show ?thesis
  proof (cases "sb_WaitForData (h_ctx ?s) ?x ?b \<or> h_ctx ?s \<noteq> None \<or> waitWindow (h_ctx ?s) sid st \<noteq> Some None")
    case blocked: True
    then show ?thesis using stop stay st(1) True by (auto simp: sender_iter_def split: option.splits)
  next
    case False
    then have w: "\<not> sb_WaitForData (h_ctx ?s) ?x ?b" "h_ctx ?s = None" "waitWindow (h_ctx ?s) sid st = Some None" by blast+
    then have fl: "inflight st < defaultSendWindow"
      using st(3) by (auto simp: waitWindow_def split: if_splits)
    obtain bs err where r: "sb_Read ?x DataChunkSize ?b = (bs, err)" by fastforce
    consider "err = Some ErrEOF" | e where "err = Some e" "e \<noteq> ErrEOF" | "err = None" "bs = []" | "err = None" "bs \<noteq> []"
      by (cases err) auto
    then show ?thesis
    proof cases
      case 1
      let ?f = "\<lparr>f1_StreamID = sid, f1_Type = TypeRST1, f1_Payload = enc_rst1 J \<lparr>x1_StreamID = sid, x1_Reason = ''EOF''\<rparr>\<rparr>"
      obtain r1 s1 where h: "h_send ?f ?s = (r1, s1)" by fastforce
      have fin: "sb_closed ?b" "?x \<ge> sb_write ?b"
        using r 1 by (auto simp: sb_Read_def split: if_splits)
      note s1 = h_send_simps [OF h sy]
      have "data_sent sid s1 = data_sent sid ?s"
        using s1(3) [of sid] by (simp add: data_sent_def data_not_rst)
      with i s1 fin w st r 1 h True show ?thesis
        by (auto simp: push_inv_def sender_iter_def)
    next
      case 2
      with w st r True show ?thesis using close [of "''buffer error''"] by (simp add: sender_iter_def)
    next
      case 3
      with w st r True stay show ?thesis by (simp add: sender_iter_def)
    next
      case 4
      let ?f = "\<lparr>f1_StreamID = sid, f1_Type = TypeData1, f1_Payload = bs\<rparr>"
      obtain r1 s1 where h: "h_send ?f ?s = (r1, s1)" by fastforce
      note s1 = h_send_simps [OF h sy]
      have rng: "sb_base ?b \<le> ?x" "?x < sb_write ?b"
        using r 4 by (auto simp: sb_Read_def split: if_splits)
      have bs: "bs = take DataChunkSize (drop (nat ?x) (ps_log y))"
      proof -
        have "0 \<le> sb_base ?b" using i by (simp add: push_inv_def)
        with rng(1) have "nat (?x - sb_base ?b) + nat (sb_base ?b) = nat ?x" by arith
        with sb_Read_content [OF inv rng, of DataChunkSize] r i show ?thesis
          by (simp add: push_inv_def)
      qed
      show ?thesis
      proof (cases r1)
        case (Some e)
        have "push_inv sid x0 (y\<lparr>ps_sess := s1\<rparr>)"
          by (rule push_inv_session [OF i, where h = "\<lambda>st. st"])
            (use s1 Some in \<open>simp_all add: option.map_ident\<close>)
        from push_inv_stop [OF push_inv_close [OF this]]
        have "push_inv sid x0 (y\<lparr>ps_sess := closeWithReason1 ''write DATA'' s1, ps_running := False\<rparr>)"
          by simp
        with w st r 4 h Some True show ?thesis by (simp add: sender_iter_def)
      next
        case None
        have len: "length bs \<le> DataChunkSize" "?x + int (length bs) \<le> int (length (ps_log y))"
          using bs rng i by (auto simp: push_inv_def min_def)
        have x: "0 \<le> x0" "x0 \<le> ?x" using i by (simp_all add: push_inv_def)
        have "own_frames sid s1 = own_frames sid ?s @ [?f]" using s1(3) [of sid] None by (simp add: own_frame_def)
        then have d: "data_sent sid s1 = data_sent sid ?s @ bs" and e: "eof_sent sid s1 = eof_sent sid ?s"
          by (simp_all add: data_sent_def eof_sent_def data_not_rst)
        have "nat (?x + int (length bs) - x0) = nat (?x - x0) + length bs" using x by simp
        moreover have "take (length bs) (drop (nat (?x - x0)) (drop (nat x0) (ps_log y))) = bs"
          using x bs by (simp add: nat_diff_distrib min.commute take_min_length
              flip: take_min_length [of "drop (nat ?x) (ps_log y)" DataChunkSize])
        ultimately have "data_sent sid s1 = take (nat (?x + int (length bs) - x0)) (drop (nat x0) (ps_log y))"
          using i d by (simp add: push_inv_def take_add)
        with i s1 e len fl st w r 4 h None True rng show ?thesis
          by (auto simp: push_inv_def sender_iter_def inflight_def data_sent_def eof_sent_def)
      qed
    qed
  qed
qed (use i in simp)

lemma push_step_inv:
  assumes i: "push_inv sid x0 y"
  shows "push_inv sid x0 (push_step J sid ev y)"
proof (cases ev)
  case (PvClose e)
  have "eof_sent sid (ps_sess y) \<longrightarrow> sb_closed (ps_buf y)" using i by (simp add: push_inv_def)
  with i PvClose show ?thesis by (auto simp: push_inv_def sb_Close_inv)
next
  case (PvAck x)
  have "push_inv sid x0 (y\<lparr>ps_sess := h_on (updateAck x) sid (ps_sess y)\<rparr>)"
    by (rule push_inv_session [OF i, where h = "updateAck x"])
      (use i in \<open>simp_all add: push_inv_def updateAck_def inflight_def\<close>)
  with PvAck show ?thesis by simp
next
  case (PvOther f)
  have sy: "mc1_synced (h_conn (ps_sess y))" using i by (simp add: push_inv_def)
  obtain r s1 where h: "h_send f (ps_sess y) = (r, s1)" by fastforce
  have "push_inv sid x0 (y\<lparr>ps_sess := s1\<rparr>)" if "\<not> own_frame sid f"
    by (rule push_inv_session [OF i, where h = "\<lambda>st. st"])
      (use h_send_simps [OF h sy] that in \<open>simp_all add: option.map_ident\<close>)
  with PvOther h i show ?thesis by simp
next
  case (PvSessionClose r)
  with push_inv_close [OF i] show ?thesis by simp
qed (use i push_step_append [OF i] push_step_trim [OF i] push_step_sender [OF i] in simp_all)

lemma push_steps_inv: "push_inv sid x0 y \<Longrightarrow> push_inv sid x0 (fold (push_step J sid) evs y)"
  by (induction evs arbitrary: y) (simp_all add: push_step_inv)

section \<open>Properties\<close>

text \<open>HTTP responses are reassembled whatever else is on the connection. If the frames that carry
  a request's id are a decodable head, body chunks and an end, then however frames of other
  requests, of push streams and of the control stream are interleaved with them, that request
  gets exactly one delivery: its head with the chunks in order.\<close>

theorem http_response_reassembled:
  assumes "filter (\<lambda>f. f1_StreamID f = q) fs =
      \<lparr>f1_StreamID = q, f1_Type = TypeHTTPResponseHead, f1_Payload = hp\<rparr> # body_frames q bs
      @ [\<lparr>f1_StreamID = q, f1_Type = TypeHTTPResponseEnd, f1_Payload = ep\<rparr>]"
    and "dec_http_head J hp = (None, head)"
  shows "filter (\<lambda>d. delivery_id d = q) (http_run J fs t) = [DeliverComplete q head (concat bs)]"
  using http_run_filter [OF refl, of q J fs t] http_run_response [OF assms(2)] assms(1) by simp

definition example_codec1 :: codec1 where
  "example_codec1 =
     \<lparr>enc_register1 = (\<lambda>m. []), dec_register1 = (\<lambda>b. (Some ErrDecode, \<lparr>r1_NodeID = [], r1_Subs = [], r1_Resume = None, r1_Caps = []\<rparr>)),
      enc_register_ack1 = (\<lambda>m. []), dec_register_ack1 = (\<lambda>b. (Some ErrDecode, \<lparr>k1_OK = False, k1_Message = [], k1_StreamIDs = Map.empty\<rparr>)),
      enc_ack = (\<lambda>m. put_u32 (am_StreamID m)), dec_ack = (\<lambda>b. (Some ErrDecode, \<lparr>am_StreamID = 0, am_Offset = 0\<rparr>)),
      enc_rst1 = (\<lambda>m. put_u32 (x1_StreamID m)), dec_rst1 = (\<lambda>b. (None, \<lparr>x1_StreamID = be_u32 b, x1_Reason = ''EOF''\<rparr>)),
      enc_http_request = (\<lambda>m. hq_Body m),
      dec_http_head = (\<lambda>b. (None, \<lparr>hh_StatusCode = int (length b), hh_Headers = Map.empty\<rparr>)),
      dec_http_error = (\<lambda>b. (None, \<lparr>he_Code = 502, he_Message = of_bytes b\<rparr>))\<rparr>"

theorem http_response_reassembled_witness:
  "filter (\<lambda>d. delivery_id d = 9) (http_run example_codec1
      [\<lparr>f1_StreamID = 9, f1_Type = TypeHTTPResponseHead, f1_Payload = [1, 1]\<rparr>,
       \<lparr>f1_StreamID = 7, f1_Type = TypeHTTPError, f1_Payload = [65]\<rparr>,
       \<lparr>f1_StreamID = 9, f1_Type = TypeHTTPResponseBody, f1_Payload = [4]\<rparr>,
       \<lparr>f1_StreamID = 7, f1_Type = TypeHTTPResponseBody, f1_Payload = [6]\<rparr>,
       \<lparr>f1_StreamID = 9, f1_Type = TypeHTTPResponseBody, f1_Payload = [5]\<rparr>,
       \<lparr>f1_StreamID = 9, f1_Type = TypeHTTPResponseEnd, f1_Payload = []\<rparr>] [])
   = [DeliverComplete 9 \<lparr>hh_StatusCode = 2, hh_Headers = Map.empty\<rparr> [4, 5]]"
  by (subst http_response_reassembled [where hp = "[1, 1]" and bs = "[[4], [5]]" and ep = "[]"])
    (simp_all add: body_frames_def example_codec1_def)

lemma push_start_inv:
  assumes "sb_inv b" and "0 \<le> sb_base b" and "sb_write b = int (length log)"
    and "sb_content b = drop (nat (sb_base b)) log" and "0 \<le> x0" and "x0 \<le> int (length log)"
    and "mc1_synced (h_conn s)" and "own_frames sid s = []" and "map_of (h_streams s) sid = None"
  shows "push_inv sid x0 (push_start b log sid entry x0 s)"
proof -
  let ?s1 = "addStream sid entry s"
  have s1: "map_of (h_streams ?s1) sid = Some (newStreamSendState entry)" "h_conn ?s1 = h_conn s"
    using assms(9) by (simp_all add: addStream_def update_conv')
  then have "own_frames sid ?s1 = []" using assms(8) by (simp add: own_frames_def)
  with assms s1 show ?thesis
    by (simp add: push_inv_def push_start_def startSender_def data_sent_def eof_sent_def newStreamSendState_def
        inflight_def defaultSendWindow_def)
qed

text \<open>C3: A push stream arrives exactly, whatever happens around its sender. From a resume offset
  within the stream on, over any interleaving of appends, close, trims at any offset,
  acknowledgements of any value, frames of other goroutines, failing writes and a session that
  closes, the \<open>DATA\<close> payloads that reach the wire are the stream's bytes from the resume offset to
  the sender's offset, without gap, repetition or reordering; an \<open>EOF\<close> reset is only sent once the
  stream is closed and all of it has been sent; and the bytes in flight stay below the window
  plus one chunk.\<close>

theorem push_sender_exact:
  assumes "sb_inv b" and "0 \<le> sb_base b" and "sb_write b = int (length log)"
    and "sb_content b = drop (nat (sb_base b)) log" and "0 \<le> x0" and "x0 \<le> int (length log)"
    and "mc1_synced (h_conn s)" and "own_frames sid s = []" and "map_of (h_streams s) sid = None"
  shows "let y = fold (push_step J sid) evs (push_start b log sid entry x0 s) in
      data_sent sid (ps_sess y) = take (nat (ps_offset y - x0)) (drop (nat x0) (ps_log y)) \<and>
      x0 \<le> ps_offset y \<and> ps_offset y \<le> int (length (ps_log y)) \<and>
      (eof_sent sid (ps_sess y) \<longrightarrow> sb_closed (ps_buf y) \<and> data_sent sid (ps_sess y) = drop (nat x0) (ps_log y)) \<and>
      (\<exists>st. map_of (h_streams (ps_sess y)) sid = Some st \<and> inflight st < defaultSendWindow + int DataChunkSize)"
proof -
  have i: "push_inv sid x0 (fold (push_step J sid) evs (push_start b log sid entry x0 s))" (is "push_inv sid x0 ?y")
    by (rule push_steps_inv [OF push_start_inv [OF assms]])
  have "take (nat (ps_offset ?y - x0)) (drop (nat x0) (ps_log ?y)) = drop (nat x0) (ps_log ?y)"
    if "ps_offset ?y = int (length (ps_log ?y))"
    using that i by (simp add: push_inv_def)
  then show ?thesis using i unfolding Let_def push_inv_def by auto
qed

lemma mc1_synced_new: "mc1_synced (NewMuxConn n r)"
  unfolding mc1_synced_def using conn_sync_new by blast

lemma mc1_sent_new: "mc1_sent (NewMuxConn n r) = []"
  using v1.csync_decodes [OF conn_sync_new, of n r] by (simp add: mc1_sent_def)

lemma push_sender_log: "ps_log (push_step J sid PvSender y) = ps_log y"
  by (simp split: prod.split sender_res.split)

theorem push_sender_exact_witness:
  "let y = fold (push_step example_codec1 2) [PvAppend [7, 8, 9], PvSender]
      (push_start (NewStreamBuffer 100) [] 2 0 0 (newEdgeSession1 ''n'' (NewMuxConn 100 \<lparr>rd_data = [], rd_err = ErrEOF\<rparr>)))
   in data_sent 2 (ps_sess y) = take (nat (ps_offset y)) [7, 8, 9]"
proof -
  let ?s = "newEdgeSession1 ''n'' (NewMuxConn 100 \<lparr>rd_data = [], rd_err = ErrEOF\<rparr>)"
  let ?y = "fold (push_step example_codec1 2) [PvAppend [7, 8, 9], PvSender] (push_start (NewStreamBuffer 100) [] 2 0 0 ?s)"
  have "own_frames 2 ?s = []" by (simp add: own_frames_def newEdgeSession1_def mc1_sent_new)
  then have "data_sent 2 (ps_sess ?y) = take (nat (ps_offset ?y - 0)) (drop (nat 0) (ps_log ?y))"
    using push_sender_exact [OF sb_inv_new [of 100], of "[]" 0 ?s 2 example_codec1 "[PvAppend [7, 8, 9], PvSender]" 0]
    by (simp add: NewStreamBuffer_def sb_content_def newEdgeSession1_def mc1_synced_new Let_def)
  moreover have "ps_log ?y = [7, 8, 9]"
    by (simp add: push_sender_log push_start_def sb_append_opt_def sb_Append_def NewStreamBuffer_def del: push_step.simps(6))
  ultimately show ?thesis by (simp add: Let_def)
qed

end
