(* ===== verification/Broker.thy ===== *)
theory Broker
  imports PushSession
begin

text \<open>
  \<^verbatim>\<open>internal/mux_http/server/push.go\<close> and \<^verbatim>\<open>httpproxy.go\<close>, with the node registry of
  \<^verbatim>\<open>registry.go\<close>: the broker that ties sessions, streams, acknowledgements and pending HTTP
  requests together. \<open>pb_sessions\<close> is the store of all sessions ever made; a pointer to a
  session is its index. Each definition is what one goroutine does between two points where it
  can be interleaved with others.
\<close>

section \<open>State\<close>

record http_result =
  hr_statusCode :: int
  hr_headers :: "string \<rightharpoonup> string"
  hr_body :: "byte list"
  hr_err :: "go_error option"

text \<open>\<open>pr_respCh\<close> is the channel of capacity one: what it holds, if anything.\<close>

record pending_request =
  pr_id :: u32
  pr_nodeID :: string
  pr_respCh :: "http_result option"

record push_broker =
  pb_nodes :: "(string \<times> nat) list"
  pb_subs :: subscription_table
  pb_streams :: stream_registry
  pb_ackTable :: "((string \<times> u32) \<times> int) list"
  pb_pongTable :: "(string \<times> nat) list"
  pb_pongChs :: "nat list"
  pb_pending :: "(u32 \<times> pending_request) list"
  pb_nextRequestID :: u32
  pb_sessions :: "edge_session1 list"

definition bufferMaxRetain :: int where "bufferMaxRetain = 512 * 1024 * 1024"
definition evictLagThreshold :: int where "evictLagThreshold = bufferMaxRetain * 8 div 10"
definition initRequestID :: u32 where "initRequestID = 0x80000000"

definition NewPushBroker :: push_broker where
  "NewPushBroker =
     \<lparr>pb_nodes = [], pb_subs = NewSubscriptionTable, pb_streams = NewStreamRegistry bufferMaxRetain,
      pb_ackTable = [], pb_pongTable = [], pb_pongChs = [], pb_pending = [],
      pb_nextRequestID = initRequestID, pb_sessions = []\<rparr>"

definition pb_on :: "(edge_session1 \<Rightarrow> edge_session1) \<Rightarrow> nat \<Rightarrow> push_broker \<Rightarrow> push_broker" where
  "pb_on h r b = b\<lparr>pb_sessions := (pb_sessions b)[r := h (pb_sessions b ! r)]\<rparr>"

section \<open>NodeRegistry\<close>

definition nr_Register :: "string \<Rightarrow> nat \<Rightarrow> push_broker \<Rightarrow> push_broker" where
  "nr_Register nodeID sess b =
     (let b1 = (case map_of (pb_nodes b) nodeID of
                  Some old \<Rightarrow> if old \<noteq> sess then pb_on (closeWithReason1 ''replaced by new connection'') old b else b
                | None \<Rightarrow> b)
      in b1\<lparr>pb_nodes := AList.update nodeID sess (pb_nodes b1)\<rparr>)"

definition nr_Unregister :: "string \<Rightarrow> nat \<Rightarrow> push_broker \<Rightarrow> push_broker" where
  "nr_Unregister nodeID sess b =
     (if map_of (pb_nodes b) nodeID = Some sess
      then b\<lparr>pb_nodes := AList.delete nodeID (pb_nodes b)\<rparr> else b)"

definition nr_Get :: "string \<Rightarrow> push_broker \<Rightarrow> nat option" where
  "nr_Get nodeID b = map_of (pb_nodes b) nodeID"

definition nr_All :: "push_broker \<Rightarrow> nat list" where
  "nr_All b = map snd (pb_nodes b)"

section \<open>Pong channels\<close>

text \<open>A channel of capacity four is the number of signals it holds.\<close>

definition registerPongCh :: "string \<Rightarrow> push_broker \<Rightarrow> nat \<times> push_broker" where
  "registerPongCh nodeID b =
     (let ch = length (pb_pongChs b)
      in (ch, b\<lparr>pb_pongChs := pb_pongChs b @ [0], pb_pongTable := AList.update nodeID ch (pb_pongTable b)\<rparr>))"

definition unregisterPongCh :: "string \<Rightarrow> push_broker \<Rightarrow> push_broker" where
  "unregisterPongCh nodeID b = b\<lparr>pb_pongTable := AList.delete nodeID (pb_pongTable b)\<rparr>"

definition onPong :: "string \<Rightarrow> push_broker \<Rightarrow> push_broker" where
  "onPong nodeID b =
     (case map_of (pb_pongTable b) nodeID of
        None \<Rightarrow> b
      | Some ch \<Rightarrow>
          if pb_pongChs b ! ch < 4
          then b\<lparr>pb_pongChs := (pb_pongChs b)[ch := pb_pongChs b ! ch + 1]\<rparr> else b)"

section \<open>Registration of an edge node\<close>

text \<open>One turn of the loop that sets up the push streams: the session is not shared yet.\<close>

definition setup_stream ::
  "register1_msg \<Rightarrow> string \<Rightarrow> push_broker \<times> edge_session1 \<times> (string \<rightharpoonup> u32) \<Rightarrow>
     push_broker \<times> edge_session1 \<times> (string \<rightharpoonup> u32)" where
  "setup_stream reg name st =
     (case st of (b, sess, ids) \<Rightarrow>
        (let (e, streams) = sr_GetOrCreate name (pb_streams b);
             sid = en_ID (sr_heap streams ! e);
             sess1 = addStream sid e sess;
             sess2 = (case r1_Resume reg of
                        None \<Rightarrow> sess1
                      | Some resume \<Rightarrow>
                          (case resume name of
                             None \<Rightarrow> sess1
                           | Some off \<Rightarrow>
                               h_on (\<lambda>st. st\<lparr>ss_sendOffset := off, ss_ackedOffset := off\<rparr>) sid sess1))
         in (b\<lparr>pb_streams := streams, pb_subs := sub_Subscribe name (r1_NodeID reg) (pb_subs b)\<rparr>,
             sess2, ids(name \<mapsto> sid))))"

text \<open>
  \<open>HandleEdgeConn\<close> up to the acknowledgement, on what the first \<open>ReadFrame\<close> returned: the connection
  it closed, or the new session in the store.
\<close>

definition he1_accept ::
  "codec1 \<Rightarrow> (go_error + frame1) \<Rightarrow> mux_conn \<Rightarrow> push_broker \<Rightarrow> (mux_conn + nat) \<times> push_broker" where
  "he1_accept J first conn b =
     (case first of
        Inl e \<Rightarrow> (Inl (mc_Close conn), b)
      | Inr f \<Rightarrow>
          if f1_Type f \<noteq> TypeRegister1 \<or> f1_StreamID f \<noteq> ControlStreamID then (Inl (mc_Close conn), b)
          else case dec_register1 J (f1_Payload f) of (err, reg) \<Rightarrow>
            if err \<noteq> None \<or> r1_NodeID reg = '''' then (Inl (mc_Close conn), b)
            else
              let sess = (newEdgeSession1 (r1_NodeID reg) conn)
                    \<lparr>h_capPush := (''push'' \<in> set (r1_Caps reg) \<or> length (r1_Subs reg) > 0),
                     h_capHTTPProxy := (''http_proxy'' \<in> set (r1_Caps reg))\<rparr>;
                  (b1, sess1, ids) = fold (setup_stream reg) (r1_Subs reg) (b, sess, Map.empty)
              in case h_send \<lparr>f1_StreamID = ControlStreamID, f1_Type = TypeRegisterAck1,
                     f1_Payload = enc_register_ack1 J \<lparr>k1_OK = True, k1_Message = '''', k1_StreamIDs = ids\<rparr>\<rparr> sess1 of
                   (Some e, sess2) \<Rightarrow> (Inl (mc_Close (h_conn sess2)), b1)
                 | (None, sess2) \<Rightarrow>
                     (Inr (length (pb_sessions b1)), b1\<lparr>pb_sessions := pb_sessions b1 @ [sess2]\<rparr>))"

text \<open>After the acknowledgement: the session becomes visible, and a sender starts per subscription.\<close>

definition start_sender_of :: "nat \<Rightarrow> string \<Rightarrow> push_broker \<Rightarrow> push_broker" where
  "start_sender_of r name b =
     (let (e, streams) = sr_GetOrCreate name (pb_streams b);
          sid = en_ID (sr_heap streams ! e);
          b1 = b\<lparr>pb_streams := streams\<rparr>
      in case map_of (h_streams (pb_sessions b1 ! r)) sid of
           None \<Rightarrow> b1
         | Some st \<Rightarrow> pb_on (startSender sid (ss_sendOffset st)) r b1)"

definition he1_register :: "register1_msg \<Rightarrow> nat \<Rightarrow> push_broker \<Rightarrow> push_broker" where
  "he1_register reg r b = fold (start_sender_of r) (r1_Subs reg) (nr_Register (r1_NodeID reg) r b)"

text \<open>When the read loop ends: the deferred close, then the cleanup.\<close>

definition he1_exit :: "nat \<Rightarrow> push_broker \<Rightarrow> push_broker" where
  "he1_exit r b =
     (let nodeID = h_nodeID (pb_sessions b ! r);
          b1 = pb_on (closeWithReason1 ''read loop exited'') r b;
          b2 = nr_Unregister nodeID r b1
      in b2\<lparr>pb_subs := sub_Unsubscribe nodeID (pb_subs b2)\<rparr>)"

section \<open>Origin push\<close>

text \<open>
  The reader of an origin request is the list of its \<open>Read\<close> results until the request's context
  is cancelled. The loop ends, or waits in
  \<open>Append\<close> for room with the block it holds and the script left.
\<close>

datatype push_out =
    PushReturns int "go_error option" stream_buffer
  | PushWaits int "byte list" stream_buffer

fun push_loop :: "(byte list \<times> go_error option) list \<Rightarrow> int \<Rightarrow> stream_buffer \<Rightarrow> push_out" where
  "push_loop [] tot b = PushReturns tot (Some ErrContext) (sb_Close (Some ErrContext) b)"
| "push_loop ((d, err) # sc) tot b =
     (let next = (\<lambda>tot b.
            if err = Some ErrEOF then PushReturns tot None (sb_Close None b)
            else if err \<noteq> None then PushReturns tot err (sb_Close err b)
            else push_loop sc tot b)
      in if length d > 0
         then case sb_Append d b of
                AppendWaits \<Rightarrow> PushWaits tot d b
              | AppendFails e \<Rightarrow> PushReturns tot (Some e) (sb_Close (Some e) b)
              | Appended b1 \<Rightarrow> next (tot + int (length d)) b1
         else next tot b)"

section \<open>Acknowledgements and trimming\<close>

definition onAck :: "string \<Rightarrow> u32 \<Rightarrow> int \<Rightarrow> push_broker \<Rightarrow> push_broker" where
  "onAck nodeID sid offset b =
     (let k = (nodeID, sid);
          cur = (case map_of (pb_ackTable b) k of None \<Rightarrow> 0 | Some x \<Rightarrow> x);
          b1 = (if offset > cur then b\<lparr>pb_ackTable := AList.update k offset (pb_ackTable b)\<rparr> else b)
      in case sr_GetByID sid (pb_streams b1) of
           Inl e \<Rightarrow> b1
         | Inr e \<Rightarrow>
             (let lag = sb_WriteOffset (sr_buffer (pb_streams b1) e) - offset
              in if lag > evictLagThreshold
                 then (case nr_Get nodeID b1 of
                         None \<Rightarrow> b1
                       | Some r \<Rightarrow>
                           pb_on (closeWithReason1 (''stream '' @ en_Name (sr_heap (pb_streams b1) ! e) @ '' lag '' @
                             show_int lag @ '' bytes exceeds threshold'')) r b1)
                 else b1))"

text \<open>The minimum per stream that \<open>trimAll\<close> collects from the acknowledgement table.\<close>

fun min_acks :: "((string \<times> u32) \<times> int) list \<Rightarrow> (u32 \<times> int) list \<Rightarrow> (u32 \<times> int) list" where
  "min_acks [] byStream = byStream"
| "min_acks (((nodeID, sid), off) # acks) byStream =
     min_acks acks
       (case map_of byStream sid of
          None \<Rightarrow> AList.update sid off byStream
        | Some m \<Rightarrow> if off < m then AList.update sid off byStream else byStream)"

definition trim_stream :: "u32 \<times> int \<Rightarrow> stream_registry \<Rightarrow> stream_registry" where
  "trim_stream p r =
     (case sr_GetByID (fst p) r of
        Inl e \<Rightarrow> r
      | Inr e \<Rightarrow> sr_on (sb_Trim (snd p)) e r)"

definition drop_finished :: "string \<Rightarrow> push_broker \<Rightarrow> push_broker" where
  "drop_finished name b =
     (if length (sub_Subscribers name (pb_subs b)) = 0
      then (case sr_Get name (pb_streams b) of
              None \<Rightarrow> b
            | Some e \<Rightarrow>
                b\<lparr>pb_ackTable := filter (\<lambda>((n, sid), off). sid \<noteq> en_ID (sr_heap (pb_streams b) ! e)) (pb_ackTable b),
                  pb_streams := sr_Remove name (pb_streams b)\<rparr>)
      else b)"

definition trimAll :: "push_broker \<Rightarrow> push_broker" where
  "trimAll b =
     (let b1 = b\<lparr>pb_streams := fold trim_stream (min_acks (pb_ackTable b) []) (pb_streams b)\<rparr>
      in fold drop_finished (sr_ClosedStreams (pb_streams b1)) b1)"

section \<open>Information endpoints\<close>

definition StreamInfo :: "push_broker \<Rightarrow> (string \<times> int) list" where
  "StreamInfo b =
     List.map_filter (\<lambda>name. case sr_Get name (pb_streams b) of
         None \<Rightarrow> None
       | Some e \<Rightarrow> Some (name, sb_WriteOffset (sr_buffer (pb_streams b) e))) (sr_Names (pb_streams b))"

definition NodeIDs1 :: "push_broker \<Rightarrow> string list" where
  "NodeIDs1 b = map (\<lambda>r. h_nodeID (pb_sessions b ! r)) (nr_All b)"

definition NodeInfo :: "push_broker \<Rightarrow> (string \<times> string list) list" where
  "NodeInfo b = map (\<lambda>r. let s = pb_sessions b ! r in
      (h_nodeID s, (if h_capPush s then [''push''] else []) @ (if h_capHTTPProxy s then [''http_proxy''] else [])))
    (nr_All b)"

section \<open>Trimming\<close>

lemma min_acks_distinct: "distinct (map fst bs) \<Longrightarrow> distinct (map fst (min_acks acks bs))"
  by (induction acks bs rule: min_acks.induct) (simp_all add: distinct_update split: option.split)

lemma min_acks_le:
  "map_of (min_acks acks bs) sid = Some m \<Longrightarrow>
     (((n, sid), off) \<in> set acks \<longrightarrow> m \<le> off) \<and> (map_of bs sid = Some m0 \<longrightarrow> m \<le> m0)"
proof (induction acks bs arbitrary: m0 rule: min_acks.induct)
  case (2 n1 s1 o1 acks bs)
  let ?bs = "case map_of bs s1 of None \<Rightarrow> AList.update s1 o1 bs
      | Some m \<Rightarrow> if o1 < m then AList.update s1 o1 bs else bs"
  have p: "map_of (min_acks acks ?bs) sid = Some m" using "2.prems" by simp
  have new: "\<exists>k \<le> o1. map_of ?bs sid = Some k" if "s1 = sid"
    using that by (cases "map_of bs s1") (auto simp: update_conv' not_less)
  have old: "\<exists>j \<le> m0. map_of ?bs sid = Some j" if "map_of bs sid = Some m0"
    using that by (cases "map_of bs s1") (auto simp: update_conv' not_less)
  show ?case
  proof (intro conjI impI)
    show "m \<le> off" if "((n, sid), off) \<in> set (((n1, s1), o1) # acks)"
    proof (cases "((n, sid), off) \<in> set acks")
      case True
      with "2.IH" [OF p] show ?thesis by blast
    next
      case False
      with that have "s1 = sid" "off = o1" by auto
      with new "2.IH" [OF p] show ?thesis by fastforce
    qed
    show "m \<le> m0" if "map_of bs sid = Some m0"
      using old [OF that] "2.IH" [OF p] by fastforce
  qed
qed simp

lemma min_acks_none:
  "\<lbrakk>map_of bs sid = None; \<And>n off. ((n, sid), off) \<notin> set acks\<rbrakk> \<Longrightarrow> map_of (min_acks acks bs) sid = None"
proof (induction acks bs rule: min_acks.induct)
  case (2 n1 s1 o1 acks bs)
  then have "s1 \<noteq> sid" by auto
  with 2 show ?case by (auto simp: update_conv' split: option.splits)
qed simp

lemma trim_stream_simps [simp]:
  "sr_streams (trim_stream p r) = sr_streams r" "sr_byID (trim_stream p r) = sr_byID r"
  "length (sr_heap (trim_stream p r)) = length (sr_heap r)"
  "en_ID (sr_heap (trim_stream p r) ! i) = en_ID (sr_heap r ! i)"
  "sr_inv (trim_stream p r) = sr_inv r"
  by (simp_all add: trim_stream_def sr_on_inv split: sum.split)

lemma trim_stream_buffer:
  assumes "sr_inv r" and "e < length (sr_heap r)"
  shows "sr_buffer (trim_stream (sid, m) r) e =
    (if map_of (sr_byID r) sid = Some e then sb_Trim m (sr_buffer r e) else sr_buffer r e)"
proof (cases "map_of (sr_byID r) sid")
  case (Some d)
  then have "d < length (sr_heap r)" using assms(1) unfolding sr_inv_def by blast
  with Some show ?thesis by (simp add: trim_stream_def sr_GetByID_def sr_buffer_on)
qed (simp add: trim_stream_def sr_GetByID_def)

lemma trim_streams_buffer:
  assumes "sr_inv r" and "e < length (sr_heap r)" and "distinct (map fst ps)"
  shows "sr_buffer (fold trim_stream ps r) e =
    (case map_of ps (en_ID (sr_heap r ! e)) of
       None \<Rightarrow> sr_buffer r e
     | Some m \<Rightarrow> if map_of (sr_byID r) (en_ID (sr_heap r ! e)) = Some e then sb_Trim m (sr_buffer r e) else sr_buffer r e)"
  using assms
proof (induction ps arbitrary: r)
  case (Cons p ps)
  obtain sid m where p: "p = (sid, m)" by fastforce
  have other: "map_of (sr_byID r) sid = Some e \<Longrightarrow> en_ID (sr_heap r ! e) = sid"
    using Cons.prems(1) unfolding sr_inv_def by blast
  have "map_of ps sid = None" using Cons.prems(3) p by (simp add: map_of_eq_None_iff)
  with Cons.IH [of "trim_stream p r"] Cons.prems other trim_stream_buffer [OF Cons.prems(1,2), of sid m] p
  show ?case by (auto split: option.split)
qed simp

lemma drop_finished_heap [simp]: "sr_heap (pb_streams (drop_finished n b)) = sr_heap (pb_streams b)"
  by (simp add: drop_finished_def sr_Remove_def split: option.split)

lemma drop_all_heap: "sr_heap (pb_streams (fold drop_finished ns b)) = sr_heap (pb_streams b)"
  by (induction ns arbitrary: b) simp_all

lemma trimAll_buffer:
  assumes "sr_inv (pb_streams b)" and "e < length (sr_heap (pb_streams b))"
  shows "sr_buffer (pb_streams (trimAll b)) e =
    (case map_of (min_acks (pb_ackTable b) []) (en_ID (sr_heap (pb_streams b) ! e)) of
       None \<Rightarrow> sr_buffer (pb_streams b) e
     | Some m \<Rightarrow> if map_of (sr_byID (pb_streams b)) (en_ID (sr_heap (pb_streams b) ! e)) = Some e
               then sb_Trim m (sr_buffer (pb_streams b) e) else sr_buffer (pb_streams b) e)"
  using trim_streams_buffer [OF assms, of "min_acks (pb_ackTable b) []"]
  by (simp add: trimAll_def Let_def sr_buffer_def drop_all_heap min_acks_distinct)

section \<open>Properties\<close>


text \<open>Two subscribers of one stream of three bytes; the first has acknowledged it, the second nothing.\<close>

definition two_subscribers :: push_broker where
  "two_subscribers =
     (let (e, streams) = sr_GetOrCreate ''s'' (NewStreamRegistry bufferMaxRetain);
          fill = (\<lambda>buf. case sb_Append [1, 2, 3] buf of Appended b \<Rightarrow> b | _ \<Rightarrow> buf)
      in onAck ''a'' (en_ID (sr_heap streams ! e)) 3
           (NewPushBroker\<lparr>pb_streams := sr_on fill e streams,
              pb_subs := sub_Subscribe ''s'' ''b'' (sub_Subscribe ''s'' ''a'' NewSubscriptionTable)\<rparr>))"

lemma stream_s_created:
  "sr_GetOrCreate ''s'' (NewStreamRegistry n) =
     (0, \<lparr>sr_streams = [(''s'', 0)], sr_byID = [(2, 0)], sr_maxRetain = n,
          sr_heap = [\<lparr>en_Name = ''s'', en_ID = 2, en_Buffer = NewStreamBuffer n\<rparr>], nextStreamID = 2\<rparr>)"
  by (simp add: sr_GetOrCreate_def NewStreamRegistry_def initStreamID_def alloc_id.simps [of 1] Let_def)

definition three_bytes :: stream_buffer where
  "three_bytes = \<lparr>sb_segments = [\<lparr>sg_base = 0, sg_data = [1, 2, 3]\<rparr>], sb_base = 0, sb_write = 3,
     sb_maxRetain = bufferMaxRetain, sb_closed = False, sb_closeErr = None\<rparr>"

lemma append_three: "sb_Append [1, 2, 3] (NewStreamBuffer bufferMaxRetain) = Appended three_bytes"
  by (simp add: sb_Append_def NewStreamBuffer_def sb_append_loop.simps sb_room_segment_def sb_fill_def
      segmentSize_def three_bytes_def bufferMaxRetain_def Let_def)

lemma evictLagThreshold_value: "evictLagThreshold = 429496729"
  by (simp add: evictLagThreshold_def bufferMaxRetain_def)

lemma two_subscribers_eq:
  "two_subscribers = NewPushBroker\<lparr>pb_ackTable := [((''a'', 2), 3)],
     pb_subs := [(''s'', [''b'', ''a''])],
     pb_streams := \<lparr>sr_streams = [(''s'', 0)], sr_byID = [(2, 0)], sr_maxRetain = bufferMaxRetain,
       sr_heap = [\<lparr>en_Name = ''s'', en_ID = 2, en_Buffer = three_bytes\<rparr>], nextStreamID = 2\<rparr>\<rparr>"
  by (simp add: two_subscribers_def stream_s_created sr_on_def append_three onAck_def NewPushBroker_def
      sr_GetByID_def sr_buffer_def sb_WriteOffset_def three_bytes_def evictLagThreshold_value
      sub_Subscribe_def NewSubscriptionTable_def List.insert_def Let_def)

lemma two_subscribers_inv:
  "sr_inv (pb_streams two_subscribers)" "sb_inv three_bytes" "sr_buffer (pb_streams two_subscribers) 0 = three_bytes"
proof -
  have "pb_streams two_subscribers = sr_on (\<lambda>b. three_bytes) 0 (snd (sr_GetOrCreate ''s'' (NewStreamRegistry bufferMaxRetain)))"
    by (simp add: two_subscribers_eq stream_s_created sr_on_def)
  moreover have "sr_inv (snd (sr_GetOrCreate ''s'' (NewStreamRegistry bufferMaxRetain)))"
    by (rule sr_GetOrCreate_inv [OF sr_inv_new _ prod.collapse [symmetric]]) (simp add: NewStreamRegistry_def)
  ultimately show "sr_inv (pb_streams two_subscribers)" by (simp add: sr_on_inv)
  show "sb_inv three_bytes" by (simp add: sb_inv_def three_bytes_def sg_end_def segmentSize_def)
  show "sr_buffer (pb_streams two_subscribers) 0 = three_bytes" by (simp add: two_subscribers_eq sr_buffer_def)
qed


text \<open>A subscriber that has not acknowledged anything yet does not hold the trim back: the minimum
  is taken over the acknowledgements that exist, not over the subscribers. Node \<open>b\<close> is
  subscribed and has acknowledged nothing; because node \<open>a\<close> has acknowledged all of the stream, one
  trim removes it, and \<open>b\<close>'s sender finds its offset evicted, which closes its session.\<close>

theorem trim_ignores_silent_subscriber:
  "set (sub_Subscribers ''s'' (pb_subs two_subscribers)) = {''a'', ''b''} \<and>
   sb_Read 0 10 (sr_buffer (pb_streams two_subscribers) 0) = ([1, 2, 3], None) \<and>
   sb_Read 0 10 (sr_buffer (pb_streams (trimAll two_subscribers)) 0) = ([], Some ErrOffsetEvicted)"
proof -
  have "sb_Trim 3 three_bytes = three_bytes\<lparr>sb_segments := [], sb_base := 3\<rparr>"
    by (simp add: sb_Trim_def sb_first_after_def go_search_def search_loop.simps three_bytes_def sg_end_def Let_def)
  moreover have "sr_buffer (pb_streams (trimAll two_subscribers)) 0 = sb_Trim 3 three_bytes"
    using trimAll_buffer [OF two_subscribers_inv(1), of 0] two_subscribers_inv(3) by (simp add: two_subscribers_eq)
  moreover have "sb_Read 0 10 three_bytes = ([1, 2, 3], None)"
    using sb_Read_content [OF two_subscribers_inv(2), of 0 10] by (simp add: three_bytes_def sb_content_def)
  ultimately show ?thesis
    using two_subscribers_inv(3) by (auto simp: two_subscribers_eq sub_Subscribers_def sb_Read_def three_bytes_def)
qed

section \<open>Reconnection\<close>

lemma pb_on_simps [simp]:
  "pb_nodes (pb_on h r b) = pb_nodes b" "pb_subs (pb_on h r b) = pb_subs b" "pb_streams (pb_on h r b) = pb_streams b"
  "pb_ackTable (pb_on h r b) = pb_ackTable b" "pb_pongTable (pb_on h r b) = pb_pongTable b"
  "pb_pongChs (pb_on h r b) = pb_pongChs b" "pb_pending (pb_on h r b) = pb_pending b"
  "pb_nextRequestID (pb_on h r b) = pb_nextRequestID b" "length (pb_sessions (pb_on h r b)) = length (pb_sessions b)"
  by (simp_all add: pb_on_def)

lemma pb_on_nth: "r < length (pb_sessions b) \<Longrightarrow>
  pb_sessions (pb_on h r b) ! i = (if i = r then h (pb_sessions b ! r) else pb_sessions b ! i)"
  by (simp add: pb_on_def nth_list_update)

text \<open>A reconnecting node replaces its session, and the old session's cleanup respects the node
  registry but nothing else. After a registration the node id leads to the new session and the
  old one is closed. When the old read loop then ends, the registry entry stays, but the new
  session has lost all its subscriptions; and when the old ping loop ends, the new session's
  pong channel is gone, so that no pong reaches it any more and it will run into the ping
  timeout.\<close>

theorem reconnect_cleanup_hits_new_session:
  assumes "map_of (pb_nodes b) n = Some old" and "old \<noteq> new" and "old < length (pb_sessions b)"
    and "h_nodeID (pb_sessions b ! old) = n" and "sub_inv (pb_subs b)" and "\<not> h_once (pb_sessions b ! old)"
  defines "b1 \<equiv> nr_Register n new b"
  shows "nr_Get n b1 = Some new \<and> h_cancelled (pb_sessions b1 ! old) \<and>
    nr_Get n (he1_exit old b1) = Some new \<and>
    n \<notin> set (sub_Subscribers s (pb_subs (he1_exit old b1))) \<and>
    onPong n (unregisterPongCh n (snd (registerPongCh n b1))) = unregisterPongCh n (snd (registerPongCh n b1))"
proof -
  have b1: "map_of (pb_nodes b1) n = Some new" "h_nodeID (pb_sessions b1 ! old) = n" "pb_subs b1 = pb_subs b"
    "h_cancelled (pb_sessions b1 ! old)"
    using assms(1-4,6) by (simp_all add: b1_def nr_Register_def Let_def update_conv' pb_on_nth closeWithReason1_def)
  have "sub_inv (sub_Unsubscribe n (pb_subs b))"
    "sub_rel (sub_Unsubscribe n (pb_subs b)) = {(s, m) \<in> sub_rel (pb_subs b). m \<noteq> n}"
    using subs.unsubscribe_rel [OF assms(5), of n] by simp_all
  then have "n \<notin> set (sub_Subscribers s (sub_Unsubscribe n (pb_subs b)))"
    using subs.subscribers_rel [of "sub_Unsubscribe n (pb_subs b)" s] by auto
  moreover have "map_of (pb_pongTable (unregisterPongCh n x)) n = None" for x
    by (simp add: unregisterPongCh_def AList.delete_conv')
  ultimately show ?thesis
    using b1 assms(2) by (simp add: nr_Get_def he1_exit_def nr_Unregister_def Let_def onPong_def)
qed

theorem reconnect_cleanup_hits_new_session_witness:
  "nr_Get ''n'' (he1_exit 0 (nr_Register ''n'' 1 (NewPushBroker\<lparr>pb_nodes := [(''n'', 0)],
     pb_subs := [(''s'', [''n''])],
     pb_sessions := [newEdgeSession1 ''n'' (NewMuxConn 9 \<lparr>rd_data = [], rd_err = ErrEOF\<rparr>),
                     newEdgeSession1 ''n'' (NewMuxConn 9 \<lparr>rd_data = [], rd_err = ErrEOF\<rparr>)]\<rparr>))) = Some 1"
  using reconnect_cleanup_hits_new_session [of "NewPushBroker\<lparr>pb_nodes := [(''n'', 0)],
     pb_subs := [(''s'', [''n''])],
     pb_sessions := [newEdgeSession1 ''n'' (NewMuxConn 9 \<lparr>rd_data = [], rd_err = ErrEOF\<rparr>),
                     newEdgeSession1 ''n'' (NewMuxConn 9 \<lparr>rd_data = [], rd_err = ErrEOF\<rparr>)]\<rparr>" "''n''" 0 1]
  by (simp add: newEdgeSession1_def sub_inv_def)

section \<open>The origin's data\<close>

lemma push_loop_data:
  assumes "sb_inv b" and "\<not> sb_closed b"
  shows "case push_loop (map (\<lambda>d. (d, None)) ds @ [(l, Some ErrEOF)]) n b of
      PushReturns m err b' \<Rightarrow> err = None \<and> m = n + int (length (concat ds @ l)) \<and> sb_inv b' \<and>
        sb_content b' = sb_content b @ concat ds @ l \<and> sb_base b' = sb_base b \<and> sb_closed b' \<and> sb_closeErr b' = Some ErrEOF
    | PushWaits m d b' \<Rightarrow> \<not> sb_closed b' \<and> sb_maxRetain b' \<le> sb_write b' - sb_base b' \<and>
        (\<exists>rest. concat ds @ l = rest @ d @ drop (length (rest @ d)) (concat ds @ l) \<and>
           sb_content b' = sb_content b @ rest \<and> m = n + int (length rest))"
  using assms
proof (induction ds arbitrary: n b)
  case Nil
  show ?case
  proof (cases "l = []")
    case True
    with Nil show ?thesis by (simp add: sb_Close_inv) (simp add: sb_Close_def)
  next
    case False
    show ?thesis
    proof (cases "sb_Append l b")
      case (Appended b1)
      from sb_Append_ok [OF Nil(1) this] False Appended show ?thesis
        by (simp add: sb_Close_inv) (simp add: sb_Close_def)
    qed (use Nil False in \<open>auto simp: sb_Append_def split: if_splits\<close>)
  qed
next
  case (Cons d ds)
  show ?case
  proof (cases "d = []")
    case True
    with Cons.IH [OF Cons.prems, of n] show ?thesis by (simp cong: push_out.case_cong)
  next
    case False
    show ?thesis
    proof (cases "sb_Append d b")
      case (Appended b1)
      note b1 = sb_Append_ok [OF Cons.prems(1) this]
      then have o1: "\<not> sb_closed b1" by simp
      from Cons.IH [OF conjunct1 [OF b1] o1, of "n + int (length d)"] b1 False Appended show ?thesis
        by (fastforce split: push_out.splits)
    qed (use Cons.prems False in \<open>auto simp: sb_Append_def split: if_splits\<close>)
  qed
qed

text \<open>What an origin pushes is what the stream holds. On an open buffer, a body that arrives in any
  blocks up to its end of file is either appended whole, with the byte count as result and the
  stream closed cleanly, or the loop waits because the buffer is full, with everything before
  the block it holds appended, in order.\<close>

theorem origin_push_appends:
  assumes "sb_inv b" and "\<not> sb_closed b"
  shows "case push_loop (map (\<lambda>d. (d, None)) ds @ [(l, Some ErrEOF)]) 0 b of
      PushReturns m err b' \<Rightarrow> err = None \<and> m = int (length (concat ds @ l)) \<and>
        sb_content b' = sb_content b @ concat ds @ l \<and> sb_closeErr b' = Some ErrEOF
    | PushWaits m d b' \<Rightarrow> sb_maxRetain b' \<le> sb_write b' - sb_base b' \<and>
        (\<exists>rest. concat ds @ l = rest @ d @ drop (length (rest @ d)) (concat ds @ l) \<and>
           sb_content b' = sb_content b @ rest \<and> m = int (length rest))"
  using push_loop_data [OF assms, where ds = ds and l = l and n = 0] by (simp split: push_out.splits)

theorem origin_push_appends_witness:
  "\<exists>b'. push_loop [([1, 2, 3], None), ([], Some ErrEOF)] 0 (NewStreamBuffer bufferMaxRetain) = PushReturns 3 None b' \<and>
     sb_content b' = [1, 2, 3]"
proof -
  have "\<not> sb_closed (NewStreamBuffer bufferMaxRetain)" by (simp add: NewStreamBuffer_def)
  from origin_push_appends [OF sb_inv_new this, of "[[1, 2, 3]]" "[]"] show ?thesis
    by (simp add: append_three) (simp add: sb_content_def NewStreamBuffer_def)
qed

end
