(* ===== verification/HttpProxy.thy ===== *)
theory HttpProxy
  imports Broker
begin

text \<open>
  The HTTP reverse proxy of v1: \<^verbatim>\<open>httpproxy.go\<close> (request ids, pending requests, the three
  deliveries, the conversions between HTTP and the protocol's messages), the read loop of the
  session on the whole broker (\<^verbatim>\<open>session.go\<close>), and the handlers and the API key check of
  \<^verbatim>\<open>httpapi.go\<close>.
\<close>

section \<open>Pending requests\<close>

definition allocRequestID :: "u32 \<Rightarrow> u32" where
  "allocRequestID next = alloc_id next"

text \<open>
  \<open>SendRequest\<close> up to its \<open>select\<close>: the error it returns (with the deferred removal done), or the
  id under which it waits.
\<close>

definition SendRequest_send ::
  "codec1 \<Rightarrow> string \<Rightarrow> http_request_msg \<Rightarrow> push_broker \<Rightarrow> (go_error + u32) \<times> push_broker" where
  "SendRequest_send J nodeID req b =
     (case nr_Get nodeID b of
        None \<Rightarrow> (Inl (Errorf ''node %q not connected'' [ArgStr nodeID]), b)
      | Some sess \<Rightarrow>
          (let reqID = allocRequestID (pb_nextRequestID b);
               b1 = b\<lparr>pb_nextRequestID := reqID,
                      pb_pending := AList.update reqID \<lparr>pr_id = reqID, pr_nodeID = nodeID, pr_respCh = None\<rparr> (pb_pending b)\<rparr>;
               (r, sess1) = h_send \<lparr>f1_StreamID = reqID, f1_Type = TypeHTTPRequest,
                              f1_Payload = enc_http_request J req\<rparr> (pb_sessions b1 ! sess);
               b2 = pb_on (\<lambda>s. sess1) sess b1
           in case r of
                Some e \<Rightarrow> (Inl (Wrapf ''write HTTP request frame: %w'' [] e),
                           b2\<lparr>pb_pending := AList.delete reqID (pb_pending b2)\<rparr>)
              | None \<Rightarrow> (Inr reqID, b2)))"

text \<open>
  The \<open>select\<close>: the results it may return, none while it waits; \<open>timedOut\<close> says whether the context is
  done. When both cases are ready, Go picks either. The pending entry is removed in any case.
\<close>

definition SendRequest_wait :: "bool \<Rightarrow> u32 \<Rightarrow> push_broker \<Rightarrow> ((go_error + http_result) \<times> push_broker) list" where
  "SendRequest_wait timedOut reqID b =
     (case map_of (pb_pending b) reqID of
        None \<Rightarrow> []
      | Some pr \<Rightarrow>
          (let b1 = b\<lparr>pb_pending := AList.delete reqID (pb_pending b)\<rparr>
           in (case pr_respCh pr of
                 None \<Rightarrow> []
               | Some res \<Rightarrow> [((case hr_err res of None \<Rightarrow> Inr res | Some e \<Rightarrow> Inl e), b1)]) @
              (if timedOut
               then [(Inl (Errorf ''http proxy: timeout waiting for response from node %q (request_id=%d)''
                       [ArgStr (pr_nodeID pr), ArgInt (uint reqID)]), b1)] else [])))"

text \<open>\<open>pr.respCh <- result\<close>: the send blocks the read loop when the channel is full.\<close>

datatype deliver_res = DeliverBlocks | Delivered push_broker

definition deliver :: "u32 \<Rightarrow> http_result \<Rightarrow> push_broker \<Rightarrow> deliver_res" where
  "deliver reqID res b =
     (case map_of (pb_pending b) reqID of
        None \<Rightarrow> Delivered b
      | Some pr \<Rightarrow>
          if pr_respCh pr \<noteq> None then DeliverBlocks
          else Delivered (b\<lparr>pb_pending := AList.update reqID (pr\<lparr>pr_respCh := Some res\<rparr>) (pb_pending b)\<rparr>))"

definition OnHTTPResponseHead :: "u32 \<Rightarrow> http_response_head_msg \<Rightarrow> push_broker \<Rightarrow> deliver_res" where
  "OnHTTPResponseHead reqID msg b =
     deliver reqID \<lparr>hr_statusCode = hh_StatusCode msg, hr_headers = hh_Headers msg, hr_body = [], hr_err = None\<rparr> b"

definition OnHTTPResponseComplete ::
  "u32 \<Rightarrow> http_response_head_msg \<Rightarrow> byte list \<Rightarrow> push_broker \<Rightarrow> deliver_res" where
  "OnHTTPResponseComplete reqID head body b =
     deliver reqID \<lparr>hr_statusCode = hh_StatusCode head, hr_headers = hh_Headers head, hr_body = body, hr_err = None\<rparr> b"

definition OnHTTPError :: "u32 \<Rightarrow> http_error_msg \<Rightarrow> push_broker \<Rightarrow> deliver_res" where
  "OnHTTPError reqID msg b =
     deliver reqID \<lparr>hr_statusCode = he_Code msg, hr_headers = Map.empty, hr_body = [],
       hr_err = Some (Errorf ''edge error: %s'' [ArgStr (he_Message msg)])\<rparr> b"

fun deliver_to :: "delivery \<Rightarrow> push_broker \<Rightarrow> deliver_res" where
  "deliver_to (DeliverComplete q head body) b = OnHTTPResponseComplete q head body b"
| "deliver_to (DeliverError q msg) b = OnHTTPError q msg b"

section \<open>The read loop of a session\<close>

text \<open>One frame of \<open>readLoop\<close> on session \<open>r\<close>.\<close>

definition handle_ack :: "codec1 \<Rightarrow> frame1 \<Rightarrow> nat \<Rightarrow> push_broker \<Rightarrow> push_broker" where
  "handle_ack J f r b =
     (case dec_ack J (f1_Payload f) of
        (Some e, _) \<Rightarrow> b
      | (None, msg) \<Rightarrow>
          onAck (h_nodeID (pb_sessions b ! r)) (am_StreamID msg) (am_Offset msg)
            (pb_on (h_on (updateAck (am_Offset msg)) (am_StreamID msg)) r b))"

definition es1_dispatch :: "codec1 \<Rightarrow> frame1 \<Rightarrow> nat \<Rightarrow> push_broker \<Rightarrow> deliver_res" where
  "es1_dispatch J f r b =
     (let s = pb_sessions b ! r
      in if f1_Type f = TypeAck1 then Delivered (handle_ack J f r b)
         else if f1_Type f = TypePong1 then Delivered (onPong (h_nodeID s) b)
         else if f1_Type f = TypePing1
         then Delivered (pb_on (\<lambda>s. snd (h_send \<lparr>f1_StreamID = 0, f1_Type = TypePong1, f1_Payload = []\<rparr> s)) r b)
         else case http_dispatch J f (h_httpRespBuf s) of (d, t) \<Rightarrow>
           let b1 = pb_on (\<lambda>s. s\<lparr>h_httpRespBuf := t\<rparr>) r b
           in case d of None \<Rightarrow> Delivered b1 | Some dv \<Rightarrow> deliver_to dv b1)"

fun es1_run :: "codec1 \<Rightarrow> frame1 list \<Rightarrow> nat \<Rightarrow> push_broker \<Rightarrow> deliver_res" where
  "es1_run J [] r b = Delivered b"
| "es1_run J (f # fs) r b =
     (case es1_dispatch J f r b of
        DeliverBlocks \<Rightarrow> DeliverBlocks
      | Delivered b1 \<Rightarrow> es1_run J fs r b1)"

text \<open>One turn of \<open>pingLoop\<close>: \<open>now\<close> and \<open>lastPong\<close> in seconds; it returns the new \<open>lastPong\<close>, or \<open>None\<close> at its end.\<close>

datatype ping_event1 = PingDone1 | PingPong1 int | PingTick1 int

definition es1_pingLoop_step :: "ping_event1 \<Rightarrow> int \<Rightarrow> edge_session1 \<Rightarrow> int option \<times> edge_session1" where
  "es1_pingLoop_step ev lastPong s =
     (case ev of
        PingDone1 \<Rightarrow> (None, s)
      | PingPong1 t \<Rightarrow> (Some t, s)
      | PingTick1 now \<Rightarrow>
          if now - lastPong > 20 + 15 then (None, closeWithReason1 ''ping timeout'' s)
          else (Some lastPong, snd (h_send \<lparr>f1_StreamID = 0, f1_Type = TypePing1, f1_Payload = []\<rparr> s)))"

section \<open>HTTP conversions\<close>

text \<open>
  What the handlers read of an \<open>http.Request\<close>. \<open>rq1_Header\<close> is the header map, \<open>rq1_Body\<close> the bytes of
  the body with the error of the reader after them (\<open>None\<close> for \<open>io.EOF\<close>), or \<open>None\<close> for a nil body;
  \<open>rq1_URLString\<close> is \<open>r.URL.String()\<close>. A header that was received has at least one value.
\<close>

record http_request1 =
  rq1_Method :: string
  rq1_URLString :: string
  rq1_URLHost :: string
  rq1_URLPath :: string
  rq1_RawQuery :: string
  rq1_Header :: "(string \<times> string list) list"
  rq1_Body :: "(byte list \<times> go_error option) option"

text \<open>\<open>io.ReadAll(io.LimitReader(body, n))\<close>: the limit is reached before an error that comes later.\<close>

definition read_limited :: "nat \<Rightarrow> byte list \<times> go_error option \<Rightarrow> go_error option \<times> byte list" where
  "read_limited n body =
     (if n \<le> length (fst body) then (None, take n (fst body)) else (snd body, fst body))"

definition BuildHTTPRequestMsg :: "http_request1 \<Rightarrow> go_error + http_request_msg" where
  "BuildHTTPRequestMsg r =
     (case (case rq1_Body r of None \<Rightarrow> (None, []) | Some body \<Rightarrow> read_limited MaxPayloadSize body) of
        (Some e, _) \<Rightarrow> Inl (Wrapf ''read request body: %w'' [] e)
      | (None, body) \<Rightarrow>
          Inr \<lparr>hq_Method = rq1_Method r,
               hq_URL = (if rq1_URLHost r = ''''
                         then rq1_URLPath r @ (if rq1_RawQuery r \<noteq> '''' then ''?'' @ rq1_RawQuery r else '''')
                         else rq1_URLString r),
               hq_Headers = map_of (map (\<lambda>(k, vs). (k, vs ! 0)) (rq1_Header r)),
               hq_Body = body\<rparr>)"

text \<open>
  The response writer as what the handler has put into it; \<open>net/http\<close> sends the status once, before the
  body.
\<close>

record http_writer =
  w_Status :: "int option"
  w_Header :: "string \<rightharpoonup> string"
  w_Body :: "byte list"

definition empty_writer :: http_writer where
  "empty_writer = \<lparr>w_Status = None, w_Header = Map.empty, w_Body = []\<rparr>"

definition WriteProxyHTTPResponse :: "http_result \<Rightarrow> http_writer \<Rightarrow> http_writer" where
  "WriteProxyHTTPResponse res w =
     w\<lparr>w_Header := w_Header w ++ hr_headers res, w_Status := Some (hr_statusCode res),
       w_Body := w_Body w @ (if length (hr_body res) > 0 then hr_body res else [])\<rparr>"

definition http_Error :: "string \<Rightarrow> int \<Rightarrow> http_writer \<Rightarrow> http_writer" where
  "http_Error msg code w =
     w\<lparr>w_Header := (w_Header w)(''Content-Type'' \<mapsto> ''text/plain; charset=utf-8'', ''X-Content-Type-Options'' \<mapsto> ''nosniff''),
       w_Status := Some code, w_Body := w_Body w @ to_bytes (msg @ [char_of (10::nat)])\<rparr>"

section \<open>The HTTP API\<close>

text \<open>\<open>r.Header.Get\<close> of a canonical key: the first value, or the empty string.\<close>

definition header_get :: "string \<Rightarrow> (string \<times> string list) list \<Rightarrow> string" where
  "header_get k h = (case map_of h k of None \<Rightarrow> '''' | Some [] \<Rightarrow> '''' | Some (v # vs) \<Rightarrow> v)"

text \<open>\<open>strings.EqualFold\<close> is a parameter: \<open>fold_eq\<close>.\<close>

definition checkAuth :: "(string \<Rightarrow> string \<Rightarrow> bool) \<Rightarrow> string \<Rightarrow> http_request1 \<Rightarrow> bool" where
  "checkAuth fold_eq pushAPIKey r =
     (if pushAPIKey = '''' then True
      else fold_eq (header_get ''Authorization'' (rq1_Header r)) (''Bearer '' @ pushAPIKey))"

text \<open>The handler of \<open>/proxy/\<close> up to \<open>SendRequest\<close>: the error response, or node and message. \<open>txt\<close> is the text of an error.\<close>

definition proxy_request ::
  "(go_error \<Rightarrow> string) \<Rightarrow> (string \<Rightarrow> string \<Rightarrow> bool) \<Rightarrow> string \<Rightarrow> http_request1 \<Rightarrow> (string \<times> int) + (string \<times> http_request_msg)" where
  "proxy_request txt fold_eq key r =
     (if rq1_Method r \<noteq> ''POST'' then Inl (''method not allowed'', 405)
      else if \<not> checkAuth fold_eq key r then Inl (''unauthorized'', 401)
      else let nodeID = drop (length ''/proxy/'') (rq1_URLPath r)
           in if nodeID = '''' then Inl (''node_id required in path'', 400)
              else let targetURL = header_get ''X-Target-Url'' (rq1_Header r)
                   in if targetURL = '''' then Inl (''X-Target-URL header required'', 400)
                      else let m0 = header_get ''X-Target-Method'' (rq1_Header r);
                               targetMethod = (if m0 = '''' then rq1_Method r else m0)
                           in case BuildHTTPRequestMsg r of
                                Inl e \<Rightarrow> Inl (''build request: '' @ txt e, 400)
                              | Inr msg \<Rightarrow> Inr (nodeID, msg\<lparr>hq_URL := targetURL, hq_Method := targetMethod\<rparr>))"

definition proxy_respond :: "(go_error \<Rightarrow> string) \<Rightarrow> go_error + http_result \<Rightarrow> http_writer \<Rightarrow> http_writer" where
  "proxy_respond txt r w =
     (case r of
        Inl e \<Rightarrow> http_Error (''proxy error: '' @ txt e) 502 w
      | Inr res \<Rightarrow> WriteProxyHTTPResponse res w)"

text \<open>The handler of \<open>/push/\<close> up to \<open>Push\<close>: the error response, or the stream name.\<close>

definition push_request ::
  "(string \<Rightarrow> string \<Rightarrow> bool) \<Rightarrow> string \<Rightarrow> http_request1 \<Rightarrow> (string \<times> int) + string" where
  "push_request fold_eq key r =
     (if rq1_Method r \<noteq> ''POST'' then Inl (''method not allowed'', 405)
      else if \<not> checkAuth fold_eq key r then Inl (''unauthorized'', 401)
      else let name = drop (length ''/push/'') (rq1_URLPath r)
           in if name = '''' then Inl (''stream name required'', 400) else Inr name)"

section \<open>Deliveries\<close>

fun result_of :: "delivery \<Rightarrow> http_result" where
  "result_of (DeliverComplete q head body) =
     \<lparr>hr_statusCode = hh_StatusCode head, hr_headers = hh_Headers head, hr_body = body, hr_err = None\<rparr>"
| "result_of (DeliverError q msg) =
     \<lparr>hr_statusCode = he_Code msg, hr_headers = Map.empty, hr_body = [],
       hr_err = Some (Errorf ''edge error: %s'' [ArgStr (he_Message msg)])\<rparr>"

lemma deliver_to_deliver: "deliver_to d b = deliver (delivery_id d) (result_of d) b"
  by (cases d) (simp_all add: OnHTTPResponseComplete_def OnHTTPError_def)

lemma deliver_pending:
  assumes "deliver p res b = Delivered b1"
  shows "map_of (pb_pending b1) q =
      (if p = q then map_option (\<lambda>pr. pr\<lparr>pr_respCh := Some res\<rparr>) (map_of (pb_pending b) q) else map_of (pb_pending b) q)"
    and "pb_sessions b1 = pb_sessions b"
  using assms by (auto simp: deliver_def update_conv' split: option.splits if_splits)

lemma resp_buf_keeps [simp]:
  "h_httpRespBuf (closeWithReason1 m s) = h_httpRespBuf s" "h_httpRespBuf (h_on h sid s) = h_httpRespBuf s"
  "h_httpRespBuf (snd (h_send f s)) = h_httpRespBuf s"
  by (simp_all add: closeWithReason1_def h_on_def h_send_def split: option.split prod.split)

text \<open>The state that the HTTP proxy sees: pending requests and the accumulators of the session.\<close>

definition http_view :: "nat \<Rightarrow> push_broker \<Rightarrow> nat \<times> (u32 \<times> pending_request) list \<times> acc_table" where
  "http_view r b = (length (pb_sessions b), pb_pending b, h_httpRespBuf (pb_sessions b ! r))"

lemma http_view_pb_on:
  "(\<And>s. h_httpRespBuf (h s) = h_httpRespBuf s) \<Longrightarrow> http_view r (pb_on h i b) = http_view r b"
  by (cases "i < length (pb_sessions b)")
    (simp add: http_view_def pb_on_nth, simp add: http_view_def pb_on_def list_update_beyond)

lemma http_view_onAck: "http_view r (onAck n sid x b) = http_view r b"
  by (auto simp: onAck_def Let_def http_view_pb_on split: sum.split option.split) (auto simp: http_view_def)

lemma http_view_ack: "http_view r (handle_ack J f i b) = http_view r b"
  by (auto simp: handle_ack_def http_view_onAck http_view_pb_on split: prod.split option.split)

lemma http_view_pong: "http_view r (onPong n b) = http_view r b"
  by (simp add: onPong_def http_view_def split: option.split)

lemma http_dispatch_none:
  "f1_Type f \<in> {TypeAck1, TypePong1, TypePing1} \<Longrightarrow> http_dispatch J f t = (None, t)"
  by (auto simp: http_dispatch_def types1)

lemma es1_dispatch_step:
  assumes d: "es1_dispatch J f r b = Delivered b1" and r: "r < length (pb_sessions b)"
    and h: "http_dispatch J f (h_httpRespBuf (pb_sessions b ! r)) = (dv, t)"
  shows "r < length (pb_sessions b1) \<and> h_httpRespBuf (pb_sessions b1 ! r) = t \<and>
    map_of (pb_pending b1) q =
      (case dv of
         None \<Rightarrow> map_of (pb_pending b) q
       | Some x \<Rightarrow> if delivery_id x = q
                 then map_option (\<lambda>pr. pr\<lparr>pr_respCh := Some (result_of x)\<rparr>) (map_of (pb_pending b) q)
                 else map_of (pb_pending b) q)"
proof (cases "f1_Type f \<in> {TypeAck1, TypePong1, TypePing1}")
  case True
  have "http_view r b1 = http_view r b"
    using d True
    by (auto simp: es1_dispatch_def Let_def http_view_ack http_view_pong http_view_pb_on split: if_splits)
  with http_dispatch_none [OF True] h r show ?thesis by (simp add: http_view_def)
next
  case False
  let ?b = "pb_on (\<lambda>s. s\<lparr>h_httpRespBuf := t\<rparr>) r b"
  have e: "(case dv of None \<Rightarrow> Delivered ?b | Some x \<Rightarrow> deliver (delivery_id x) (result_of x) ?b) = Delivered b1"
    using d False h by (cases dv) (simp_all add: es1_dispatch_def Let_def deliver_to_deliver)
  have s: "h_httpRespBuf (pb_sessions ?b ! r) = t" using r by (simp add: pb_on_nth)
  show ?thesis
  proof (cases dv)
    case None
    with e s r show ?thesis by auto
  next
    case (Some x)
    with e have "deliver (delivery_id x) (result_of x) ?b = Delivered b1" by simp
    from deliver_pending [OF this] s r Some show ?thesis by simp
  qed
qed

lemma es1_run_pending:
  assumes "es1_run J fs r b = Delivered b'" and "r < length (pb_sessions b)"
  shows "map_of (pb_pending b') q =
    fold (\<lambda>x. map_option (\<lambda>pr. pr\<lparr>pr_respCh := Some (result_of x)\<rparr>))
      (filter (\<lambda>d. delivery_id d = q) (http_run J fs (h_httpRespBuf (pb_sessions b ! r)))) (map_of (pb_pending b) q)"
  using assms
proof (induction fs arbitrary: b)
  case (Cons f fs)
  obtain b1 where b1: "es1_dispatch J f r b = Delivered b1" "es1_run J fs r b1 = Delivered b'"
    using Cons.prems(1) by (auto split: deliver_res.splits)
  obtain dv t where h: "http_dispatch J f (h_httpRespBuf (pb_sessions b ! r)) = (dv, t)" by fastforce
  note s = es1_dispatch_step [OF b1(1) Cons.prems(2) h, of q]
  from Cons.IH [OF b1(2)] s h show ?case by (cases dv) auto
qed simp

section \<open>Properties\<close>

text \<open>C34: A proxied request gets its response. While a request waits, let the read loop of a session
  handle any frames, of which those with the request's id are a decodable head, body chunks and
  an end. Unless the loop blocks, the waiting \<open>SendRequest\<close> then returns exactly the status and headers of the
  head and the chunks in order, and the request is no longer pending.\<close>

theorem proxy_response_delivered:
  assumes "es1_run J fs r b = Delivered b'" and "r < length (pb_sessions b)"
    and "map_of (pb_pending b) q = Some pr"
    and "filter (\<lambda>f. f1_StreamID f = q) fs =
      \<lparr>f1_StreamID = q, f1_Type = TypeHTTPResponseHead, f1_Payload = hp\<rparr> # body_frames q bs
      @ [\<lparr>f1_StreamID = q, f1_Type = TypeHTTPResponseEnd, f1_Payload = ep\<rparr>]"
    and "dec_http_head J hp = (None, head)"
  shows "SendRequest_wait False q b' =
      [(Inr \<lparr>hr_statusCode = hh_StatusCode head, hr_headers = hh_Headers head, hr_body = concat bs, hr_err = None\<rparr>,
        b'\<lparr>pb_pending := AList.delete q (pb_pending b')\<rparr>)]"
proof -
  let ?t = "h_httpRespBuf (pb_sessions b ! r)"
  have "filter (\<lambda>d. delivery_id d = q) (http_run J fs ?t) = [DeliverComplete q head (concat bs)]"
    using http_run_filter [OF refl, of q J fs ?t] http_run_response [OF assms(5)] assms(4) by simp
  with es1_run_pending [OF assms(1,2), of q] assms(3)
  have "map_of (pb_pending b') q = Some (pr\<lparr>pr_respCh := Some (result_of (DeliverComplete q head (concat bs)))\<rparr>)"
    by simp
  then show ?thesis by (simp add: SendRequest_wait_def Let_def)
qed

definition waiting_broker :: push_broker where
  "waiting_broker = NewPushBroker
     \<lparr>pb_pending := [(9, \<lparr>pr_id = 9, pr_nodeID = ''n1'', pr_respCh = None\<rparr>)],
      pb_sessions := [newEdgeSession1 ''n2'' (NewMuxConn 9 \<lparr>rd_data = [], rd_err = ErrEOF\<rparr>)]\<rparr>"

definition response_frames :: "frame1 list" where
  "response_frames =
     [\<lparr>f1_StreamID = 9, f1_Type = TypeHTTPResponseHead, f1_Payload = [1, 1]\<rparr>,
      \<lparr>f1_StreamID = 7, f1_Type = TypeHTTPError, f1_Payload = [65]\<rparr>,
      \<lparr>f1_StreamID = 9, f1_Type = TypeHTTPResponseBody, f1_Payload = [4]\<rparr>,
      \<lparr>f1_StreamID = 9, f1_Type = TypeHTTPResponseEnd, f1_Payload = []\<rparr>]"

lemma response_frames_run: "\<exists>b'. es1_run example_codec1 response_frames 0 waiting_broker = Delivered b'"
  by (simp add: response_frames_def waiting_broker_def es1_dispatch_def http_dispatch_def types1 Let_def
      handleHTTPResponseHead_def handleHTTPResponseBody_def handleHTTPResponseEnd_def handleHTTPError_def
      example_codec1_def pb_on_def NewPushBroker_def newEdgeSession1_def OnHTTPResponseComplete_def OnHTTPError_def deliver_def)

theorem proxy_response_delivered_witness:
  "\<exists>b'. es1_run example_codec1 response_frames 0 waiting_broker = Delivered b' \<and>
     map fst (SendRequest_wait False 9 b') =
       [Inr \<lparr>hr_statusCode = 2, hr_headers = Map.empty, hr_body = [4], hr_err = None\<rparr>]"
proof -
  obtain b' where b': "es1_run example_codec1 response_frames 0 waiting_broker = Delivered b'"
    using response_frames_run by blast
  have "0 < length (pb_sessions waiting_broker)" by (simp add: waiting_broker_def)
  moreover have "map_of (pb_pending waiting_broker) 9 = Some \<lparr>pr_id = 9, pr_nodeID = ''n1'', pr_respCh = None\<rparr>"
    by (simp add: waiting_broker_def)
  moreover have "filter (\<lambda>f. f1_StreamID f = 9) response_frames =
      \<lparr>f1_StreamID = 9, f1_Type = TypeHTTPResponseHead, f1_Payload = [1, 1]\<rparr> # body_frames 9 [[4]]
      @ [\<lparr>f1_StreamID = 9, f1_Type = TypeHTTPResponseEnd, f1_Payload = []\<rparr>]"
    by (simp add: response_frames_def body_frames_def)
  moreover have "dec_http_head example_codec1 [1, 1] = (None, \<lparr>hh_StatusCode = 2, hh_Headers = Map.empty\<rparr>)"
    by (simp add: example_codec1_def)
  ultimately have "SendRequest_wait False 9 b' = [(Inr \<lparr>hr_statusCode = 2, hr_headers = Map.empty, hr_body = [4], hr_err = None\<rparr>,
      b'\<lparr>pb_pending := AList.delete 9 (pb_pending b')\<rparr>)]"
    using proxy_response_delivered [OF b'] by simp
  then have "map fst (SendRequest_wait False 9 b') =
      [Inr \<lparr>hr_statusCode = 2, hr_headers = Map.empty, hr_body = [4], hr_err = None\<rparr>]"
    by simp
  with b' show ?thesis by (intro exI [of _ b'] conjI)
qed

text \<open>A response is not tied to the node the request was sent to. The request is recorded with its
  node, but a delivery looks at the id only: a complete response that any session reassembles
  for the id is what the waiting request returns, whichever node that session belongs to.\<close>

theorem response_from_any_node:
  assumes "map_of (pb_pending b) q = Some pr" and "pr_respCh pr = None"
    and "r < length (pb_sessions b)" and "h_nodeID (pb_sessions b ! r) \<noteq> pr_nodeID pr"
    and "map_of (h_httpRespBuf (pb_sessions b ! r)) q = Some \<lparr>ha_head = Some head, ha_body = body\<rparr>"
    and "f = \<lparr>f1_StreamID = q, f1_Type = TypeHTTPResponseEnd, f1_Payload = ep\<rparr>"
  shows "\<exists>b'. es1_dispatch J f r b = Delivered b' \<and>
    map fst (SendRequest_wait False q b') =
      [Inr \<lparr>hr_statusCode = hh_StatusCode head, hr_headers = hh_Headers head, hr_body = body, hr_err = None\<rparr>]"
  using assms
  by (simp add: es1_dispatch_def http_dispatch_def types1 handleHTTPResponseEnd_def OnHTTPResponseComplete_def
      deliver_def SendRequest_wait_def update_conv' Let_def)

theorem response_from_any_node_witness:
  "\<exists>b'. es1_dispatch example_codec1 \<lparr>f1_StreamID = 9, f1_Type = TypeHTTPResponseEnd, f1_Payload = []\<rparr> 0
     (pb_on (\<lambda>s. s\<lparr>h_httpRespBuf := [(9, \<lparr>ha_head = Some \<lparr>hh_StatusCode = 200, hh_Headers = Map.empty\<rparr>, ha_body = [6]\<rparr>)]\<rparr>)
        0 waiting_broker) = Delivered b' \<and>
    map fst (SendRequest_wait False 9 b') =
      [Inr \<lparr>hr_statusCode = 200, hr_headers = Map.empty, hr_body = [6], hr_err = None\<rparr>]"
  using response_from_any_node [of "pb_on (\<lambda>s. s\<lparr>h_httpRespBuf := [(9, \<lparr>ha_head = Some \<lparr>hh_StatusCode = 200,
      hh_Headers = Map.empty\<rparr>, ha_body = [6]\<rparr>)]\<rparr>) 0 waiting_broker" 9 "\<lparr>pr_id = 9, pr_nodeID = ''n1'', pr_respCh = None\<rparr>" 0
      "\<lparr>hh_StatusCode = 200, hh_Headers = Map.empty\<rparr>" "[6]" _ "[]" example_codec1]
  by (simp add: waiting_broker_def pb_on_def newEdgeSession1_def)

text \<open>Ids of push streams and of proxied requests never collide: the first $2^{31}-2$ stream ids and the
  first $2^{31}-1$ request ids are different from each other and from the control stream, although
  both kinds share the frame header's id field.\<close>

fun alloc_nth :: "nat \<Rightarrow> u32 \<Rightarrow> u32" where
  "alloc_nth 0 next = alloc_id next"
| "alloc_nth (Suc k) next = alloc_nth k (alloc_id next)"

lemma alloc_nth_of_nat: "m + k + 1 < 2 ^ 32 \<Longrightarrow> alloc_nth k (of_nat m) = of_nat (m + k + 1)"
proof (induction k arbitrary: m)
  case 0
  then show ?case using alloc_id_of_nat [of m] by simp
next
  case (Suc k)
  then have "alloc_id (of_nat m) = of_nat (m + 1)" using alloc_id_of_nat [of m] by simp
  with Suc.IH [of "m + 1"] Suc.prems show ?case by (simp add: add.commute add.left_commute)
qed

lemma small_of_nat_eq: "a < 2 ^ 32 \<Longrightarrow> b < 2 ^ 32 \<Longrightarrow> (of_nat a :: u32) = of_nat b \<longleftrightarrow> a = b"
  by (simp add: word_of_nat_eq_iff take_bit_nat_eq_self)

theorem id_spaces_disjoint:
  assumes "j < 2 ^ 31 - 2" and "k < 2 ^ 31 - 1"
  shows "alloc_nth j initStreamID \<noteq> alloc_nth k initRequestID \<and>
    alloc_nth j initStreamID \<noteq> ControlStreamID \<and> alloc_nth k initRequestID \<noteq> ControlStreamID \<and>
    (i < j \<longrightarrow> alloc_nth i initStreamID \<noteq> alloc_nth j initStreamID) \<and>
    (i < k \<longrightarrow> alloc_nth i initRequestID \<noteq> alloc_nth k initRequestID)"
proof -
  have s: "alloc_nth m initStreamID = of_nat (m + 2)" if "m \<le> j" for m
    using alloc_nth_of_nat [of 1 m] that assms(1) by (simp add: initStreamID_def)
  have q: "alloc_nth m initRequestID = of_nat (2147483648 + m + 1)" if "m \<le> k" for m
    using alloc_nth_of_nat [of 2147483648 m] that assms(2) by (simp add: initRequestID_def)
  have c: "ControlStreamID = of_nat 0" by (simp add: ControlStreamID_def)
  have "i < j \<Longrightarrow> alloc_nth i initStreamID \<noteq> alloc_nth j initStreamID"
    using assms(1) by (simp only: s less_imp_le order_refl) (subst small_of_nat_eq; simp)
  moreover have "i < k \<Longrightarrow> alloc_nth i initRequestID \<noteq> alloc_nth k initRequestID"
    using assms(2) by (simp only: q less_imp_le order_refl) (subst small_of_nat_eq; simp)
  moreover have "alloc_nth j initStreamID \<noteq> alloc_nth k initRequestID"
    using assms by (simp only: s q order_refl) (subst small_of_nat_eq; simp)
  moreover have "alloc_nth j initStreamID \<noteq> ControlStreamID"
    using assms by (simp only: s c order_refl) (subst small_of_nat_eq; simp)
  moreover have "alloc_nth k initRequestID \<noteq> ControlStreamID"
    using assms by (simp only: q c order_refl) (subst small_of_nat_eq; simp)
  ultimately show ?thesis by blast
qed

theorem id_spaces_disjoint_witness:
  "alloc_nth 3 initStreamID \<noteq> alloc_nth 5 initRequestID"
  using id_spaces_disjoint [of 3 5 0] by simp

lemma ascii_lower_idem: "map ascii_lower (map ascii_lower s) = map ascii_lower s"
proof -
  have "ascii_lower (ascii_lower c) = ascii_lower c" for c
  proof -
    have "(of_char c + 32 :: nat) < 256" if "of_char c \<le> (90::nat)" using that by simp
    then show ?thesis by (simp add: ascii_lower_def Let_def)
  qed
  then show ?thesis by simp
qed

text \<open>A proxied request passes its checks in order or not at all. The handler of \<open>/proxy/\<close> hands a
  request to \<open>SendRequest\<close> exactly when the method is \<open>POST\<close>, the API key (if one is configured) matches, the
  path names a node, a target URL is given and the body can be read; the node, the target and
  the method are then the ones asked for. But the key is compared without regard to letter case,
  so every case variant of the key is accepted.\<close>

theorem proxy_request_checked:
  "(proxy_request txt fold_eq key r = Inr (node, msg) \<longleftrightarrow>
      rq1_Method r = ''POST'' \<and> checkAuth fold_eq key r \<and> node = drop (length ''/proxy/'') (rq1_URLPath r) \<and> node \<noteq> '''' \<and>
      header_get ''X-Target-Url'' (rq1_Header r) \<noteq> '''' \<and>
      (\<exists>m. BuildHTTPRequestMsg r = Inr m \<and>
         msg = m\<lparr>hq_URL := header_get ''X-Target-Url'' (rq1_Header r),
                 hq_Method := (let t = header_get ''X-Target-Method'' (rq1_Header r) in if t = '''' then ''POST'' else t)\<rparr>)) \<and>
   (map ascii_lower (header_get ''Authorization'' (rq1_Header r)) = map ascii_lower (''Bearer '' @ key) \<longrightarrow>
      checkAuth equal_fold key r)"
proof -
  have "checkAuth equal_fold key r"
    if "map ascii_lower (header_get ''Authorization'' (rq1_Header r)) = map ascii_lower (''Bearer '' @ key)"
    using that by (simp add: checkAuth_def equal_fold_def del: map_append)
  moreover have "proxy_request txt fold_eq key r = Inr (node, msg) \<longleftrightarrow>
      rq1_Method r = ''POST'' \<and> checkAuth fold_eq key r \<and> node = drop (length ''/proxy/'') (rq1_URLPath r) \<and> node \<noteq> '''' \<and>
      header_get ''X-Target-Url'' (rq1_Header r) \<noteq> '''' \<and>
      (\<exists>m. BuildHTTPRequestMsg r = Inr m \<and>
         msg = m\<lparr>hq_URL := header_get ''X-Target-Url'' (rq1_Header r),
                 hq_Method := (let t = header_get ''X-Target-Method'' (rq1_Header r) in if t = '''' then ''POST'' else t)\<rparr>)"
    by (auto simp: proxy_request_def Let_def simp del: list.size split: sum.splits)
  ultimately show ?thesis by blast
qed

theorem proxy_request_checked_witness:
  "checkAuth equal_fold ''Secret'' \<lparr>rq1_Method = ''POST'', rq1_URLString = '''', rq1_URLHost = '''', rq1_URLPath = ''/proxy/n1'',
     rq1_RawQuery = '''', rq1_Header = [(''Authorization'', [''bearer sECRET''])], rq1_Body = None\<rparr>"
proof -
  have "map ascii_lower ''bearer sECRET'' = map ascii_lower (''Bearer '' @ ''Secret'')" by code_simp
  then show ?thesis
    by (intro proxy_request_checked [THEN conjunct2, rule_format]) (simp add: header_get_def del: list.map map_append)
qed

end
