(* ===== verification/HttpApi.thy ===== *)
theory HttpApi
  imports HttpProxy
begin

text \<open>
  \<^verbatim>\<open>mux_http/server/httpapi.go\<close>: the API of the v1 server as one operation on the broker, from the path of
  a request to its reply, with the pushes and proxied requests it starts; and the edge listener.
  Routing is what \<open>http.ServeMux\<close> does with the five patterns for a clean path. The checks of the two
  handlers that change something are in \<open>HttpProxy\<close>.
\<close>

section \<open>The server\<close>

text \<open>
  The edge listener: given whether listening fails and what \<open>Accept\<close> returns, the connections that are
  handed to \<open>HandleEdgeConn\<close> and what the listener returns, \<open>None\<close> while it waits.
\<close>

fun accept_edges :: "(go_error + 'c) list \<Rightarrow> 'c list \<times> go_error option" where
  "accept_edges [] = ([], None)"
| "accept_edges (Inl e # as) = ([], Some (Wrapf ''edge accept: %w'' [] e))"
| "accept_edges (Inr c # as) = (case accept_edges as of (cs, r) \<Rightarrow> (c # cs, r))"

definition runEdgeListener :: "string \<Rightarrow> go_error option \<Rightarrow> (go_error + 'c) list \<Rightarrow> 'c list \<times> go_error option" where
  "runEdgeListener edgeAddr listen as =
     (case listen of
        Some e \<Rightarrow> ([], Some (Wrapf ''edge listener %s: %w'' [ArgStr edgeAddr] e))
      | None \<Rightarrow> accept_edges as)"

section \<open>Pushing\<close>

text \<open>\<open>Push\<close> on the whole broker: the script of reads is as for \<open>push_loop\<close>.\<close>

fun out_buffer :: "push_out \<Rightarrow> stream_buffer" where
  "out_buffer (PushReturns n err buf) = buf"
| "out_buffer (PushWaits n d buf) = buf"

definition Push :: "string \<Rightarrow> (byte list \<times> go_error option) list \<Rightarrow> push_broker \<Rightarrow> push_out \<times> push_broker" where
  "Push name sc b =
     (let (e, streams) = sr_GetOrCreate name (pb_streams b);
          res = push_loop sc 0 (sr_buffer streams e)
      in (res, b\<lparr>pb_streams := sr_on (\<lambda>_. out_buffer res) e streams\<rparr>))"

section \<open>The routes\<close>

text \<open>
  \<open>ApiEmpty\<close> is a handler that returns without writing anything, to which \<open>net/http\<close> answers with
  status 200 and no body. Two replies are still to come: \<open>ApiPushing\<close> waits for room in the stream's buffer,
  \<open>ApiProxying\<close> for the response to its request id (\<open>proxy_respond\<close> then writes it).
\<close>

datatype api_reply =
    ApiError string int
  | ApiPushed string int
  | ApiEmpty
  | ApiPushing int "byte list"
  | ApiProxying u32
  | ApiProxyFailed go_error
  | ApiStreams "(string \<times> int) list"
  | ApiNodes "(string \<times> string list) list"
  | ApiHealth
  | ApiRedirect string

definition push_handler ::
  "(string \<Rightarrow> string \<Rightarrow> bool) \<Rightarrow> string \<Rightarrow> (byte list \<times> go_error option) list \<Rightarrow> http_request1 \<Rightarrow> push_broker
     \<Rightarrow> api_reply \<times> push_broker" where
  "push_handler fold_eq key sc r b =
     (case push_request fold_eq key r of
        Inl (msg, code) \<Rightarrow> (ApiError msg code, b)
      | Inr name \<Rightarrow>
          (case Push name sc b of
             (PushReturns n None buf, b') \<Rightarrow> (ApiPushed name n, b')
           | (PushReturns n (Some e) buf, b') \<Rightarrow> (ApiEmpty, b')
           | (PushWaits n d buf, b') \<Rightarrow> (ApiPushing n d, b')))"

definition proxy_handler ::
  "(go_error \<Rightarrow> string) \<Rightarrow> (string \<Rightarrow> string \<Rightarrow> bool) \<Rightarrow> string \<Rightarrow> codec1 \<Rightarrow> http_request1 \<Rightarrow> push_broker \<Rightarrow> api_reply \<times> push_broker" where
  "proxy_handler txt fold_eq key J r b =
     (case proxy_request txt fold_eq key r of
        Inl (msg, code) \<Rightarrow> (ApiError msg code, b)
      | Inr (nodeID, msg) \<Rightarrow>
          (case SendRequest_send J nodeID msg b of
             (Inl e, b') \<Rightarrow> (ApiProxyFailed e, b')
           | (Inr reqID, b') \<Rightarrow> (ApiProxying reqID, b')))"

definition under :: "string \<Rightarrow> string \<Rightarrow> bool" where
  "under pat urlpath \<longleftrightarrow> take (length pat) urlpath = pat"

definition api_serve ::
  "(go_error \<Rightarrow> string) \<Rightarrow> (string \<Rightarrow> string \<Rightarrow> bool) \<Rightarrow> string \<Rightarrow> codec1 \<Rightarrow> (byte list \<times> go_error option) list \<Rightarrow> http_request1 \<Rightarrow> push_broker
     \<Rightarrow> api_reply \<times> push_broker" where
  "api_serve txt fold_eq key J sc r b =
     (if under ''/push/'' (rq1_URLPath r) then push_handler fold_eq key sc r b
      else if under ''/proxy/'' (rq1_URLPath r) then proxy_handler txt fold_eq key J r b
      else if rq1_URLPath r = ''/streams'' then (ApiStreams (StreamInfo b), b)
      else if rq1_URLPath r = ''/nodes'' then (ApiNodes (NodeInfo b), b)
      else if rq1_URLPath r = ''/health'' then (ApiHealth, b)
      else if rq1_URLPath r = ''/push'' then (ApiRedirect ''/push/'', b)
      else if rq1_URLPath r = ''/proxy'' then (ApiRedirect ''/proxy/'', b)
      else (ApiError ''404 page not found'' 404, b))"

section \<open>Responses\<close>

text \<open>\<open>BuildHTTPResponse\<close>, with \<open>http.StatusText\<close> as an argument; the body is the reader's content.\<close>

record http_response1 =
  rs1_StatusCode :: int
  rs1_Status :: string
  rs1_Header :: "string \<rightharpoonup> string"
  rs1_Body :: "byte list"

definition BuildHTTPResponse :: "(int \<Rightarrow> string) \<Rightarrow> http_result \<Rightarrow> http_response1" where
  "BuildHTTPResponse status_text res =
     \<lparr>rs1_StatusCode = hr_statusCode res,
      rs1_Status = show_int (hr_statusCode res) @ '' '' @ status_text (hr_statusCode res),
      rs1_Header = Map.empty ++ hr_headers res, rs1_Body = hr_body res\<rparr>"

text \<open>Both ways of handing out a result say the same.\<close>

lemma BuildHTTPResponse_written:
  "let w = WriteProxyHTTPResponse res empty_writer; s = BuildHTTPResponse status_text res
   in w_Status w = Some (rs1_StatusCode s) \<and> w_Header w = rs1_Header s \<and> w_Body w = rs1_Body s"
  by (simp add: WriteProxyHTTPResponse_def BuildHTTPResponse_def empty_writer_def)

section \<open>Only an authorised request touches the broker\<close>

lemma push_request_cases:
  "\<not> checkAuth fold_eq key r \<Longrightarrow> push_request fold_eq key r =
     Inl (if rq1_Method r \<noteq> ''POST'' then (''method not allowed'', 405) else (''unauthorized'', 401))"
  by (simp add: push_request_def)

lemma proxy_request_cases:
  "\<not> checkAuth fold_eq key r \<Longrightarrow> proxy_request txt fold_eq key r =
     Inl (if rq1_Method r \<noteq> ''POST'' then (''method not allowed'', 405) else (''unauthorized'', 401))"
  by (simp add: proxy_request_def)


section \<open>A stream is pushed once\<close>

lemma push_loop_closes:
  "push_loop sc n buf = PushReturns m e buf' \<Longrightarrow> sb_closed buf'"
proof (induction sc arbitrary: n buf)
  case (Cons r sc)
  obtain d err where r: "r = (d, err)" by (cases r)
  show ?case
    using Cons.prems Cons.IH unfolding r
    by (auto simp: Let_def sb_Close_def split: if_splits append_res.splits)
qed (auto simp: sb_Close_def split: if_splits)

lemma push_loop_closed:
  assumes "sb_closed buf" and "d \<noteq> []"
  shows "push_loop ((d, err) # sc) n buf = PushReturns n (Some (Errorf ''stream buffer closed'' [])) buf"
  using assms by (simp add: sb_Append_def sb_Close_def)

text \<open>A push on an entry of the registry; a stream that is there keeps its entry.\<close>

lemma Push_entry:
  assumes "Push name sc b = (res, b')" and "sr_inv (pb_streams b)" and "length (sr_heap (pb_streams b)) + 2 < 2 ^ 32"
  obtains e r where "sr_GetOrCreate name (pb_streams b) = (e, r)" "e < length (sr_heap r)" "sr_inv r"
    "sr_Get name r = Some e" "res = push_loop sc 0 (sr_buffer r e)"
    "pb_streams b' = sr_on (\<lambda>_. out_buffer res) e r"
proof -
  obtain e r where g: "sr_GetOrCreate name (pb_streams b) = (e, r)" by (cases "sr_GetOrCreate name (pb_streams b)")
  have i: "sr_inv r" by (rule sr_GetOrCreate_inv [OF assms(2,3) g])
  have s: "sr_Get name r = Some e"
    using g by (auto simp: sr_GetOrCreate_def sr_Get_def Let_def update_conv' split: option.splits)
  then have "e < length (sr_heap r)" using i by (simp add: sr_inv_def sr_Get_def)
  from that [OF g this i s] assms(1) g show ?thesis by (auto simp: Push_def Let_def)
qed

definition stream_buffer_of :: "string \<Rightarrow> push_broker \<Rightarrow> stream_buffer option" where
  "stream_buffer_of name b = map_option (sr_buffer (pb_streams b)) (sr_Get name (pb_streams b))"

lemma Push_returned:
  assumes "Push name sc b = (PushReturns n e buf, b1)" and "sr_inv (pb_streams b)"
    and "length (sr_heap (pb_streams b)) + 2 < 2 ^ 32"
  shows "stream_buffer_of name b1 = Some buf \<and> sb_closed buf \<and> sr_inv (pb_streams b1)"
proof -
  obtain en r where p: "sr_GetOrCreate name (pb_streams b) = (en, r)" "en < length (sr_heap r)" "sr_inv r"
    "sr_Get name r = Some en" "PushReturns n e buf = push_loop sc 0 (sr_buffer r en)"
    "pb_streams b1 = sr_on (\<lambda>_. buf) en r"
    using Push_entry [OF assms, of thesis] by (metis out_buffer.simps(1))
  with push_loop_closes [OF p(5) [symmetric]] show ?thesis
    by (simp add: stream_buffer_of_def sr_buffer_on sr_on_inv) (simp add: sr_Get_def)
qed

lemma Push_refused:
  assumes "stream_buffer_of name b = Some buf" and "sb_closed buf" and "sr_inv (pb_streams b)" and "d \<noteq> []"
  shows "\<exists>b'. Push name ((d, err) # sc) b = (PushReturns 0 (Some (Errorf ''stream buffer closed'' [])) buf, b') \<and>
    stream_buffer_of name b' = Some buf"
proof -
  from assms(1) obtain e where e: "sr_Get name (pb_streams b) = Some e" "sr_buffer (pb_streams b) e = buf"
    by (auto simp: stream_buffer_of_def)
  then have "e < length (sr_heap (pb_streams b))" using assms(3) by (simp add: sr_inv_def sr_Get_def)
  with e sr_GetOrCreate_old [of "pb_streams b" name e, folded sr_Get_def] push_loop_closed [OF assms(2,4)] show ?thesis
    by (simp add: Push_def stream_buffer_of_def sr_buffer_on Let_def del: push_loop.simps) (simp add: sr_Get_def)
qed


text \<open>The first push of a stream stores the body as it is, if the buffer has room for it.\<close>

lemma first_push_stores:
  assumes "sr_inv (pb_streams b)" and "length (sr_heap (pb_streams b)) + 2 < 2 ^ 32"
    and "sr_Get name (pb_streams b) = None" and "push_request fold_eq key r = Inr name"
    and "push_handler fold_eq key (map (\<lambda>d. (d, None)) ds @ [(l, Some ErrEOF)]) r b = (reply, b')"
  shows "(\<exists>n d. reply = ApiPushing n d) \<or>
    reply = ApiPushed name (int (length (concat ds @ l))) \<and>
    map_option sb_content (stream_buffer_of name b') = Some (concat ds @ l)"
proof -
  let ?sc = "map (\<lambda>d. (d, None)) ds @ [(l, Some ErrEOF)]"
  obtain res b1 where p: "Push name ?sc b = (res, b1)" by fastforce
  obtain e r where g: "sr_GetOrCreate name (pb_streams b) = (e, r)" "e < length (sr_heap r)" "sr_inv r"
    "sr_Get name r = Some e" "res = push_loop ?sc 0 (sr_buffer r e)"
    "pb_streams b1 = sr_on (\<lambda>_. out_buffer res) e r"
    by (rule Push_entry [OF p assms(1,2)])
  have "sr_buffer r e = NewStreamBuffer (sr_maxRetain (pb_streams b))"
    using g(1) assms(3) by (auto simp: sr_GetOrCreate_def sr_Get_def sr_buffer_def Let_def)
  with g(5) have l: "push_loop ?sc 0 (NewStreamBuffer (sr_maxRetain (pb_streams b))) = res" by simp
  have "\<not> sb_closed (NewStreamBuffer m)" "sb_content (NewStreamBuffer m) = []" for m
    by (simp_all add: NewStreamBuffer_def) (simp add: sb_content_def)
  with push_loop_data [OF sb_inv_new [of "sr_maxRetain (pb_streams b)"], where ds = ds and l = l and n = 0] have "case res of PushReturns m err buf \<Rightarrow> err = None \<and> m = int (length (concat ds @ l)) \<and> sb_content buf = concat ds @ l
      | PushWaits m d buf \<Rightarrow> True"
    unfolding l by (cases res) simp_all
  with assms(4,5) p g(2,4,6) show ?thesis
    by (auto simp: push_handler_def stream_buffer_of_def sr_Get_def sr_buffer_on split: push_out.splits)
qed

section \<open>Examples\<close>

definition push_req :: http_request1 where
  "push_req = \<lparr>rq1_Method = ''POST'', rq1_URLString = '''', rq1_URLHost = '''', rq1_URLPath = ''/push/s'',
     rq1_RawQuery = '''', rq1_Header = [], rq1_Body = None\<rparr>"



end
