(* ===== verification/Ring.thy ===== *)
theory Ring
  imports Prelude
begin

text \<open>
  What the program's three ring buffers share: the copy arithmetic of \<open>ringWrite\<close> and
  \<open>ringRead\<close> (the same code in \<^verbatim>\<open>mux/muxproto/pipe.go\<close>, \<^verbatim>\<open>mux/client/buffer.go\<close> and
  \<^verbatim>\<open>mux_http/client/buffer.go\<close>), the byte list a ring stands for, and the contract between a
  producer and a consumer of a bounded byte buffer (locale \<open>byte_fifo\<close>), under which a
  transfer through it loses, duplicates and reorders nothing and cannot deadlock.
\<close>

section \<open>Copies into and out of a ring\<close>

text \<open>\<open>ringWrite\<close>: the buffer after \<open>src\<close> is written at \<open>tail\<close>, with at most one wrap.\<close>

definition ring_put :: "nat \<Rightarrow> nat \<Rightarrow> 'a list \<Rightarrow> 'a list \<Rightarrow> 'a list" where
  "ring_put cap tail src buf =
     (let n = length src; first = cap - tail
      in if first \<ge> n then copy_at tail src buf
         else copy_at 0 (drop first src) (copy_at tail (take first src) buf))"

text \<open>\<open>ringRead\<close>: the \<open>n\<close> bytes copied out from \<open>head\<close> on.\<close>

definition ring_get :: "nat \<Rightarrow> nat \<Rightarrow> nat \<Rightarrow> 'a list \<Rightarrow> 'a list" where
  "ring_get cap head n buf =
     (let first = cap - head
      in if first \<ge> n then go_slice head n buf
         else drop head buf @ take (n - first) buf)"

text \<open>The bytes a ring holds, oldest first.\<close>

definition ring_list :: "nat \<Rightarrow> nat \<Rightarrow> nat \<Rightarrow> 'a list \<Rightarrow> 'a list" where
  "ring_list cap head sz buf = map (\<lambda>i. buf ! ((head + i) mod cap)) [0..<sz]"

lemma length_ring_list [simp]: "length (ring_list cap head n buf) = n"
  by (simp add: ring_list_def)

lemma length_ring_put [simp]:
  "length buf = cap \<Longrightarrow> tail \<le> cap \<Longrightarrow> length (ring_put cap tail src buf) = cap"
  by (simp add: ring_put_def Let_def)

lemma mod_once: "a < c \<Longrightarrow> b \<le> c \<Longrightarrow> (a + b) mod c = (if a + b < c then a + b else a + b - c)"
  for a b c :: nat
  by (simp add: mod_if)

lemma ring_get_eq [ring_simps]:
  assumes "length buf = cap" and "head < cap" and "n \<le> cap"
  shows "ring_get cap head n buf = ring_list cap head n buf"
proof (rule nth_equalityI)
  show "length (ring_get cap head n buf) = length (ring_list cap head n buf)"
    using assms by (auto simp: ring_get_def Let_def)
next
  fix i assume "i < length (ring_get cap head n buf)"
  with assms have i: "i < n" by (auto simp: ring_get_def Let_def split: if_splits)
  show "ring_get cap head n buf ! i = ring_list cap head n buf ! i"
  proof (cases "n \<le> cap - head")
    case True
    with assms i show ?thesis by (simp add: ring_get_def ring_list_def nth_go_slice)
  next
    case False
    with assms i show ?thesis
      by (auto simp: ring_get_def ring_list_def nth_append mod_once add.commute [of i head])
  qed
qed

lemma nth_ring_put:
  assumes "length buf = cap" and "tail < cap" and "length src \<le> cap" and "j < cap"
  shows "ring_put cap tail src buf ! j =
    (if tail \<le> j \<and> j < tail + length src then src ! (j - tail)
     else if j + cap < tail + length src then src ! (j + cap - tail) else buf ! j)"
proof (cases "length src \<le> cap - tail")
  case True
  with assms show ?thesis by (auto simp: ring_put_def nth_copy_at)
next
  case False
  with assms show ?thesis
    by (auto simp: ring_put_def Let_def nth_copy_at nth_drop add.commute
        intro!: arg_cong [where f = "(!) src"])
qed

lemma ring_put_list [ring_simps]:
  assumes "length buf = cap" and "head < cap" and "sz + length src \<le> cap"
  shows "ring_list cap head (sz + length src) (ring_put cap ((head + sz) mod cap) src buf)
    = ring_list cap head sz buf @ src"
proof (rule nth_equalityI)
  show "length (ring_list cap head (sz + length src) (ring_put cap ((head + sz) mod cap) src buf))
    = length (ring_list cap head sz buf @ src)" by simp
next
  fix i assume "i < length (ring_list cap head (sz + length src) (ring_put cap ((head + sz) mod cap) src buf))"
  then have i: "i < sz + length src" by simp
  have c0: "0 < cap" using assms by simp
  have t: "(head + sz) mod cap < cap" using c0 by simp
  have p: "(head + i) mod cap < cap" using c0 by simp
  have h: "(head + i) mod cap = (if head + i < cap then head + i else head + i - cap)"
    "(head + sz) mod cap = (if head + sz < cap then head + sz else head + sz - cap)"
    using assms i by (simp_all add: mod_once)
  have "ring_put cap ((head + sz) mod cap) src buf ! ((head + i) mod cap)
      = (if i < sz then buf ! ((head + i) mod cap) else src ! (i - sz))"
  proof (cases "i < sz")
    case True
    then show ?thesis
      using assms i unfolding nth_ring_put [OF assms(1) t _ p, of src, OF add_leD2 [OF assms(3)]]
      by (auto simp: h)
  next
    case False
    then show ?thesis
      using assms i unfolding nth_ring_put [OF assms(1) t _ p, of src, OF add_leD2 [OF assms(3)]]
      by (auto simp: h intro!: arg_cong [where f = "(!) src"])
  qed
  with i show "ring_list cap head (sz + length src) (ring_put cap ((head + sz) mod cap) src buf) ! i
      = (ring_list cap head sz buf @ src) ! i"
    by (auto simp: ring_list_def nth_append)
qed

lemma ring_list_take [ring_simps]: "n \<le> sz \<Longrightarrow> take n (ring_list cap head sz buf) = ring_list cap head n buf"
  by (simp add: ring_list_def take_map)

lemma ring_list_drop [ring_simps]:
  "n \<le> sz \<Longrightarrow> ring_list cap ((head + n) mod cap) (sz - n) buf = drop n (ring_list cap head sz buf)"
proof (rule nth_equalityI)
  fix i assume n: "n \<le> sz" and "i < length (ring_list cap ((head + n) mod cap) (sz - n) buf)"
  then have i: "n + i < sz" "i < sz - n" by simp_all
  have "((head + n) mod cap + i) mod cap = (head + (n + i)) mod cap"
    by (simp add: mod_add_left_eq add.assoc)
  with i show "ring_list cap ((head + n) mod cap) (sz - n) buf ! i
      = drop n (ring_list cap head sz buf) ! i"
    by (simp add: ring_list_def)
qed simp

lemma ring_tail_read [ring_simps]:
  "n \<le> sz \<Longrightarrow> ((head + n) mod cap + sz - n) mod cap = (head + sz) mod cap"
  for n sz head cap :: nat
proof -
  assume n: "n \<le> sz"
  then have "(head + n) mod cap + sz - n = (head + n) mod cap + (sz - n)" by simp
  with n show ?thesis by (simp only: mod_add_left_eq) simp
qed

section \<open>The contract of a bounded byte buffer\<close>

text \<open>
  One pass of the writer's loop and one call of the reader, each the body of a critical
  section of the buffer's mutex. \<open>WBlocked\<close> and \<open>RBlocked\<close> say that the goroutine waits on
  the condition variable and the buffer is unchanged; \<open>WWrote n q\<close> that \<open>n\<close> bytes were
  stored; \<open>WFailed\<close> that the call returns with an error. A read returns bytes or an error.
\<close>

datatype 'q write_res = WBlocked | WFailed "go_error option" | WWrote nat 'q

datatype 'q read_res = RBlocked | RRet "byte list" "go_error option" 'q

text \<open>
  A producer that has \<open>rest\<close> still to write and a consumer that has collected \<open>got\<close>, run
  under a schedule that says whose goroutine takes the mutex next. A turn of a blocked or
  finished goroutine changes nothing.
\<close>

datatype turn = WriterTurn | ReaderTurn nat

record 'q transfer =
  tr_buf :: 'q
  tr_rest :: "byte list"
  tr_got :: "byte list"

fun transfer_turn ::
  "('q \<Rightarrow> byte list \<Rightarrow> 'q write_res) \<Rightarrow> ('q \<Rightarrow> nat \<Rightarrow> 'q read_res) \<Rightarrow> turn \<Rightarrow> 'q transfer \<Rightarrow> 'q transfer" where
  "transfer_turn wr rd WriterTurn t =
     (if tr_rest t = [] then t
      else case wr (tr_buf t) (tr_rest t) of
             WWrote n q \<Rightarrow> t\<lparr>tr_buf := q, tr_rest := drop n (tr_rest t)\<rparr>
           | _ \<Rightarrow> t)"
| "transfer_turn wr rd (ReaderTurn m) t =
     (case rd (tr_buf t) m of
        RRet bs None q \<Rightarrow> t\<lparr>tr_buf := q, tr_got := tr_got t @ bs\<rparr>
      | _ \<Rightarrow> t)"

definition transfer_run ::
  "('q \<Rightarrow> byte list \<Rightarrow> 'q write_res) \<Rightarrow> ('q \<Rightarrow> nat \<Rightarrow> 'q read_res) \<Rightarrow> turn list \<Rightarrow> 'q transfer \<Rightarrow> 'q transfer" where
  "transfer_run wr rd ts t = fold (transfer_turn wr rd) ts t"

locale byte_fifo =
  fixes wr :: "'q \<Rightarrow> byte list \<Rightarrow> 'q write_res"
    and rd :: "'q \<Rightarrow> nat \<Rightarrow> 'q read_res"
    and content :: "'q \<Rightarrow> byte list"
    and room :: "'q \<Rightarrow> nat"
    and inv :: "'q \<Rightarrow> bool"
  assumes wr_open: "inv q \<Longrightarrow> d \<noteq> [] \<Longrightarrow>
      (if room q = 0 then wr q d = WBlocked
       else \<exists>q'. wr q d = WWrote (min (length d) (room q)) q' \<and> inv q' \<and>
              content q' = content q @ take (min (length d) (room q)) d)"
    and rd_open: "inv q \<Longrightarrow>
      (if content q = [] then rd q m = RBlocked
       else \<exists>q'. rd q m = RRet (take m (content q)) None q' \<and> inv q' \<and> content q' = drop m (content q))"
    and room_or_content: "inv q \<Longrightarrow> room q = 0 \<Longrightarrow> content q \<noteq> []"
begin

definition total :: "'q transfer \<Rightarrow> byte list" where
  "total t = tr_got t @ content (tr_buf t) @ tr_rest t"

definition left :: "'q transfer \<Rightarrow> nat" where
  "left t = length (tr_rest t) + length (content (tr_buf t))"

lemma turn_keeps:
  assumes "inv (tr_buf t)"
  shows "inv (tr_buf (transfer_turn wr rd a t)) \<and> total (transfer_turn wr rd a t) = total t
    \<and> left (transfer_turn wr rd a t) \<le> left t"
proof (cases a)
  case WriterTurn
  show ?thesis
  proof (cases "tr_rest t = [] \<or> room (tr_buf t) = 0")
    case True
    with WriterTurn wr_open [OF assms, of "tr_rest t"] show ?thesis using assms
      by (auto split: if_splits)
  next
    case False
    with wr_open [OF assms, of "tr_rest t"] obtain q' where
      "wr (tr_buf t) (tr_rest t) = WWrote (min (length (tr_rest t)) (room (tr_buf t))) q'" "inv q'"
      "content q' = content (tr_buf t) @ take (min (length (tr_rest t)) (room (tr_buf t))) (tr_rest t)"
      by auto
    with False WriterTurn show ?thesis by (simp add: total_def left_def)
  qed
next
  case (ReaderTurn m)
  with rd_open [OF assms, of m] show ?thesis using assms
    by (auto simp: total_def left_def split: if_splits)
qed

lemma run_keeps:
  "inv (tr_buf t) \<Longrightarrow> inv (tr_buf (transfer_run wr rd ts t)) \<and> total (transfer_run wr rd ts t) = total t
    \<and> left (transfer_run wr rd ts t) \<le> left t"
proof (induction ts arbitrary: t)
  case Nil
  then show ?case by (simp add: transfer_run_def)
next
  case (Cons a ts)
  from turn_keeps [OF Cons.prems, of a] Cons.IH [of "transfer_turn wr rd a t"] show ?case
    by (auto simp: transfer_run_def)
qed

text \<open>Never both blocked while there is work: the writer waits only when the reader can go.\<close>

lemma no_deadlock:
  assumes "inv q" and "d \<noteq> []" and "wr q d = WBlocked"
  shows "rd q m \<noteq> RBlocked"
proof -
  have "room q = 0" using wr_open [OF assms(1,2)] assms(3) by (auto split: if_splits)
  from room_or_content [OF assms(1) this] rd_open [OF assms(1), of m] show ?thesis by auto
qed

lemma round_progress:
  assumes "inv (tr_buf t)" and "0 < m" and "0 < left t"
  shows "left (transfer_run wr rd [WriterTurn, ReaderTurn m] t) < left t"
proof -
  let ?t1 = "transfer_turn wr rd WriterTurn t"
  from turn_keeps [OF assms(1), of WriterTurn] have t1: "inv (tr_buf ?t1)" "left ?t1 \<le> left t" by simp_all
  have ne: "content (tr_buf ?t1) \<noteq> []"
  proof (cases "tr_rest t = [] \<or> room (tr_buf t) = 0")
    case True
    then have "?t1 = t" using wr_open [OF assms(1), of "tr_rest t"] by (auto split: if_splits)
    with True assms room_or_content [OF assms(1)] show ?thesis by (auto simp: left_def)
  next
    case False
    with wr_open [OF assms(1), of "tr_rest t"] show ?thesis by (auto simp: min_def split: if_splits)
  qed
  from rd_open [OF t1(1), of m] ne obtain q' where
    "rd (tr_buf ?t1) m = RRet (take m (content (tr_buf ?t1))) None q'" "content q' = drop m (content (tr_buf ?t1))"
    by auto
  then have "left (transfer_turn wr rd (ReaderTurn m) ?t1) < left ?t1"
    using ne assms(2) by (simp add: left_def)
  with t1 show ?thesis by (simp add: transfer_run_def)
qed

lemma rounds_deliver:
  assumes "inv (tr_buf t)" and "0 < m"
  shows "left t \<le> k \<Longrightarrow>
    left (transfer_run wr rd (concat (replicate k [WriterTurn, ReaderTurn m])) t) = 0"
  using assms(1)
proof (induction k arbitrary: t)
  case 0
  then show ?case by (simp add: transfer_run_def)
next
  case (Suc k)
  let ?t1 = "transfer_run wr rd [WriterTurn, ReaderTurn m] t"
  have split: "transfer_run wr rd (concat (replicate (Suc k) [WriterTurn, ReaderTurn m])) t
      = transfer_run wr rd (concat (replicate k [WriterTurn, ReaderTurn m])) ?t1"
    by (simp add: transfer_run_def)
  have i: "inv (tr_buf ?t1)" and le: "left ?t1 \<le> left t"
    using run_keeps [OF Suc.prems(2)] by blast+
  have "left ?t1 \<le> k"
  proof (cases "left t = 0")
    case False
    with round_progress [OF Suc.prems(2) assms(2)] Suc.prems(1) show ?thesis by simp
  qed (use le in simp)
  with Suc.IH i split show ?case by simp
qed

text \<open>Enough alternating turns deliver everything, in order.\<close>

lemma delivers_all:
  assumes "inv (tr_buf t)" and "0 < m" and "left t \<le> k"
  shows "tr_got (transfer_run wr rd (concat (replicate k [WriterTurn, ReaderTurn m])) t) = total t"
proof -
  let ?t = "transfer_run wr rd (concat (replicate k [WriterTurn, ReaderTurn m])) t"
  have "left ?t = 0" using rounds_deliver [OF assms] .
  moreover have "total ?t = total t" using run_keeps [OF assms(1)] by blast
  ultimately show ?thesis by (simp add: left_def total_def)
qed

end

end
