(* ===== verification/Pipe.thy ===== *)
theory Pipe
  imports Ring
begin

text \<open>
  \<^verbatim>\<open>internal/mux/muxproto/pipe.go\<close>: \<open>StreamPipe\<close>, the bounded ring-buffer pipe that holds one
  direction of a stream's body. Each definition is the body of one critical section; a
  goroutine that would wait on a condition variable is \<open>WBlocked\<close> or \<open>RBlocked\<close>.
  The pipe refines a bounded queue of bytes, and meets the contract \<open>byte_fifo\<close>.
\<close>

section \<open>State and operations\<close>

record stream_pipe =
  sp_buf :: "byte list option"     \<comment> \<open>\<open>nil\<close> until the first write\<close>
  sp_head :: nat
  sp_tail :: nat
  sp_size :: nat
  sp_cap :: nat
  sp_closed :: bool
  sp_closeErr :: "go_error option"

definition NewStreamPipe :: "int \<Rightarrow> stream_pipe" where
  "NewStreamPipe capacity =
     \<lparr>sp_buf = None, sp_head = 0, sp_tail = 0, sp_size = 0,
      sp_cap = nat (if capacity \<le> 0 then 256 * 1024 else capacity),
      sp_closed = False, sp_closeErr = None\<rparr>"

definition sp_ensureBuf :: "stream_pipe \<Rightarrow> stream_pipe" where
  "sp_ensureBuf p =
     (if sp_buf p = None then p\<lparr>sp_buf := Some (replicate (sp_cap p) 0)\<rparr> else p)"

definition sp_bytes :: "stream_pipe \<Rightarrow> byte list" where
  "sp_bytes p = (case sp_buf p of None \<Rightarrow> [] | Some b \<Rightarrow> b)"

definition sp_ringWrite :: "byte list \<Rightarrow> stream_pipe \<Rightarrow> stream_pipe" where
  "sp_ringWrite src p =
     p\<lparr>sp_buf := Some (ring_put (sp_cap p) (sp_tail p) src (sp_bytes p)),
       sp_tail := (sp_tail p + length src) mod sp_cap p,
       sp_size := sp_size p + length src\<rparr>"

definition sp_ringRead :: "nat \<Rightarrow> stream_pipe \<Rightarrow> byte list \<times> stream_pipe" where
  "sp_ringRead n p =
     (ring_get (sp_cap p) (sp_head p) n (sp_bytes p),
      p\<lparr>sp_head := (sp_head p + n) mod sp_cap p, sp_size := sp_size p - n\<rparr>)"

text \<open>One pass of the loop of \<open>Write\<close>, for the rest of the data.\<close>

definition sp_Write_pass :: "stream_pipe \<Rightarrow> byte list \<Rightarrow> stream_pipe write_res" where
  "sp_Write_pass p d =
     (if sp_size p = sp_cap p \<and> \<not> sp_closed p then WBlocked
      else if sp_closed p
      then WFailed (Some (case sp_closeErr p of Some e \<Rightarrow> e | None \<Rightarrow> ErrClosedPipe))
      else let p1 = sp_ensureBuf p;
               avail = sp_cap p1 - sp_size p1;
               chunk = (if length d > avail then avail else length d)
           in WWrote chunk (sp_ringWrite (take chunk d) p1))"

definition sp_WriteNonBlock :: "byte list \<Rightarrow> stream_pipe \<Rightarrow> (nat \<times> go_error option) \<times> stream_pipe" where
  "sp_WriteNonBlock d p =
     (if sp_closed p then ((0, Some ErrClosedPipe), p)
      else if length d > sp_cap p - sp_size p then ((0, Some ErrPipeFull), p)
      else ((length d, None), sp_ringWrite d (sp_ensureBuf p)))"

text \<open>\<open>Read\<close> into a buffer of \<open>m\<close> bytes.\<close>

definition sp_Read :: "stream_pipe \<Rightarrow> nat \<Rightarrow> stream_pipe read_res" where
  "sp_Read p m =
     (if sp_size p = 0
      then (if sp_closed p
            then RRet [] (Some (case sp_closeErr p of Some e \<Rightarrow> e | None \<Rightarrow> ErrEOF)) p
            else RBlocked)
      else let n = (if m > sp_size p then sp_size p else m)
           in case sp_ringRead n p of (bs, p1) \<Rightarrow> RRet bs None p1)"

definition sp_CloseWrite :: "go_error option \<Rightarrow> stream_pipe \<Rightarrow> stream_pipe" where
  "sp_CloseWrite err p =
     (if sp_closed p then p else p\<lparr>sp_closed := True, sp_closeErr := err\<rparr>)"

definition sp_Available :: "stream_pipe \<Rightarrow> nat" where
  "sp_Available p = sp_size p"

section \<open>Abstraction and invariant\<close>

definition sp_content :: "stream_pipe \<Rightarrow> byte list" where
  "sp_content p = ring_list (sp_cap p) (sp_head p) (sp_size p) (sp_bytes p)"

definition sp_room :: "stream_pipe \<Rightarrow> nat" where
  "sp_room p = sp_cap p - sp_size p"

definition sp_inv :: "stream_pipe \<Rightarrow> bool" where
  "sp_inv p \<longleftrightarrow> 0 < sp_cap p \<and> sp_head p < sp_cap p \<and> sp_size p \<le> sp_cap p \<and>
     sp_tail p = (sp_head p + sp_size p) mod sp_cap p \<and>
     (case sp_buf p of None \<Rightarrow> sp_size p = 0 | Some b \<Rightarrow> length b = sp_cap p)"

lemma sp_inv_size: "sp_inv p \<Longrightarrow> sp_size p \<le> sp_cap p"
  by (simp add: sp_inv_def)

lemma length_sp_content [simp]: "length (sp_content p) = sp_size p"
  by (simp add: sp_content_def)

lemma sp_content_Nil [simp]: "sp_content p = [] \<longleftrightarrow> sp_size p = 0"
  by (metis length_0_conv length_sp_content)

lemma sp_inv_new [simp]: "sp_inv (NewStreamPipe n)" "sp_content (NewStreamPipe n) = []"
  by (simp_all add: sp_inv_def NewStreamPipe_def)

lemma sp_ensureBuf_simps [simp]:
  "sp_head (sp_ensureBuf p) = sp_head p" "sp_tail (sp_ensureBuf p) = sp_tail p"
  "sp_size (sp_ensureBuf p) = sp_size p" "sp_cap (sp_ensureBuf p) = sp_cap p"
  "sp_closed (sp_ensureBuf p) = sp_closed p" "sp_closeErr (sp_ensureBuf p) = sp_closeErr p"
  by (simp_all add: sp_ensureBuf_def)

lemma sp_ringWrite_simps [simp]:
  "sp_head (sp_ringWrite s p) = sp_head p" "sp_size (sp_ringWrite s p) = sp_size p + length s"
  "sp_cap (sp_ringWrite s p) = sp_cap p" "sp_closed (sp_ringWrite s p) = sp_closed p"
  "sp_closeErr (sp_ringWrite s p) = sp_closeErr p"
  by (simp_all add: sp_ringWrite_def)

lemma sp_ensureBuf_inv:
  assumes "sp_inv p"
  shows "sp_inv (sp_ensureBuf p)" and "sp_content (sp_ensureBuf p) = sp_content p"
    and "length (sp_bytes (sp_ensureBuf p)) = sp_cap p"
  using assms
  by (auto simp: sp_inv_def sp_ensureBuf_def sp_content_def sp_bytes_def ring_list_def split: option.splits)

lemma sp_ringWrite_inv:
  assumes "sp_inv p" and "length (sp_bytes p) = sp_cap p" and "sp_size p + length s \<le> sp_cap p"
  shows "sp_inv (sp_ringWrite s p)" and "sp_content (sp_ringWrite s p) = sp_content p @ s"
proof -
  have t: "sp_tail p = (sp_head p + sp_size p) mod sp_cap p" "sp_head p < sp_cap p"
    using assms(1) by (simp_all add: sp_inv_def)
  have b: "sp_bytes (sp_ringWrite s p) = ring_put (sp_cap p) (sp_tail p) s (sp_bytes p)"
    by (simp add: sp_ringWrite_def sp_bytes_def)
  show "sp_content (sp_ringWrite s p) = sp_content p @ s"
    unfolding sp_content_def b using ring_put_list [OF assms(2) t(2) assms(3)] t by simp
  show "sp_inv (sp_ringWrite s p)"
    using assms t by (auto simp: sp_inv_def sp_ringWrite_def mod_add_left_eq add.assoc)
qed

lemma sp_ringRead_inv:
  assumes "sp_inv p" and "n \<le> sp_size p" and "0 < sp_size p"
  shows "fst (sp_ringRead n p) = take n (sp_content p)"
    and "sp_inv (snd (sp_ringRead n p))"
    and "sp_content (snd (sp_ringRead n p)) = drop n (sp_content p)"
proof -
  have i: "sp_head p < sp_cap p" "sp_size p \<le> sp_cap p" "length (sp_bytes p) = sp_cap p"
    using assms by (auto simp: sp_inv_def sp_bytes_def split: option.splits)
  show "fst (sp_ringRead n p) = take n (sp_content p)"
    using i assms(2) by (simp add: sp_ringRead_def sp_content_def ring_simps)
  show "sp_content (snd (sp_ringRead n p)) = drop n (sp_content p)"
    using i assms(2) by (simp add: sp_ringRead_def sp_content_def ring_simps sp_bytes_def)
  show "sp_inv (snd (sp_ringRead n p))"
    using assms(1,2) by (auto simp: sp_inv_def sp_ringRead_def ring_simps split: option.splits)
qed

text \<open>Every operation on an open pipe, on its abstract content.\<close>

lemma sp_write_take:
  assumes "sp_inv p" and "n \<le> sp_room p" and "n \<le> length d"
  shows "sp_inv (sp_ringWrite (take n d) (sp_ensureBuf p))"
    and "sp_content (sp_ringWrite (take n d) (sp_ensureBuf p)) = sp_content p @ take n d"
proof -
  note e = sp_ensureBuf_inv [OF assms(1)]
  have le: "sp_size (sp_ensureBuf p) + length (take n d) \<le> sp_cap (sp_ensureBuf p)"
    using assms(2,3) sp_inv_size [OF assms(1)] by (simp add: sp_room_def)
  show "sp_inv (sp_ringWrite (take n d) (sp_ensureBuf p))"
    using sp_ringWrite_inv(1) [OF e(1) _ le] e(3) by simp
  show "sp_content (sp_ringWrite (take n d) (sp_ensureBuf p)) = sp_content p @ take n d"
    using sp_ringWrite_inv(2) [OF e(1) _ le] e by simp
qed

lemma sp_WriteNonBlock_cases:
  assumes "sp_inv p"
  shows "sp_WriteNonBlock d p =
    (if sp_closed p then ((0, Some ErrClosedPipe), p)
     else if sp_room p < length d then ((0, Some ErrPipeFull), p)
     else ((length d, None), snd (sp_WriteNonBlock d p)))"
  by (simp add: sp_WriteNonBlock_def sp_room_def)

lemma sp_WriteNonBlock_ok:
  assumes "sp_inv p" and "sp_WriteNonBlock d p = ((n, None), p')"
  shows "n = length d" and "sp_inv p'" and "sp_content p' = sp_content p @ d"
    and "sp_closed p' = sp_closed p" and "sp_closeErr p' = sp_closeErr p" and "sp_cap p' = sp_cap p"
    and "\<not> sp_closed p"
  using assms sp_write_take [OF assms(1), of "length d" d]
  by (auto simp: sp_WriteNonBlock_def sp_room_def split: if_splits)

lemma sp_WriteNonBlock_err:
  "sp_WriteNonBlock d p = ((n, Some e), p') \<Longrightarrow> n = 0 \<and> p' = p"
  by (auto simp: sp_WriteNonBlock_def split: if_splits)

lemma sp_Read_ret:
  assumes "sp_inv p" and "sp_Read p m = RRet bs e p'"
  shows "sp_content p = bs @ sp_content p'" and "sp_inv p'" and "sp_closed p' = sp_closed p"
    and "sp_closeErr p' = sp_closeErr p" and "sp_cap p' = sp_cap p" and "length bs \<le> m"
    and "e \<noteq> None \<Longrightarrow> bs = [] \<and> p' = p \<and> sp_closed p"
proof -
  have "sp_content p = bs @ sp_content p' \<and> sp_inv p' \<and> sp_closed p' = sp_closed p
    \<and> sp_closeErr p' = sp_closeErr p \<and> sp_cap p' = sp_cap p \<and> length bs \<le> m
    \<and> (e \<noteq> None \<longrightarrow> bs = [] \<and> p' = p \<and> sp_closed p)"
  proof (cases "sp_size p = 0")
    case True
    with assms show ?thesis by (auto simp: sp_Read_def split: if_splits)
  next
    case False
    let ?n = "if m > sp_size p then sp_size p else m"
    have n: "?n \<le> sp_size p" "0 < sp_size p" using False by auto
    note r = sp_ringRead_inv [OF assms(1) n]
    from assms(2) False have "bs = take ?n (sp_content p)" "p' = snd (sp_ringRead ?n p)" "e = None"
      by (auto simp: sp_Read_def Let_def r(1) [symmetric] split_beta split del: if_split)
    moreover have "sp_closed (snd (sp_ringRead ?n p)) = sp_closed p"
      "sp_closeErr (snd (sp_ringRead ?n p)) = sp_closeErr p" "sp_cap (snd (sp_ringRead ?n p)) = sp_cap p"
      by (simp_all add: sp_ringRead_def)
    ultimately show ?thesis using r(2,3) by simp
  qed
  then show "sp_content p = bs @ sp_content p'" "sp_inv p'" "sp_closed p' = sp_closed p"
    "sp_closeErr p' = sp_closeErr p" "sp_cap p' = sp_cap p" "length bs \<le> m"
    "e \<noteq> None \<Longrightarrow> bs = [] \<and> p' = p \<and> sp_closed p" by blast+
qed

lemma sp_Read_open:
  assumes "sp_inv p"
  shows "if sp_size p = 0 then sp_Read p m =
      (if sp_closed p then RRet [] (Some (case sp_closeErr p of Some e \<Rightarrow> e | None \<Rightarrow> ErrEOF)) p else RBlocked)
    else \<exists>p'. sp_Read p m = RRet (take m (sp_content p)) None p'"
proof (cases "sp_size p = 0")
  case False
  let ?n = "if m > sp_size p then sp_size p else m"
  have n: "?n \<le> sp_size p" "0 < sp_size p" using False by auto
  have "take ?n (sp_content p) = take m (sp_content p)" by simp
  with sp_ringRead_inv(1) [OF assms n]
  have "sp_Read p m = RRet (take m (sp_content p)) None (snd (sp_ringRead ?n p))"
    using False by (simp add: sp_Read_def Let_def split_beta split del: if_split)
  with False show ?thesis by simp
qed (simp add: sp_Read_def)

lemma sp_CloseWrite_simps [simp]:
  "sp_inv (sp_CloseWrite e p) = sp_inv p" "sp_content (sp_CloseWrite e p) = sp_content p"
  "sp_closed (sp_CloseWrite e p)" "sp_cap (sp_CloseWrite e p) = sp_cap p"
  "sp_size (sp_CloseWrite e p) = sp_size p"
  by (simp_all add: sp_CloseWrite_def sp_inv_def sp_content_def sp_bytes_def split: option.splits)

section \<open>An open pipe is a bounded byte queue\<close>

definition sp_open_inv :: "stream_pipe \<Rightarrow> bool" where
  "sp_open_inv p \<longleftrightarrow> sp_inv p \<and> \<not> sp_closed p"

interpretation pipe_fifo: byte_fifo sp_Write_pass sp_Read sp_content sp_room sp_open_inv
proof
  fix p :: stream_pipe and d :: "byte list"
  assume p: "sp_open_inv p" "d \<noteq> []"
  let ?n = "min (length d) (sp_room p)"
  have i: "sp_inv p" using p by (simp add: sp_open_inv_def)
  have n: "?n \<le> sp_room p" "?n \<le> length d" by simp_all
  note w = sp_write_take [OF i n]
  have c: "(if sp_cap p - sp_size p < length d then sp_cap p - sp_size p else length d) = ?n"
    by (simp add: sp_room_def min_def)
  show "if sp_room p = 0 then sp_Write_pass p d = WBlocked
       else \<exists>q'. sp_Write_pass p d = WWrote ?n q' \<and> sp_open_inv q' \<and>
              sp_content q' = sp_content p @ take ?n d"
    using p w i by (auto simp: sp_Write_pass_def sp_open_inv_def Let_def c sp_room_def sp_inv_def [of p])
next
  fix p :: stream_pipe and m :: nat
  assume p: "sp_open_inv p"
  then have i: "sp_inv p" by (simp add: sp_open_inv_def)
  from sp_Read_open [OF i, of m] sp_Read_ret [OF i, of m]
  show "if sp_content p = [] then sp_Read p m = RBlocked
    else \<exists>q'. sp_Read p m = RRet (take m (sp_content p)) None q' \<and> sp_open_inv q' \<and>
      sp_content q' = drop m (sp_content p)"
    using p by (auto simp: sp_open_inv_def split: if_splits)
      (metis (no_types, lifting) append_eq_conv_conj append_take_drop_id same_append_eq)
next
  fix p :: stream_pipe
  assume "sp_open_inv p" "sp_room p = 0"
  then show "sp_content p \<noteq> []" by (auto simp: sp_open_inv_def sp_inv_def sp_room_def)
qed

section \<open>Properties\<close>

definition pipe_transfer :: "int \<Rightarrow> byte list \<Rightarrow> turn list \<Rightarrow> stream_pipe transfer" where
  "pipe_transfer capacity d ts =
     transfer_run sp_Write_pass sp_Read ts \<lparr>tr_buf = NewStreamPipe capacity, tr_rest = d, tr_got = []\<rparr>"

lemma sp_open_new: "sp_open_inv (NewStreamPipe n)"
  using sp_inv_new(1) [of n] by (simp add: sp_open_inv_def NewStreamPipe_def)

text \<open>A blocking \<open>Write\<close> of \<open>d\<close> and a reader share a pipe. However the scheduler
  interleaves their critical sections, what the reader has, what the ring holds and what the
  writer has left are, in this order, exactly \<open>d\<close>; the ring never holds more than its capacity.\<close>

theorem pipe_transfer_exact:
  "tr_got (pipe_transfer capacity d ts) @ sp_content (tr_buf (pipe_transfer capacity d ts))
     @ tr_rest (pipe_transfer capacity d ts) = d
   \<and> sp_size (tr_buf (pipe_transfer capacity d ts)) \<le> sp_cap (tr_buf (pipe_transfer capacity d ts))"
  using pipe_fifo.run_keeps [of "\<lparr>tr_buf = NewStreamPipe capacity, tr_rest = d, tr_got = []\<rparr>" ts]
    sp_open_new [of capacity] sp_inv_size
  by (simp add: pipe_transfer_def pipe_fifo.total_def sp_open_inv_def)

text \<open>The two never both wait: if the writer's pass over an open pipe has to wait, a \<open>Read\<close>
  of any size returns, and as many rounds of the two as \<open>d\<close> has bytes, with reads of any
  non-zero size, deliver all of \<open>d\<close>.\<close>

theorem pipe_transfer_delivers:
  "(sp_open_inv p \<and> d \<noteq> [] \<and> sp_Write_pass p d = WBlocked \<longrightarrow> sp_Read p m \<noteq> RBlocked) \<and>
   tr_got (pipe_transfer capacity d (concat (replicate (length d) [WriterTurn, ReaderTurn (Suc m)]))) = d"
proof (rule conjI, clarify)
  show "False" if "sp_open_inv p" "d \<noteq> []" "sp_Write_pass p d = WBlocked" "sp_Read p m = RBlocked"
    using pipe_fifo.no_deadlock that by blast
  show "tr_got (pipe_transfer capacity d (concat (replicate (length d) [WriterTurn, ReaderTurn (Suc m)]))) = d"
    using pipe_fifo.delivers_all [of "\<lparr>tr_buf = NewStreamPipe capacity, tr_rest = d, tr_got = []\<rparr>" "Suc m" "length d"]
      sp_open_new [of capacity]
    by (simp add: pipe_transfer_def pipe_fifo.total_def pipe_fifo.left_def)
qed

lemma pipe_full_example:
  "sp_open_inv (snd (sp_WriteNonBlock [1] (NewStreamPipe 1)))
   \<and> sp_Write_pass (snd (sp_WriteNonBlock [1] (NewStreamPipe 1))) [2] = WBlocked"
  by (simp add: sp_open_inv_def sp_inv_def sp_WriteNonBlock_def NewStreamPipe_def sp_ensureBuf_def
      sp_ringWrite_def ring_put_def sp_bytes_def copy_at_def sp_Write_pass_def)

theorem pipe_transfer_delivers_witness:
  "sp_Read (snd (sp_WriteNonBlock [1] (NewStreamPipe 1))) 4 \<noteq> RBlocked"
  using pipe_transfer_delivers [of "snd (sp_WriteNonBlock [1] (NewStreamPipe 1))" "[2]" 4] pipe_full_example
  by simp

text \<open>\<open>WriteNonBlock\<close> is all or nothing: on an open pipe it stores the whole block when it
  fits and reports its length, and otherwise stores nothing and reports \<open>ErrPipeFull\<close>; on a
  closed pipe it stores nothing and reports \<open>io.ErrClosedPipe\<close>.\<close>

theorem write_nonblock_all_or_nothing:
  assumes "sp_inv p"
  shows "if sp_closed p then sp_WriteNonBlock d p = ((0, Some ErrClosedPipe), p)
     else if sp_size p + length d > sp_cap p then sp_WriteNonBlock d p = ((0, Some ErrPipeFull), p)
     else \<exists>p'. sp_WriteNonBlock d p = ((length d, None), p') \<and> sp_inv p' \<and>
       sp_content p' = sp_content p @ d \<and> \<not> sp_closed p'"
proof -
  have s: "sp_size p \<le> sp_cap p" using assms by (rule sp_inv_size)
  show ?thesis
  proof (cases "\<not> sp_closed p \<and> length d \<le> sp_room p")
    case True
    then obtain p' where w: "sp_WriteNonBlock d p = ((length d, None), p')"
      using sp_WriteNonBlock_cases [OF assms, of d] by auto
    with True s sp_WriteNonBlock_ok [OF assms w] show ?thesis by (auto simp: sp_room_def)
  next
    case False
    with s sp_WriteNonBlock_cases [OF assms, of d] show ?thesis by (auto simp: sp_room_def)
  qed
qed

theorem write_nonblock_all_or_nothing_witness:
  "\<exists>p'. sp_WriteNonBlock [5, 6] (NewStreamPipe 2) = ((2, None), p') \<and> sp_content p' = [5, 6]"
  using write_nonblock_all_or_nothing [OF sp_inv_new(1), of 2 "[5, 6]"] sp_inv_new(2) [of 2]
  by (auto simp: NewStreamPipe_def numeral_2_eq_2)

lemma sp_CloseWrite_drain:
  assumes "sp_inv p" and "\<not> sp_closed p"
  shows "sp_content p \<noteq> [] \<Longrightarrow>
      \<exists>p'. sp_Read (sp_CloseWrite err p) m = RRet (take m (sp_content p)) None p' \<and>
        sp_content p' = drop m (sp_content p) \<and> sp_closed p' \<and> sp_closeErr p' = err"
    and "sp_content p = [] \<Longrightarrow> sp_Read (sp_CloseWrite err2 (sp_CloseWrite err p)) m
      = RRet [] (Some (case err of Some e \<Rightarrow> e | None \<Rightarrow> ErrEOF)) (sp_CloseWrite err p)"
proof -
  let ?c = "sp_CloseWrite err p"
  have i: "sp_inv ?c" using assms by simp
  show "\<exists>p'. sp_Read ?c m = RRet (take m (sp_content p)) None p' \<and>
        sp_content p' = drop m (sp_content p) \<and> sp_closed p' \<and> sp_closeErr p' = err"
    if "sp_content p \<noteq> []"
  proof -
    from that have "sp_size ?c \<noteq> 0" by simp
    with sp_Read_open [OF i, of m] obtain p' where r: "sp_Read ?c m = RRet (take m (sp_content p)) None p'"
      by auto
    moreover have "sp_closeErr ?c = err" using assms by (simp add: sp_CloseWrite_def)
    moreover have "sp_content p' = drop m (sp_content p)"
      using sp_Read_ret(1) [OF i r] append_take_drop_id [of m "sp_content p"] by (metis same_append_eq sp_CloseWrite_simps(2))
    ultimately show ?thesis using sp_Read_ret(3,4) [OF i r] by simp
  qed
  show "sp_Read (sp_CloseWrite err2 ?c) m = RRet [] (Some (case err of Some e \<Rightarrow> e | None \<Rightarrow> ErrEOF)) ?c"
    if "sp_content p = []"
    using that assms by (simp add: sp_CloseWrite_def sp_Read_def)
qed

text \<open>After \<open>CloseWrite\<close> the reader still gets every byte that was written, and only then
  the close error (\<open>io.EOF\<close> when none was given); a later \<open>CloseWrite\<close> cannot change it.\<close>

theorem close_write_drains:
  assumes "sp_inv p" and "\<not> sp_closed p"
  shows "if sp_content p \<noteq> []
    then \<exists>p'. sp_Read (sp_CloseWrite err p) m = RRet (take m (sp_content p)) None p' \<and>
        sp_content p' = drop m (sp_content p) \<and> sp_closed p' \<and> sp_closeErr p' = err
    else sp_Read (sp_CloseWrite err2 (sp_CloseWrite err p)) m
      = RRet [] (Some (case err of Some e \<Rightarrow> e | None \<Rightarrow> ErrEOF)) (sp_CloseWrite err p)"
  using sp_CloseWrite_drain [OF assms] by simp

theorem close_write_drains_witness:
  "sp_Read (sp_CloseWrite (Some ErrStreamReset) (sp_CloseWrite None (NewStreamPipe 8))) 3
     = RRet [] (Some ErrEOF) (sp_CloseWrite None (NewStreamPipe 8))"
  using close_write_drains [OF sp_inv_new(1), of 8 None 3 "Some ErrStreamReset"] sp_inv_new(2) [of 8]
  by (simp add: NewStreamPipe_def)

end
