(* ===== verification/Stream.thy ===== *)
theory Stream
  imports Messages Pipe
begin

text \<open>
  \<^verbatim>\<open>internal/mux/muxproto/stream.go\<close>: the send-window credit tracker, \<open>Stream\<close> with its
  dispatcher methods (\<open>On...\<close>), consumer methods and sending helpers, and the
  \<open>WindowUpdateReader\<close> that grants credit as a body is consumed. The sending operations take
  the connection's \<open>WriteFrame\<close> as an argument.
\<close>

section \<open>Send windows\<close>

definition pipeBufSize :: int where [wire_simps]: "pipeBufSize = 512 * 1024"
definition windowUpdateBatch :: int where [wire_simps]: "windowUpdateBatch = 32 * 1024"
definition winUpdatePayloadSize :: nat where [wire_simps]: "winUpdatePayloadSize = 5"

record window_tracker =
  wt_avail :: int

definition newWindowTracker :: "int \<Rightarrow> window_tracker" where
  "newWindowTracker initial = \<lparr>wt_avail = initial\<rparr>"

datatype acquire_res = Acquired window_tracker | AcquireWaits | AcquireFailed go_error

text \<open>The first critical section of \<open>Acquire\<close>; \<open>None\<close> when it goes on to the slow path.\<close>

definition wt_Acquire_fast :: "int \<Rightarrow> window_tracker \<Rightarrow> window_tracker option" where
  "wt_Acquire_fast n wt =
     (if wt_avail wt \<ge> n then Some (wt\<lparr>wt_avail := go_int64 (wt_avail wt - n)\<rparr>) else None)"

text \<open>One pass of the slow path's loop, when it has the mutex.\<close>

definition wt_Acquire_slow :: "go_error option \<Rightarrow> bool \<Rightarrow> int \<Rightarrow> window_tracker \<Rightarrow> acquire_res" where
  "wt_Acquire_slow ctx closed n wt =
     (if wt_avail wt < n
      then (if ctx \<noteq> None \<or> closed
            then AcquireFailed (case ctx of Some e \<Rightarrow> e | None \<Rightarrow> ErrStreamReset)
            else AcquireWaits)
      else Acquired (wt\<lparr>wt_avail := go_int64 (wt_avail wt - n)\<rparr>))"

definition wt_Acquire :: "go_error option \<Rightarrow> bool \<Rightarrow> int \<Rightarrow> window_tracker \<Rightarrow> acquire_res" where
  "wt_Acquire ctx closed n wt =
     (case wt_Acquire_fast n wt of
        Some wt' \<Rightarrow> Acquired wt'
      | None \<Rightarrow> wt_Acquire_slow ctx closed n wt)"

definition wt_Release :: "int \<Rightarrow> window_tracker \<Rightarrow> window_tracker" where
  "wt_Release n wt = wt\<lparr>wt_avail := go_int64 (wt_avail wt + n)\<rparr>"

section \<open>The stream\<close>

type_synonym stream_phase = int

definition phaseRequest :: stream_phase where "phaseRequest = 0"
definition phaseResponse :: stream_phase where "phaseResponse = 1"

definition toInt32 :: "stream_phase \<Rightarrow> int" where
  "toInt32 p = phaseRequest"

text \<open>The header channels have capacity one: \<open>None\<close> is empty. A closed \<open>closed\<close> is \<open>True\<close>.\<close>

record mstream =
  st_ID :: u32
  st_reqHeaders :: "request_meta option"
  st_respHeaders :: "response_meta option"
  st_reqBody :: stream_pipe
  st_respBody :: stream_pipe
  st_phase :: int
  st_sendWindowReq :: window_tracker
  st_sendWindowResp :: window_tracker
  st_closed :: bool

definition NewStream :: "u32 \<Rightarrow> mstream" where
  "NewStream sid =
     \<lparr>st_ID = sid, st_reqHeaders = None, st_respHeaders = None,
      st_reqBody = NewStreamPipe pipeBufSize, st_respBody = NewStreamPipe pipeBufSize,
      st_phase = 0,
      st_sendWindowReq = newWindowTracker pipeBufSize, st_sendWindowResp = newWindowTracker pipeBufSize,
      st_closed = False\<rparr>"

definition st_Phase :: "mstream \<Rightarrow> stream_phase" where
  "st_Phase s = st_phase s"

definition st_OnHeaders :: "codec \<Rightarrow> frame \<Rightarrow> mstream \<Rightarrow> go_error option \<times> mstream" where
  "st_OnHeaders J f s =
     (if st_Phase s = phaseRequest
      then case dec_request J (Payload f) of
             (Some e, _) \<Rightarrow> (Some (Wrapf ''parse request headers: %w'' [] e), s)
           | (None, meta) \<Rightarrow>
               (None, if st_reqHeaders s = None then s\<lparr>st_reqHeaders := Some meta\<rparr> else s)
      else case dec_response J (Payload f) of
             (Some e, _) \<Rightarrow> (Some (Wrapf ''parse response headers: %w'' [] e), s)
           | (None, meta) \<Rightarrow>
               (None, if st_respHeaders s = None then s\<lparr>st_respHeaders := Some meta\<rparr> else s))"

text \<open>\<open>OnData\<close>, on the pipe that the phase selects.\<close>

definition st_body :: "mstream \<Rightarrow> stream_pipe" where
  "st_body s = (if st_Phase s = phaseRequest then st_reqBody s else st_respBody s)"

definition st_set_body :: "stream_pipe \<Rightarrow> mstream \<Rightarrow> mstream" where
  "st_set_body p s =
     (if st_Phase s = phaseRequest then s\<lparr>st_reqBody := p\<rparr> else s\<lparr>st_respBody := p\<rparr>)"

definition st_OnData :: "frame \<Rightarrow> mstream \<Rightarrow> go_error option \<times> mstream" where
  "st_OnData f s =
     (case (if length (Payload f) > 0 then sp_WriteNonBlock (Payload f) (st_body s)
            else ((0, None), st_body s)) of
        ((_, Some e), p) \<Rightarrow>
          (Some (Wrapf ''stream %d pipe full (flow control violation): %w'' [ArgInt (uint (st_ID s))] e),
           st_set_body p s)
      | ((_, None), p) \<Rightarrow>
          (None,
           if HasFlag f FlagEndStream
           then let s1 = st_set_body (sp_CloseWrite None p) s
                in if st_Phase s = phaseRequest then s1\<lparr>st_phase := toInt32 phaseResponse\<rparr> else s1
           else st_set_body p s))"

definition st_Close :: "mstream \<Rightarrow> mstream" where
  "st_Close s = s\<lparr>st_closed := True\<rparr>"

definition st_OnRST :: "string \<Rightarrow> mstream \<Rightarrow> mstream" where
  "st_OnRST reason s =
     (let err = Some (Wrapf ''%w: %s'' [ArgStr reason] ErrStreamReset)
      in st_Close (s\<lparr>st_reqBody := sp_CloseWrite err (st_reqBody s),
                     st_respBody := sp_CloseWrite err (st_respBody s)\<rparr>))"

definition st_OnWindowUpdate :: "byte list \<Rightarrow> mstream \<Rightarrow> mstream" where
  "st_OnWindowUpdate payload s =
     (if length payload < winUpdatePayloadSize then s
      else let increment = sint (be_u32 (go_slice 0 4 payload)); dir = payload ! 4
           in if dir = WinDirRequest
              then s\<lparr>st_sendWindowReq := wt_Release increment (st_sendWindowReq s)\<rparr>
              else s\<lparr>st_sendWindowResp := wt_Release increment (st_sendWindowResp s)\<rparr>)"

text \<open>
  A \<open>select\<close> on a header channel and \<open>closed\<close>: every outcome that is possible, none while
  neither is ready. The server takes the response headers from the channel itself.
\<close>

definition st_RecvRequestHeaders :: "mstream \<Rightarrow> ((go_error + request_meta) \<times> mstream) list" where
  "st_RecvRequestHeaders s =
     (case st_reqHeaders s of Some m \<Rightarrow> [(Inr m, s\<lparr>st_reqHeaders := None\<rparr>)] | None \<Rightarrow> []) @
     (if st_closed s then [(Inl ErrStreamReset, s)] else [])"

definition st_RecvResponseHeaders :: "mstream \<Rightarrow> ((go_error + response_meta) \<times> mstream) list" where
  "st_RecvResponseHeaders s =
     (case st_respHeaders s of Some m \<Rightarrow> [(Inr m, s\<lparr>st_respHeaders := None\<rparr>)] | None \<Rightarrow> []) @
     (if st_closed s then [(Inl ErrStreamReset, s)] else [])"

definition st_AcquireReqWindow ::
  "go_error option \<Rightarrow> int \<Rightarrow> mstream \<Rightarrow> acquire_res" where
  "st_AcquireReqWindow ctx n s = wt_Acquire ctx (st_closed s) n (st_sendWindowReq s)"

definition st_AcquireRespWindow ::
  "go_error option \<Rightarrow> int \<Rightarrow> mstream \<Rightarrow> acquire_res" where
  "st_AcquireRespWindow ctx n s = wt_Acquire ctx (st_closed s) n (st_sendWindowResp s)"

section \<open>Sending\<close>

type_synonym 'c frame_writer = "'c \<Rightarrow> frame \<Rightarrow> go_error option \<times> 'c"

definition st_SendHeaders ::
  "'c frame_writer \<Rightarrow> byte list \<Rightarrow> byte \<Rightarrow> mstream \<Rightarrow> 'c \<Rightarrow> go_error option \<times> 'c" where
  "st_SendHeaders wfr marshalled flags s c =
     wfr c \<lparr>StreamID = st_ID s, FType = TypeHeaders, FFlags = flags, Payload = marshalled\<rparr>"

definition st_SendData ::
  "'c frame_writer \<Rightarrow> byte list \<Rightarrow> byte \<Rightarrow> mstream \<Rightarrow> 'c \<Rightarrow> go_error option \<times> 'c" where
  "st_SendData wfr dat flags s c =
     wfr c \<lparr>StreamID = st_ID s, FType = TypeData, FFlags = flags, Payload = dat\<rparr>"

definition st_SendRST ::
  "codec \<Rightarrow> 'c frame_writer \<Rightarrow> string \<Rightarrow> mstream \<Rightarrow> 'c \<Rightarrow> go_error option \<times> 'c" where
  "st_SendRST J wfr reason s c =
     wfr c \<lparr>StreamID = st_ID s, FType = TypeRST, FFlags = 0, Payload = enc_rst J \<lparr>rst_Reason = reason\<rparr>\<rparr>"

text \<open>
  An \<open>io.Reader\<close> is the list of what its next calls return: bytes, at most as many as the
  32 KiB buffer holds, and an error. After the list it returns \<open>0, io.EOF\<close>.
\<close>

type_synonym read_script = "(byte list \<times> go_error option) list"

definition script_next :: "read_script \<Rightarrow> byte list \<times> go_error option" where
  "script_next sc = (case sc of [] \<Rightarrow> ([], Some ErrEOF) | x # _ \<Rightarrow> x)"

text \<open>
  One iteration of the loop of \<open>SendBodyWithFlowControl\<close>: it returns, waits for credit with
  the chunk it has read, or goes round again. An iteration that waited is the same iteration
  when it runs again, since it does not read again.
\<close>

datatype 'c send_iter =
    SendWaits
  | SendReturns "go_error option" mstream 'c
  | SendLoops read_script mstream 'c

definition st_SendBody_iter ::
  "'c frame_writer \<Rightarrow> go_error option \<Rightarrow> byte \<Rightarrow> read_script \<Rightarrow> mstream \<Rightarrow> 'c \<Rightarrow> 'c send_iter" where
  "st_SendBody_iter wfr ctx dir sc s c =
     (let (buf, readErr) = script_next sc;
          after = (\<lambda>s1 c1.
            if readErr = Some ErrEOF
            then (case st_SendData wfr [] FlagEndStream s1 c1 of (r, c2) \<Rightarrow> SendReturns r s1 c2)
            else if readErr \<noteq> None then SendReturns readErr s1 c1
            else SendLoops (tl sc) s1 c1)
      in if length buf > 0
         then case (if dir = WinDirRequest then st_AcquireReqWindow ctx (int (length buf)) s
                    else st_AcquireRespWindow ctx (int (length buf)) s) of
                AcquireWaits \<Rightarrow> SendWaits
              | AcquireFailed e \<Rightarrow> SendReturns (Some (Wrapf ''window acquire: %w'' [] e)) s c
              | Acquired wt \<Rightarrow>
                  let s1 = (if dir = WinDirRequest then s\<lparr>st_sendWindowReq := wt\<rparr>
                            else s\<lparr>st_sendWindowResp := wt\<rparr>)
                  in case st_SendData wfr buf 0 s1 c of
                       (Some e, c1) \<Rightarrow> SendReturns (Some (Wrapf ''send body DATA: %w'' [] e)) s1 c1
                     | (None, c1) \<Rightarrow> after s1 c1
         else after s c)"

lemma st_SendBody_iter_loops:
  "st_SendBody_iter wfr ctx dir sc s c = SendLoops sc' s' c' \<Longrightarrow> sc \<noteq> [] \<and> sc' = tl sc"
  by (cases sc) (auto simp: st_SendBody_iter_def script_next_def Let_def split: prod.splits acquire_res.splits
      option.splits if_splits)

text \<open>The loop, up to its return or to the wait for credit with the script left then.\<close>

datatype 'c send_out =
    SendDone "go_error option" mstream 'c
  | SendBlocked read_script mstream 'c

function st_SendBodyWithFlowControl ::
  "'c frame_writer \<Rightarrow> go_error option \<Rightarrow> byte \<Rightarrow> read_script \<Rightarrow> mstream \<Rightarrow> 'c \<Rightarrow> 'c send_out" where
  "st_SendBodyWithFlowControl wfr ctx dir sc s c =
     (case st_SendBody_iter wfr ctx dir sc s c of
        SendWaits \<Rightarrow> SendBlocked sc s c
      | SendReturns r s' c' \<Rightarrow> SendDone r s' c'
      | SendLoops sc' s' c' \<Rightarrow> st_SendBodyWithFlowControl wfr ctx dir sc' s' c')"
  by pat_completeness auto

termination
  by (relation "measure (\<lambda>(wfr, ctx, dir, sc, s, c). length sc)")
    (auto dest: st_SendBody_iter_loops)

declare st_SendBodyWithFlowControl.simps [simp del]

text \<open>A nil body: only the empty frame that ends the stream.\<close>

definition st_SendBody ::
  "'c frame_writer \<Rightarrow> go_error option \<Rightarrow> byte \<Rightarrow> read_script option \<Rightarrow> mstream \<Rightarrow> 'c \<Rightarrow> 'c send_out" where
  "st_SendBody wfr ctx dir body s c =
     (case body of
        None \<Rightarrow> (case st_SendData wfr [] FlagEndStream s c of (r, c1) \<Rightarrow> SendDone r s c1)
      | Some sc \<Rightarrow> st_SendBodyWithFlowControl wfr ctx dir sc s c)"

section \<open>Granting credit\<close>

record window_update_reader =
  wr_sid :: u32
  wr_dir :: byte
  wr_pendingInc :: int

definition wr_flush :: "'c frame_writer \<Rightarrow> window_update_reader \<Rightarrow> 'c \<Rightarrow> window_update_reader \<times> 'c" where
  "wr_flush wfr r c =
     (if wr_pendingInc r \<le> 0 then (r, c)
      else case wfr c \<lparr>StreamID = wr_sid r, FType = TypeWindowUpdate, FFlags = 0,
                      Payload = put_u32 (word_of_int (wr_pendingInc r)) @ [wr_dir r]\<rparr> of
             (Some e, c1) \<Rightarrow> (r, c1)
           | (None, c1) \<Rightarrow> (r\<lparr>wr_pendingInc := 0\<rparr>, c1))"

datatype 'c wr_read_res = WRBlocked | WRRet "byte list" "go_error option" stream_pipe window_update_reader 'c

definition wr_Read ::
  "'c frame_writer \<Rightarrow> nat \<Rightarrow> stream_pipe \<Rightarrow> window_update_reader \<Rightarrow> 'c \<Rightarrow> 'c wr_read_res" where
  "wr_Read wfr m p r c =
     (case sp_Read p m of
        RBlocked \<Rightarrow> WRBlocked
      | RRet bs e p1 \<Rightarrow>
          if length bs > 0
          then let r1 = r\<lparr>wr_pendingInc := go_int32 (wr_pendingInc r + int (length bs))\<rparr>
               in if wr_pendingInc r1 \<ge> windowUpdateBatch \<or> e \<noteq> None
                  then case wr_flush wfr r1 c of (r2, c2) \<Rightarrow> WRRet bs e p1 r2 c2
                  else WRRet bs e p1 r1 c
          else WRRet bs e p1 r c)"

definition st_ReqBodyReader :: "mstream \<Rightarrow> window_update_reader" where
  "st_ReqBodyReader s = \<lparr>wr_sid = st_ID s, wr_dir = WinDirRequest, wr_pendingInc = 0\<rparr>"

definition st_RespBodyReader :: "mstream \<Rightarrow> window_update_reader" where
  "st_RespBodyReader s = \<lparr>wr_sid = st_ID s, wr_dir = WinDirResponse, wr_pendingInc = 0\<rparr>"

section \<open>Properties\<close>

text \<open>Everything that the two sides do to one stream, in the order of the locks.\<close>

datatype stream_event =
    EvHeaders frame
  | EvData frame
  | EvRST string
  | EvWindowUpdate "byte list"
  | EvReadReq nat
  | EvReadResp nat
  | EvTakeReqHeaders
  | EvTakeRespHeaders
  | EvAcquireReq int
  | EvAcquireResp int
  | EvClose

fun st_event :: "codec \<Rightarrow> stream_event \<Rightarrow> mstream \<Rightarrow> mstream" where
  "st_event J (EvHeaders f) s = snd (st_OnHeaders J f s)"
| "st_event J (EvData f) s = snd (st_OnData f s)"
| "st_event J (EvRST reason) s = st_OnRST reason s"
| "st_event J (EvWindowUpdate payload) s = st_OnWindowUpdate payload s"
| "st_event J (EvReadReq m) s =
     (case sp_Read (st_reqBody s) m of RRet bs e p \<Rightarrow> s\<lparr>st_reqBody := p\<rparr> | RBlocked \<Rightarrow> s)"
| "st_event J (EvReadResp m) s =
     (case sp_Read (st_respBody s) m of RRet bs e p \<Rightarrow> s\<lparr>st_respBody := p\<rparr> | RBlocked \<Rightarrow> s)"
| "st_event J EvTakeReqHeaders s =
     (case st_RecvRequestHeaders s of (r, s1) # _ \<Rightarrow> s1 | [] \<Rightarrow> s)"
| "st_event J EvTakeRespHeaders s =
     (case st_RecvResponseHeaders s of (r, s1) # _ \<Rightarrow> s1 | [] \<Rightarrow> s)"
| "st_event J (EvAcquireReq n) s =
     (case st_AcquireReqWindow None n s of Acquired wt \<Rightarrow> s\<lparr>st_sendWindowReq := wt\<rparr> | _ \<Rightarrow> s)"
| "st_event J (EvAcquireResp n) s =
     (case st_AcquireRespWindow None n s of Acquired wt \<Rightarrow> s\<lparr>st_sendWindowResp := wt\<rparr> | _ \<Rightarrow> s)"
| "st_event J EvClose s = st_Close s"

definition stuck_in_request :: "mstream \<Rightarrow> bool" where
  "stuck_in_request s \<longleftrightarrow> st_Phase s = phaseRequest \<and> st_respHeaders s = None \<and> sp_size (st_respBody s) = 0"

lemma stuck_OnData: "stuck_in_request s \<Longrightarrow> stuck_in_request (snd (st_OnData f s))"
  by (auto simp: stuck_in_request_def st_OnData_def st_set_body_def st_Phase_def toInt32_def Let_def
      split: prod.splits option.splits)

lemma stuck_event: "stuck_in_request s \<Longrightarrow> stuck_in_request (st_event J ev s)"
  by (cases ev)
    (auto simp: stuck_OnData, auto simp: stuck_in_request_def st_OnHeaders_def st_Phase_def st_OnRST_def
      st_Close_def st_OnWindowUpdate_def Let_def sp_Read_def st_RecvRequestHeaders_def st_RecvResponseHeaders_def
      split: option.splits prod.splits read_res.splits acquire_res.splits list.splits if_splits)

lemma stuck_events: "stuck_in_request s \<Longrightarrow> stuck_in_request (fold (st_event J) evs s)"
  by (induction evs arbitrary: s) (simp_all add: stuck_event)

text \<open>A stream never leaves the request phase. \<open>toInt32\<close> gives \<open>phaseRequest\<close> for every
  phase, so the end of the request body does not switch the stream over: whatever frames
  arrive and whatever the two sides do, no response headers are ever delivered (a caller that
  waits for them waits for ever) and no byte ever reaches the response body's pipe.\<close>

theorem phase_never_advances:
  "let s = fold (st_event J) evs (NewStream sid) in
     st_Phase s = phaseRequest \<and> sp_content (st_respBody s) = [] \<and>
     (\<forall>r \<in> set (st_RecvResponseHeaders s). fst r = Inl ErrStreamReset)"
proof -
  have "stuck_in_request (NewStream sid)"
    by (simp add: stuck_in_request_def NewStream_def st_Phase_def phaseRequest_def NewStreamPipe_def)
  from stuck_events [OF this, of J evs] show ?thesis
    by (auto simp: stuck_in_request_def Let_def st_RecvResponseHeaders_def sp_content_Nil [THEN iffD2])
qed

definition phase_example_codec :: codec where
  "phase_example_codec =
     \<lparr>enc_register = (\<lambda>_. []), dec_register = (\<lambda>_. (Some ErrDecode,
         \<lparr>rm_NodeID = [], rm_PushSubs = [], rm_PushResume = (\<lambda>_. None), rm_Capabilities = [], rm_Metadata = (\<lambda>_. None)\<rparr>)),
      enc_register_ack = (\<lambda>_. []), dec_register_ack = (\<lambda>_. (Some ErrDecode,
         \<lparr>ra_OK = False, ra_Message = [], ra_PushStreamIDs = (\<lambda>_. None)\<rparr>)),
      enc_request = (\<lambda>m. to_bytes (rq_Method m)),
      dec_request = (\<lambda>bs. (None, \<lparr>rq_Method = of_bytes bs, rq_URL = [], rq_Host = [], rq_Headers = (\<lambda>_. None)\<rparr>)),
      enc_response = (\<lambda>m. [of_int (rp_StatusCode m)]),
      dec_response = (\<lambda>bs. (None, \<lparr>rp_StatusCode = uint (hd bs), rp_Headers = (\<lambda>_. None)\<rparr>)),
      enc_push_ack = (\<lambda>m. put_u32 (pa_StreamID m)),
      dec_push_ack = (\<lambda>bs. (None, \<lparr>pa_StreamID = be_u32 bs, pa_Offset = 0\<rparr>)),
      enc_rst = (\<lambda>m. to_bytes (rst_Reason m)), dec_rst = (\<lambda>bs. (None, \<lparr>rst_Reason = of_bytes bs\<rparr>)),
      enc_goaway = (\<lambda>m. to_bytes (ga_Reason m)), dec_goaway = (\<lambda>bs. (None, \<lparr>ga_Reason = of_bytes bs\<rparr>))\<rparr>"

text \<open>The frames of a whole response, after the end of the request: the headers are dropped.\<close>

theorem phase_never_advances_witness:
  "list_all (\<lambda>r. fst r = Inl ErrStreamReset) (st_RecvResponseHeaders (fold (st_event phase_example_codec)
     [EvData \<lparr>StreamID = 1, FType = TypeData, FFlags = FlagEndStream, Payload = []\<rparr>,
      EvHeaders \<lparr>StreamID = 1, FType = TypeHeaders, FFlags = 0, Payload = [200]\<rparr>, EvClose] (NewStream 1)))"
  using phase_never_advances [of phase_example_codec "[EvData \<lparr>StreamID = 1, FType = TypeData, FFlags = FlagEndStream, Payload = []\<rparr>,
      EvHeaders \<lparr>StreamID = 1, FType = TypeHeaders, FFlags = 0, Payload = [200]\<rparr>, EvClose]" 1]
  unfolding Let_def list_all_iff by blast

text \<open>A reset releases everybody. After \<open>OnRST\<close> (from the peer, or because the session
  closes) no operation on the stream waits: not the two readers, not a blocking pipe write, not
  a sender that waits for credit of any amount, not a receiver of headers; and a body that the
  reset cut short ends in an error, never in a clean end of file.\<close>

theorem reset_unblocks:
  "let s' = st_OnRST reason s in
     sp_Read (st_reqBody s') m \<noteq> RBlocked \<and> sp_Read (st_respBody s') m \<noteq> RBlocked \<and>
     sp_Write_pass (st_reqBody s') d \<noteq> WBlocked \<and> sp_Write_pass (st_respBody s') d \<noteq> WBlocked \<and>
     st_AcquireReqWindow ctx n s' \<noteq> AcquireWaits \<and> st_AcquireRespWindow ctx n s' \<noteq> AcquireWaits \<and>
     st_RecvRequestHeaders s' \<noteq> [] \<and> st_RecvResponseHeaders s' \<noteq> [] \<and>
     (\<not> sp_closed (st_reqBody s) \<longrightarrow> sp_Read (st_reqBody s') m \<noteq> RRet [] (Some ErrEOF) (st_reqBody s'))"
  unfolding Let_def
proof (intro conjI impI)
  show "st_AcquireReqWindow ctx n (st_OnRST reason s) \<noteq> AcquireWaits"
    "st_AcquireRespWindow ctx n (st_OnRST reason s) \<noteq> AcquireWaits"
    by (simp_all add: st_AcquireReqWindow_def st_AcquireRespWindow_def st_OnRST_def st_Close_def
        wt_Acquire_def wt_Acquire_slow_def Let_def split: option.splits)
  show "st_RecvRequestHeaders (st_OnRST reason s) \<noteq> []" "st_RecvResponseHeaders (st_OnRST reason s) \<noteq> []"
    by (simp_all add: st_RecvRequestHeaders_def st_RecvResponseHeaders_def st_OnRST_def st_Close_def Let_def)
qed (auto simp: st_OnRST_def st_Close_def sp_Read_def sp_Write_pass_def sp_CloseWrite_def Let_def
    split: prod.splits if_splits)

theorem reset_unblocks_witness:
  "sp_Read (st_reqBody (st_OnRST ''gone'' (NewStream 1))) 5 \<noteq> RRet [] (Some ErrEOF) (st_reqBody (st_OnRST ''gone'' (NewStream 1)))"
  using reset_unblocks [of "''gone''" "NewStream 1" 5 "[]" None 0]
  by (simp add: Let_def NewStream_def NewStreamPipe_def)

end
