(* ===== verification/Flow.thy ===== *)
theory Flow
  imports Stream
begin

text \<open>
  Two ends of one stream direction, put together as the code puts them together: the server
  runs \<open>SendBodyWithFlowControl\<close>, the connection carries its \<open>DATA\<close> frames in order (theory
  \<open>Conn\<close>), the client's read loop hands each to \<open>OnData\<close>, the request handler reads the body
  through a \<open>WindowUpdateReader\<close>, and the \<open>WINDOW_UPDATE\<close> frames travel back to
  \<open>OnWindowUpdate\<close>. The steps interleave freely. The theory shows that credit is conserved,
  that \<open>OnData\<close> therefore never finds the pipe full, that the body arrives whole and in order,
  and that the loop of credit cannot deadlock.
\<close>

section \<open>The system\<close>

record flow =
  fl_snd :: mstream
  fl_script :: read_script
  fl_ret :: "go_error option option"
  fl_data :: "frame list"
  fl_rcv :: mstream
  fl_rd :: window_update_reader
  fl_upd :: "frame list"
  fl_got :: "byte list"
  fl_end :: "go_error option"
  fl_errs :: "go_error list"

definition flow_start :: "u32 \<Rightarrow> read_script \<Rightarrow> flow" where
  "flow_start sid sc =
     \<lparr>fl_snd = NewStream sid, fl_script = sc, fl_ret = None, fl_data = [], fl_rcv = NewStream sid,
      fl_rd = st_ReqBodyReader (NewStream sid), fl_upd = [], fl_got = [], fl_end = None, fl_errs = []\<rparr>"

definition add_err :: "go_error option \<Rightarrow> go_error list \<Rightarrow> go_error list" where
  "add_err r es = (case r of None \<Rightarrow> es | Some e \<Rightarrow> es @ [e])"

inductive flow_step :: "flow \<Rightarrow> flow \<Rightarrow> bool" where
  send_loops: "fl_ret f = None \<Longrightarrow>
      st_SendBody_iter queue_write None WinDirRequest (fl_script f) (fl_snd f) (fl_data f) = SendLoops sc s c \<Longrightarrow>
      flow_step f (f\<lparr>fl_script := sc, fl_snd := s, fl_data := c\<rparr>)"
| send_returns: "fl_ret f = None \<Longrightarrow>
      st_SendBody_iter queue_write None WinDirRequest (fl_script f) (fl_snd f) (fl_data f) = SendReturns r s c \<Longrightarrow>
      flow_step f (f\<lparr>fl_ret := Some r, fl_snd := s, fl_data := c\<rparr>)"
| deliver_data: "fl_data f = g # gs \<Longrightarrow> st_OnData g (fl_rcv f) = (r, s) \<Longrightarrow>
      flow_step f (f\<lparr>fl_data := gs, fl_rcv := s, fl_errs := add_err r (fl_errs f)\<rparr>)"
| app_reads: "fl_end f = None \<Longrightarrow> 0 < m \<Longrightarrow>
      wr_Read queue_write m (st_reqBody (fl_rcv f)) (fl_rd f) (fl_upd f) = WRRet bs e p rd u \<Longrightarrow>
      flow_step f (f\<lparr>fl_rcv := (fl_rcv f)\<lparr>st_reqBody := p\<rparr>, fl_rd := rd, fl_upd := u,
                     fl_got := fl_got f @ bs, fl_end := e\<rparr>)"
| deliver_update: "fl_upd f = g # gs \<Longrightarrow>
      flow_step f (f\<lparr>fl_upd := gs, fl_snd := st_OnWindowUpdate (Payload g) (fl_snd f)\<rparr>)"

inductive_cases flow_stepE: "flow_step f f'"

definition flow_reach :: "flow \<Rightarrow> flow \<Rightarrow> bool" where
  "flow_reach f f' \<longleftrightarrow> flow_step\<^sup>*\<^sup>* f f'"

section \<open>What a body sends\<close>

text \<open>The bytes a reader delivers before its first error; a reader without failures.\<close>

fun script_bytes :: "read_script \<Rightarrow> byte list" where
  "script_bytes [] = []"
| "script_bytes ((b, e) # sc) = b @ (if e = None then script_bytes sc else [])"

definition script_ok :: "read_script \<Rightarrow> bool" where
  "script_ok sc \<longleftrightarrow> list_all (\<lambda>(b, e). length b \<le> DataChunkSize \<and> (e = None \<or> e = Some ErrEOF)) sc"

abbreviation chunk_frame :: "u32 \<Rightarrow> byte list \<Rightarrow> frame" where
  "chunk_frame sid b \<equiv> \<lparr>StreamID = sid, FType = TypeData, FFlags = 0, Payload = b\<rparr>"

abbreviation end_frame :: "u32 \<Rightarrow> frame" where
  "end_frame sid \<equiv> \<lparr>StreamID = sid, FType = TypeData, FFlags = FlagEndStream, Payload = []\<rparr>"

abbreviation update_frame :: "u32 \<Rightarrow> int \<Rightarrow> frame" where
  "update_frame sid k \<equiv> \<lparr>StreamID = sid, FType = TypeWindowUpdate, FFlags = 0,
     Payload = put_u32 (word_of_int k) @ [WinDirRequest]\<rparr>"

abbreviation req_avail :: "mstream \<Rightarrow> int" where
  "req_avail s \<equiv> wt_avail (st_sendWindowReq s)"

definition spend :: "int \<Rightarrow> mstream \<Rightarrow> mstream" where
  "spend n s = s\<lparr>st_sendWindowReq := \<lparr>wt_avail = req_avail s - n\<rparr>\<rparr>"

lemma wt_Acquire_open:
  assumes "0 \<le> n" and "0 \<le> wt_avail wt" and "wt_avail wt \<le> pipeBufSize"
  shows "wt_Acquire None False n wt =
    (if wt_avail wt < n then AcquireWaits else Acquired \<lparr>wt_avail = wt_avail wt - n\<rparr>)"
proof -
  have "go_int64 (wt_avail wt - n) = wt_avail wt - n" if "n \<le> wt_avail wt"
    using assms that by (intro go_int64_small) (auto simp: wire_simps)
  then show ?thesis
    by (cases wt) (auto simp: wt_Acquire_def wt_Acquire_fast_def wt_Acquire_slow_def)
qed

lemma send_iter_nil:
  assumes "script_next sc = ([], e)"
  shows "st_SendBody_iter queue_write None WinDirRequest sc s c =
    (if e = Some ErrEOF then SendReturns None s (c @ [end_frame (st_ID s)])
     else if e \<noteq> None then SendReturns e s c else SendLoops (tl sc) s c)"
  by (simp add: st_SendBody_iter_def assms st_SendData_def queue_write_def)

lemma send_iter_chunk:
  assumes "script_next sc = (b, e)" and "b \<noteq> []" and "\<not> st_closed s"
    and "0 \<le> req_avail s" and "req_avail s \<le> pipeBufSize"
  shows "st_SendBody_iter queue_write None WinDirRequest sc s c =
    (if req_avail s < int (length b) then SendWaits
     else let s1 = spend (int (length b)) s; c1 = c @ [chunk_frame (st_ID s) b]
          in if e = Some ErrEOF then SendReturns None s1 (c1 @ [end_frame (st_ID s)])
             else if e \<noteq> None then SendReturns e s1 c1 else SendLoops (tl sc) s1 c1)"
  using assms
  by (simp add: st_SendBody_iter_def st_AcquireReqWindow_def wt_Acquire_open st_SendData_def
      queue_write_def spend_def Let_def)

lemma script_next_step:
  assumes "script_ok sc" and "script_next sc = (b, e)"
  shows "length b \<le> DataChunkSize" and "e = None \<or> e = Some ErrEOF"
    and "script_bytes sc = b @ (if e = None then script_bytes (tl sc) else [])"
    and "script_ok (tl sc)" and "e = None \<Longrightarrow> sc \<noteq> []"
  using assms by (cases sc; auto simp: script_next_def script_ok_def)+

section \<open>The invariant\<close>

definition wire_bytes :: "frame list \<Rightarrow> byte list" where
  "wire_bytes fs = concat (map Payload fs)"

definition granted :: "frame \<Rightarrow> int" where
  "granted f = sint (be_u32 (go_slice 0 4 (Payload f)))"

abbreviation req_pipe :: "flow \<Rightarrow> stream_pipe" where
  "req_pipe f \<equiv> st_reqBody (fl_rcv f)"

definition credit :: "flow \<Rightarrow> int" where
  "credit f = req_avail (fl_snd f) + int (length (wire_bytes (fl_data f))) + int (sp_size (req_pipe f))
     + wr_pendingInc (fl_rd f) + sum_list (map granted (fl_upd f))"

definition flow_body :: "flow \<Rightarrow> byte list" where
  "flow_body f = fl_got f @ sp_content (req_pipe f) @ wire_bytes (fl_data f)
     @ (if fl_ret f = None then script_bytes (fl_script f) else [])"

definition data_ok :: "u32 \<Rightarrow> flow \<Rightarrow> bool" where
  "data_ok sid f \<longleftrightarrow> (\<exists>ps. [] \<notin> set ps \<and>
     (if fl_ret f = None then fl_data f = map (chunk_frame sid) ps \<and> \<not> sp_closed (req_pipe f)
      else fl_ret f = Some None \<and>
        (if sp_closed (req_pipe f) then fl_data f = []
         else fl_data f = map (chunk_frame sid) ps @ [end_frame sid])))"

definition upd_ok :: "u32 \<Rightarrow> frame list \<Rightarrow> bool" where
  "upd_ok sid us \<longleftrightarrow> list_all (\<lambda>u. \<exists>k. u = update_frame sid k \<and> 0 < k \<and> k \<le> 2 * pipeBufSize) us"

definition snd_ok :: "u32 \<Rightarrow> mstream \<Rightarrow> bool" where
  "snd_ok sid s \<longleftrightarrow> st_ID s = sid \<and> \<not> st_closed s \<and> 0 \<le> req_avail s"

definition rcv_ok :: "mstream \<Rightarrow> bool" where
  "rcv_ok s \<longleftrightarrow> st_phase s = phaseRequest \<and> sp_inv (st_reqBody s) \<and>
     sp_cap (st_reqBody s) = nat pipeBufSize \<and> sp_closeErr (st_reqBody s) = None"

definition rd_ok :: "u32 \<Rightarrow> window_update_reader \<Rightarrow> bool" where
  "rd_ok sid r \<longleftrightarrow> wr_sid r = sid \<and> wr_dir r = WinDirRequest \<and> 0 \<le> wr_pendingInc r \<and>
     wr_pendingInc r < windowUpdateBatch"

definition flow_inv :: "u32 \<Rightarrow> byte list \<Rightarrow> flow \<Rightarrow> bool" where
  "flow_inv sid d f \<longleftrightarrow> snd_ok sid (fl_snd f) \<and> rcv_ok (fl_rcv f) \<and> rd_ok sid (fl_rd f) \<and>
     script_ok (fl_script f) \<and> data_ok sid f \<and> upd_ok sid (fl_upd f) \<and>
     credit f = pipeBufSize \<and> flow_body f = d \<and> fl_errs f = [] \<and>
     (fl_end f \<noteq> None \<longrightarrow> fl_end f = Some ErrEOF \<and> sp_closed (req_pipe f) \<and> sp_size (req_pipe f) = 0)"

lemma has_end [simp]: "HasFlag (end_frame sid) FlagEndStream" "\<not> HasFlag (chunk_frame sid b) FlagEndStream"
  by (simp_all add: HasFlag_def Flags_Has_def FlagEndStream_def)

lemma wire_bytes_simps [simp]:
  "wire_bytes [] = []" "wire_bytes (f # fs) = Payload f @ wire_bytes fs"
  "wire_bytes (fs @ gs) = wire_bytes fs @ wire_bytes gs"
  by (simp_all add: wire_bytes_def)

lemma granted_update [simp]:
  "0 < k \<Longrightarrow> k \<le> 2 * pipeBufSize \<Longrightarrow> granted (update_frame sid k) = k"
  by (simp add: granted_def go_slice_def sint_word_of_int_id wire_simps)

lemma granted_sum: "upd_ok sid us \<Longrightarrow> 0 \<le> sum_list (map granted us)"
  by (induction us) (auto simp: upd_ok_def)

lemma flow_inv_start:
  assumes "script_ok sc"
  shows "flow_inv sid (script_bytes sc) (flow_start sid sc)"
  using assms
  by (auto simp: flow_inv_def flow_start_def snd_ok_def rcv_ok_def rd_ok_def data_ok_def upd_ok_def
      credit_def flow_body_def NewStream_def newWindowTracker_def st_ReqBodyReader_def phaseRequest_def
      windowUpdateBatch_def intro: exI [of _ "[]"]) (simp_all add: NewStreamPipe_def pipeBufSize_def)

text \<open>Credit bounds: what is on the wire still fits into the receiver's pipe.\<close>

lemma flow_inv_avail:
  assumes "flow_inv sid d f"
  shows "req_avail (fl_snd f) \<le> pipeBufSize"
    and "int (length (wire_bytes (fl_data f))) + int (sp_size (req_pipe f)) \<le> pipeBufSize"
  using assms granted_sum [of sid "fl_upd f"]
  by (auto simp: flow_inv_def credit_def rd_ok_def snd_ok_def)

section \<open>Every step keeps it\<close>

lemma st_OnData_chunk:
  assumes "rcv_ok s" and "\<not> sp_closed (st_reqBody s)" and "b \<noteq> []"
    and "int (length b) + int (sp_size (st_reqBody s)) \<le> pipeBufSize"
  shows "\<exists>p. st_OnData (chunk_frame sid b) s = (None, s\<lparr>st_reqBody := p\<rparr>) \<and> rcv_ok (s\<lparr>st_reqBody := p\<rparr>) \<and>
    sp_content p = sp_content (st_reqBody s) @ b \<and> \<not> sp_closed p"
proof -
  have i: "sp_inv (st_reqBody s)" "sp_cap (st_reqBody s) = nat pipeBufSize" using assms by (simp_all add: rcv_ok_def)
  have "length b \<le> sp_room (st_reqBody s)"
    using assms(4) i(2) by (simp add: sp_room_def)
  then obtain p where w: "sp_WriteNonBlock b (st_reqBody s) = ((length b, None), p)"
    using sp_WriteNonBlock_cases [OF i(1), of b] assms(2) by auto
  note ok = sp_WriteNonBlock_ok [OF i(1) w]
  show ?thesis
    using assms(1-3) w ok
    by (intro exI [of _ p]) (simp add: st_OnData_def st_body_def st_set_body_def st_Phase_def rcv_ok_def)
qed

lemma st_OnData_end:
  assumes "rcv_ok s"
  shows "st_OnData (end_frame sid) s = (None, s\<lparr>st_reqBody := sp_CloseWrite None (st_reqBody s)\<rparr>) \<and>
    rcv_ok (s\<lparr>st_reqBody := sp_CloseWrite None (st_reqBody s)\<rparr>)"
proof -
  have "sp_closeErr (sp_CloseWrite None (st_reqBody s)) = None"
    using assms by (simp add: rcv_ok_def sp_CloseWrite_def)
  with assms show ?thesis
    by (cases s) (simp add: st_OnData_def st_body_def st_set_body_def st_Phase_def rcv_ok_def
      toInt32_def Let_def)
qed

lemma inv_sends:
  assumes i: "flow_inv sid d f" and r: "fl_ret f = None"
  shows "st_SendBody_iter queue_write None WinDirRequest (fl_script f) (fl_snd f) (fl_data f) = SendLoops sc s c
      \<Longrightarrow> flow_inv sid d (f\<lparr>fl_script := sc, fl_snd := s, fl_data := c\<rparr>)"
    and "st_SendBody_iter queue_write None WinDirRequest (fl_script f) (fl_snd f) (fl_data f) = SendReturns re s c
      \<Longrightarrow> flow_inv sid d (f\<lparr>fl_ret := Some re, fl_snd := s, fl_data := c\<rparr>)"
proof -
  obtain b e where n: "script_next (fl_script f) = (b, e)" by fastforce
  have sc: "script_ok (fl_script f)" and sn: "st_ID (fl_snd f) = sid" "\<not> st_closed (fl_snd f)" "0 \<le> req_avail (fl_snd f)"
    using i by (simp_all add: flow_inv_def snd_ok_def)
  note nx = script_next_step [OF sc n] and av = flow_inv_avail [OF i]
  from i r obtain ps where ps: "[] \<notin> set ps" "fl_data f = map (chunk_frame sid) ps" "\<not> sp_closed (req_pipe f)"
    by (auto simp: flow_inv_def data_ok_def)
  let ?it = "st_SendBody_iter queue_write None WinDirRequest (fl_script f) (fl_snd f) (fl_data f)"
  have it: "?it = (if b \<noteq> [] \<and> req_avail (fl_snd f) < int (length b) then SendWaits
     else let s1 = (if b = [] then fl_snd f else spend (int (length b)) (fl_snd f));
              c1 = fl_data f @ (if b = [] then [] else [chunk_frame sid b])
          in if e = None then SendLoops (tl (fl_script f)) s1 c1
             else SendReturns None s1 (c1 @ [end_frame sid]))"
    using send_iter_nil [of "fl_script f" e "fl_snd f" "fl_data f"]
      send_iter_chunk [OF n _ sn(2,3) av(1), of "fl_data f"] nx(2) n sn(1) by (auto simp: Let_def)
  have d1: "data_ok sid (f\<lparr>fl_script := sc, fl_snd := s, fl_data := map (chunk_frame sid) (ps @ q)\<rparr>)"
    "data_ok sid (f\<lparr>fl_ret := Some None, fl_snd := s, fl_data := map (chunk_frame sid) (ps @ q) @ [end_frame sid]\<rparr>)"
    if "[] \<notin> set q" for q
    using ps r that by (auto simp: data_ok_def intro!: exI [of _ "ps @ q"])
  show "flow_inv sid d (f\<lparr>fl_script := sc, fl_snd := s, fl_data := c\<rparr>)" if "?it = SendLoops sc s c"
  proof -
    from that it nx have e: "e = None" "sc = tl (fl_script f)"
      "s = (if b = [] then fl_snd f else spend (int (length b)) (fl_snd f))"
      "c = map (chunk_frame sid) (ps @ (if b = [] then [] else [b]))"
      "b = [] \<or> int (length b) \<le> req_avail (fl_snd f)"
      by (auto simp: ps(2) Let_def split: if_splits)
    with i r nx ps d1(1) [of "if b = [] then [] else [b]"] show ?thesis
      by (auto simp: flow_inv_def credit_def flow_body_def snd_ok_def spend_def split: if_splits)
  qed
  show "flow_inv sid d (f\<lparr>fl_ret := Some re, fl_snd := s, fl_data := c\<rparr>)" if "?it = SendReturns re s c"
  proof -
    from that it nx have e: "e = Some ErrEOF" "re = None"
      "s = (if b = [] then fl_snd f else spend (int (length b)) (fl_snd f))"
      "c = map (chunk_frame sid) (ps @ (if b = [] then [] else [b])) @ [end_frame sid]"
      "b = [] \<or> int (length b) \<le> req_avail (fl_snd f)"
      by (auto simp: ps(2) Let_def split: if_splits)
    with i r nx ps d1(2) [of "if b = [] then [] else [b]"] show ?thesis
      by (auto simp: flow_inv_def credit_def flow_body_def snd_ok_def spend_def split: if_splits)
  qed
qed

lemma inv_data:
  assumes i: "flow_inv sid d f" and g: "fl_data f = g # gs" and o: "st_OnData g (fl_rcv f) = (r, s)"
  shows "r = None \<and> flow_inv sid d (f\<lparr>fl_data := gs, fl_rcv := s, fl_errs := add_err r (fl_errs f)\<rparr>)"
proof -
  have rc: "rcv_ok (fl_rcv f)" using i by (simp add: flow_inv_def)
  from i have "data_ok sid f" by (simp add: flow_inv_def)
  then obtain ps where p0: "[] \<notin> set ps"
    "if fl_ret f = None then fl_data f = map (chunk_frame sid) ps \<and> \<not> sp_closed (req_pipe f)
      else fl_ret f = Some None \<and>
        (if sp_closed (req_pipe f) then fl_data f = []
         else fl_data f = map (chunk_frame sid) ps @ [end_frame sid])"
    unfolding data_ok_def by blast
  then have ps: "[] \<notin> set ps" "\<not> sp_closed (req_pipe f)"
    "g # gs = map (chunk_frame sid) ps @ (if fl_ret f = None then [] else [end_frame sid])"
    "fl_ret f = None \<or> fl_ret f = Some None"
    unfolding g [symmetric] by (simp_all split: if_splits add: g)
  show ?thesis
  proof (cases ps)
    case Nil
    with ps have e: "g = end_frame sid" "gs = []" "fl_ret f = Some None" by (auto split: if_splits)
    with st_OnData_end [OF rc] o have s: "r = None" "s = (fl_rcv f)\<lparr>st_reqBody := sp_CloseWrite None (req_pipe f)\<rparr>"
      "rcv_ok s" by auto
    have "data_ok sid (f\<lparr>fl_data := [], fl_rcv := s, fl_errs := fl_errs f\<rparr>)"
      using e s by (simp add: data_ok_def) (metis empty_iff empty_set)
    with i g e s show ?thesis
      by (simp add: flow_inv_def credit_def flow_body_def add_err_def)
  next
    case (Cons b qs)
    with ps have e: "g = chunk_frame sid b" "b \<noteq> []" "[] \<notin> set qs"
      "gs = map (chunk_frame sid) qs @ (if fl_ret f = None then [] else [end_frame sid])" by auto
    have "int (length b) + int (sp_size (req_pipe f)) \<le> pipeBufSize"
      using flow_inv_avail(2) [OF i] g e(1) by simp
    from st_OnData_chunk [OF rc ps(2) e(2) this, of sid] e(1) o obtain p where
      s: "r = None" "s = (fl_rcv f)\<lparr>st_reqBody := p\<rparr>" "rcv_ok s"
      "sp_content p = sp_content (req_pipe f) @ b" "\<not> sp_closed p" by auto
    from arg_cong [OF s(4), of length] have sz: "sp_size p = sp_size (req_pipe f) + length b" by simp
    have "data_ok sid (f\<lparr>fl_data := gs, fl_rcv := s, fl_errs := fl_errs f\<rparr>)"
      using e s ps by (auto simp: data_ok_def)
    with i g e(1) s sz ps(2) show ?thesis
      by (auto simp: flow_inv_def credit_def flow_body_def add_err_def)
  qed
qed

lemma data_ok_cong:
  "fl_ret f' = fl_ret f \<Longrightarrow> fl_data f' = fl_data f \<Longrightarrow> sp_closed (req_pipe f') = sp_closed (req_pipe f)
    \<Longrightarrow> data_ok sid f \<Longrightarrow> data_ok sid f'"
  by (simp only: data_ok_def)

lemma upd_ok_snoc:
  "upd_ok sid us \<Longrightarrow> 0 < k \<Longrightarrow> k \<le> 2 * pipeBufSize \<Longrightarrow> upd_ok sid (us @ [update_frame sid k])"
  by (auto simp: upd_ok_def)

lemma wr_Read_queue:
  assumes "rd_ok sid r" and "wr_Read queue_write m p r u = WRRet bs e p' r' u'"
    and "length bs \<le> nat pipeBufSize"
  shows "sp_Read p m = RRet bs e p'" and "rd_ok sid r'"
    and "wr_pendingInc r' + sum_list (map granted u') = wr_pendingInc r + int (length bs) + sum_list (map granted u)"
    and "upd_ok sid u \<Longrightarrow> upd_ok sid u'"
proof -
  from assms(2) show rd: "sp_Read p m = RRet bs e p'"
    by (auto simp: wr_Read_def Let_def split: read_res.splits if_splits prod.splits)
  define k where "k = wr_pendingInc r + int (length bs)"
  have kb: "0 \<le> k" "k \<le> 2 * pipeBufSize" using assms(1,3) by (simp_all add: k_def rd_ok_def wire_simps)
  have k: "go_int32 k = k" using kb by (intro go_int32_id) (simp_all add: wire_simps)
  let ?r = "r\<lparr>wr_pendingInc := k\<rparr>"
  consider "r' = r" "u' = u" "bs = []"
    | "bs \<noteq> []" "r' = ?r" "u' = u" "k < windowUpdateBatch"
    | "bs \<noteq> []" "r' = ?r\<lparr>wr_pendingInc := 0\<rparr>" "u' = u @ [update_frame sid k]" "0 < k"
    using assms(1,2) rd k kb
    by (auto simp: k_def [symmetric] wr_Read_def Let_def wr_flush_def queue_write_def rd_ok_def split: if_splits)
  then have "rd_ok sid r' \<and>
    wr_pendingInc r' + sum_list (map granted u') = wr_pendingInc r + int (length bs) + sum_list (map granted u) \<and>
    (upd_ok sid u \<longrightarrow> upd_ok sid u')"
  proof cases
    case 3
    with assms(1) kb show ?thesis
      by (simp add: rd_ok_def upd_ok_snoc windowUpdateBatch_def) (simp add: k_def)
  qed (use assms(1) in \<open>simp_all add: rd_ok_def k_def\<close>)
  then show "rd_ok sid r'"
    "wr_pendingInc r' + sum_list (map granted u') = wr_pendingInc r + int (length bs) + sum_list (map granted u)"
    "upd_ok sid u \<Longrightarrow> upd_ok sid u'" by simp_all
qed

lemma inv_read:
  assumes i: "flow_inv sid d f"
    and w: "wr_Read queue_write m (req_pipe f) (fl_rd f) (fl_upd f) = WRRet bs e p rd u"
  shows "flow_inv sid d (f\<lparr>fl_rcv := (fl_rcv f)\<lparr>st_reqBody := p\<rparr>, fl_rd := rd, fl_upd := u,
                     fl_got := fl_got f @ bs, fl_end := e\<rparr>)"
proof -
  have rc: "rcv_ok (fl_rcv f)" and pi: "sp_inv (req_pipe f)" and r: "rd_ok sid (fl_rd f)"
    using i by (simp_all add: flow_inv_def rcv_ok_def)
  from w have rd: "sp_Read (req_pipe f) m = RRet bs e p"
    by (auto simp: wr_Read_def Let_def split: read_res.splits if_splits prod.splits)
  note rr = sp_Read_ret [OF pi rd]
  have sz: "sp_size (req_pipe f) = length bs + sp_size p" using arg_cong [OF rr(1), of length] by simp
  then have "length bs \<le> nat pipeBufSize" using sp_inv_size [OF pi] rc by (simp add: rcv_ok_def)
  note q = wr_Read_queue [OF r w this]
  have e: "e \<noteq> None \<longrightarrow> e = Some ErrEOF \<and> sp_closed p \<and> sp_size p = 0"
    using rd rc sp_Read_open [OF pi, of m] rr(7) by (auto simp: rcv_ok_def split: if_splits)
  have "rcv_ok ((fl_rcv f)\<lparr>st_reqBody := p\<rparr>)" using rc rr by (simp add: rcv_ok_def)
  moreover have "data_ok sid (f\<lparr>fl_rcv := (fl_rcv f)\<lparr>st_reqBody := p\<rparr>, fl_rd := rd, fl_upd := u,
                     fl_got := fl_got f @ bs, fl_end := e\<rparr>)"
    by (rule data_ok_cong [of _ f]) (use i rr(3) in \<open>simp_all add: flow_inv_def\<close>)
  ultimately show ?thesis
    using i q(2-4) e rr(1) sz by (auto simp: flow_inv_def credit_def flow_body_def)
qed

lemma inv_update:
  assumes i: "flow_inv sid d f" and g: "fl_upd f = g # gs"
  shows "flow_inv sid d (f\<lparr>fl_upd := gs, fl_snd := st_OnWindowUpdate (Payload g) (fl_snd f)\<rparr>)"
proof -
  from i g obtain k where k: "g = update_frame sid k" "0 < k" "k \<le> 2 * pipeBufSize" "upd_ok sid gs"
    by (auto simp: flow_inv_def upd_ok_def)
  have av: "0 \<le> req_avail (fl_snd f)" "req_avail (fl_snd f) \<le> pipeBufSize"
    using i flow_inv_avail(1) [OF i] by (simp_all add: flow_inv_def snd_ok_def)
  have "go_int64 (req_avail (fl_snd f) + k) = req_avail (fl_snd f) + k"
    using av k by (intro go_int64_small) (simp_all add: pipeBufSize_def)
  then have o: "st_OnWindowUpdate (Payload g) (fl_snd f)
      = (fl_snd f)\<lparr>st_sendWindowReq := \<lparr>wt_avail = req_avail (fl_snd f) + k\<rparr>\<rparr>"
    using k granted_update [of k sid, OF k(2,3)]
    by (cases "st_sendWindowReq (fl_snd f)")
      (simp add: st_OnWindowUpdate_def winUpdatePayloadSize_def nth_append wt_Release_def granted_def)
  have "data_ok sid (f\<lparr>fl_upd := gs, fl_snd := (fl_snd f)\<lparr>st_sendWindowReq := \<lparr>wt_avail = req_avail (fl_snd f) + k\<rparr>\<rparr>\<rparr>)"
    by (rule data_ok_cong [of _ f]) (use i in \<open>simp_all add: flow_inv_def\<close>)
  with i g k av granted_update [of k sid, OF k(2,3)] show ?thesis
    unfolding o by (auto simp: flow_inv_def credit_def flow_body_def snd_ok_def)
qed

lemma flow_step_inv:
  assumes "flow_step f f'" and "flow_inv sid d f"
  shows "flow_inv sid d f'"
  using assms
  by (cases rule: flow_step.cases) (auto intro: inv_sends inv_read inv_update dest: inv_data)

lemma flow_reach_inv: "flow_reach f f' \<Longrightarrow> flow_inv sid d f \<Longrightarrow> flow_inv sid d f'"
  unfolding flow_reach_def by (induction rule: rtranclp_induct) (auto intro: flow_step_inv)

section \<open>Progress\<close>

definition flow_measure :: "flow \<Rightarrow> nat \<times> nat \<times> nat \<times> nat" where
  "flow_measure f = (length (fl_script f) + (if fl_ret f = None then 1 else 0), length (fl_data f),
     sp_size (req_pipe f) + (if fl_end f = None then 1 else 0), length (fl_upd f))"

definition flow_less :: "((nat \<times> nat \<times> nat \<times> nat) \<times> (nat \<times> nat \<times> nat \<times> nat)) set" where
  "flow_less = less_than <*lex*> less_than <*lex*> less_than <*lex*> less_than"

lemma wf_flow_less: "wf flow_less"
  by (simp add: flow_less_def wf_lex_prod)

lemma wr_Read_ret:
  "sp_Read p m = RRet bs e p' \<Longrightarrow> \<exists>r' u'. wr_Read wfr m p r u = WRRet bs e p' r' u'"
  by (auto simp: wr_Read_def Let_def split: prod.splits)

lemma wr_Read_sp:
  "wr_Read wfr m p r u = WRRet bs e p' r' u' \<Longrightarrow> sp_Read p m = RRet bs e p'"
  by (auto simp: wr_Read_def Let_def split: read_res.splits if_splits prod.splits)

lemma flow_step_decreases:
  assumes "flow_step f f'" and i: "flow_inv sid d f"
  shows "(flow_measure f', flow_measure f) \<in> flow_less"
  using assms(1)
proof (cases rule: flow_step.cases)
  case (send_loops sc s c)
  from st_SendBody_iter_loops [OF send_loops(3)] send_loops(1,2) show ?thesis
    by (cases "fl_script f") (simp_all add: flow_measure_def flow_less_def)
next
  case (app_reads m bs e p rd u)
  have pi: "sp_inv (req_pipe f)" using i by (simp add: flow_inv_def rcv_ok_def)
  from wr_Read_sp [OF app_reads(4)] have rd: "sp_Read (req_pipe f) m = RRet bs e p" .
  have "sp_size (req_pipe f) = length bs + sp_size p"
    using arg_cong [OF sp_Read_ret(1) [OF pi rd], of length] by simp
  moreover have "bs \<noteq> [] \<or> e \<noteq> None"
    using sp_Read_open [OF pi, of m] rd app_reads(3) by (auto split: if_splits)
  ultimately show ?thesis
    using app_reads(1,2) by (auto simp: flow_measure_def flow_less_def)
qed (simp_all add: flow_measure_def flow_less_def)

lemma flow_stuck_done:
  assumes i: "flow_inv sid d f" and stuck: "\<not> (\<exists>f'. flow_step f f')"
  shows "fl_got f = d \<and> fl_ret f = Some None \<and> fl_end f = Some ErrEOF \<and>
    req_avail (fl_snd f) + wr_pendingInc (fl_rd f) = pipeBufSize"
proof -
  have pi: "sp_inv (req_pipe f)" and ok: "script_ok (fl_script f)" "snd_ok sid (fl_snd f)" "rd_ok sid (fl_rd f)"
    using i by (simp_all add: flow_inv_def rcv_ok_def)
  have u: "fl_upd f = []" using stuck flow_step.deliver_update by (metis neq_Nil_conv)
  have dt: "fl_data f = []" using stuck flow_step.deliver_data by (metis neq_Nil_conv prod.collapse)
  have rdb: "sp_Read (req_pipe f) 1 = RBlocked" if "fl_end f = None"
    using stuck flow_step.app_reads [OF that, of 1] wr_Read_ret by (metis read_res.exhaust zero_less_one)
  have closed: "sp_closed (req_pipe f) \<longleftrightarrow> fl_ret f \<noteq> None"
    using i dt by (auto simp: flow_inv_def data_ok_def split: if_splits)
  have empty: "sp_size (req_pipe f) = 0 \<and> (sp_closed (req_pipe f) \<longrightarrow> fl_end f \<noteq> None)"
  proof (cases "fl_end f = None")
    case True
    with rdb sp_Read_open [OF pi, of 1] show ?thesis by (auto split: if_splits)
  next
    case False
    with i show ?thesis by (simp add: flow_inv_def)
  qed
  have ret: "fl_ret f \<noteq> None"
  proof
    assume r: "fl_ret f = None"
    obtain b e where n: "script_next (fl_script f) = (b, e)" by fastforce
    note nx = script_next_step [OF ok(1) n] and av = flow_inv_avail(1) [OF i]
    let ?it = "st_SendBody_iter queue_write None WinDirRequest (fl_script f) (fl_snd f) (fl_data f)"
    have "?it = SendWaits"
      using stuck flow_step.send_loops [OF r] flow_step.send_returns [OF r] by (metis send_iter.exhaust)
    moreover from this have b: "b \<noteq> []"
      using send_iter_nil [of "fl_script f" e "fl_snd f" "fl_data f"] n by (auto split: if_splits)
    ultimately have "req_avail (fl_snd f) < int (length b)"
      using send_iter_chunk [OF n b _ _ av, of "fl_data f"] ok(2)
      by (auto simp: snd_ok_def Let_def split: if_splits)
    moreover have "req_avail (fl_snd f) + wr_pendingInc (fl_rd f) = pipeBufSize"
      using i dt u empty by (simp add: flow_inv_def credit_def)
    ultimately show False using nx(1) ok(3) by (simp add: rd_ok_def wire_simps)
  qed
  with i dt u empty closed show ?thesis
    by (auto simp: flow_inv_def credit_def flow_body_def data_ok_def)
qed

section \<open>Properties\<close>

lemma flow_start_reach:
  "script_ok sc \<Longrightarrow> flow_reach (flow_start sid sc) f \<Longrightarrow> flow_inv sid (script_bytes sc) f"
  using flow_reach_inv flow_inv_start by blast

definition flow_example :: flow where
  "flow_example = (flow_start 1 [([1, 2, 3], None)])\<lparr>fl_script := [],
     fl_snd := spend 3 (NewStream 1), fl_data := [chunk_frame 1 [1, 2, 3]]\<rparr>"

lemma flow_example_reach:
  "script_ok [([1, 2, 3], None)]" "flow_reach (flow_start 1 [([1, 2, 3], None)]) flow_example"
proof -
  show "script_ok [([1, 2, 3], None)]" by (simp add: script_ok_def wire_simps)
  have "st_SendBody_iter queue_write None WinDirRequest [([1, 2, 3], None)] (NewStream 1) []
    = SendLoops [] (spend 3 (NewStream 1)) [chunk_frame 1 [1, 2, 3]]"
    by (subst send_iter_chunk [of _ "[1, 2, 3]" None])
      (simp_all add: script_next_def NewStream_def newWindowTracker_def wire_simps)
  then have it: "st_SendBody_iter queue_write None WinDirRequest (fl_script (flow_start 1 [([1, 2, 3], None)]))
      (fl_snd (flow_start 1 [([1, 2, 3], None)])) (fl_data (flow_start 1 [([1, 2, 3], None)]))
    = SendLoops [] (spend 3 (NewStream 1)) [chunk_frame 1 [1, 2, 3]]" by (simp add: flow_start_def)
  have "fl_ret (flow_start 1 [([1, 2, 3], None)]) = None" by (simp add: flow_start_def)
  from flow_step.send_loops [OF this it]
  show "flow_reach (flow_start 1 [([1, 2, 3], None)]) flow_example"
    unfolding flow_reach_def flow_example_def by (rule r_into_rtranclp)
qed

definition flow_done_example :: flow where
  "flow_done_example = (flow_start 1 [])\<lparr>fl_ret := Some None,
     fl_rcv := (NewStream 1)\<lparr>st_reqBody := sp_CloseWrite None (NewStreamPipe pipeBufSize)\<rparr>,
     fl_end := Some ErrEOF\<rparr>"

lemma flow_done_example_reach:
  "script_ok []" "flow_reach (flow_start 1 []) flow_done_example" "\<not> (\<exists>f'. flow_step flow_done_example f')"
proof -
  show "script_ok []" by (simp add: script_ok_def)
  let ?f0 = "flow_start 1 []"
  let ?f1 = "?f0\<lparr>fl_ret := Some None, fl_snd := NewStream 1, fl_data := [end_frame 1]\<rparr>"
  let ?s = "(NewStream 1)\<lparr>st_reqBody := sp_CloseWrite None (NewStreamPipe pipeBufSize)\<rparr>"
  let ?f2 = "?f1\<lparr>fl_data := [], fl_rcv := ?s, fl_errs := []\<rparr>"
  have rb: "st_reqBody (NewStream 1) = NewStreamPipe pipeBufSize" "st_ID (NewStream 1) = 1"
    by (simp_all add: NewStream_def)
  have "rcv_ok (NewStream 1)" using flow_inv_start [OF \<open>script_ok []\<close>, of 1]
    by (simp add: flow_inv_def flow_start_def)
  from st_OnData_end [OF this, of 1] have o: "st_OnData (end_frame 1) (NewStream 1) = (None, ?s)"
    by (simp add: rb)
  have "st_SendBody_iter queue_write None WinDirRequest [] (NewStream 1) [] = SendReturns None (NewStream 1) [end_frame 1]"
    by (subst send_iter_nil [of _ "Some ErrEOF"]) (simp_all add: script_next_def rb)
  then have "flow_step ?f0 ?f1"
    using flow_step.send_returns [of ?f0 None "NewStream 1" "[end_frame 1]"] by (simp add: flow_start_def)
  moreover have "flow_step ?f1 ?f2"
    using flow_step.deliver_data [of ?f1 "end_frame 1" "[]" None ?s] o by (simp add: flow_start_def add_err_def)
  moreover have rd: "sp_Read (sp_CloseWrite None (NewStreamPipe pipeBufSize)) m
      = RRet [] (Some ErrEOF) (sp_CloseWrite None (NewStreamPipe pipeBufSize))" for m
    by (simp add: NewStreamPipe_def sp_CloseWrite_def sp_Read_def)
  then have "flow_step ?f2 (?f2\<lparr>fl_rcv := ?s, fl_rd := st_ReqBodyReader (NewStream 1), fl_upd := [],
      fl_got := [], fl_end := Some ErrEOF\<rparr>)"
    using flow_step.app_reads [of ?f2 1 "[]" "Some ErrEOF" "sp_CloseWrite None (NewStreamPipe pipeBufSize)"
      "st_ReqBodyReader (NewStream 1)" "[]"] by (simp add: flow_start_def wr_Read_def)
  ultimately have "flow_step\<^sup>*\<^sup>* ?f0 (?f2\<lparr>fl_rcv := ?s, fl_rd := st_ReqBodyReader (NewStream 1), fl_upd := [],
      fl_got := [], fl_end := Some ErrEOF\<rparr>)"
    by (meson converse_rtranclp_into_rtranclp r_into_rtranclp)
  then show "flow_reach (flow_start 1 []) flow_done_example"
    by (simp add: flow_reach_def flow_done_example_def flow_start_def)
  show "\<not> (\<exists>f'. flow_step flow_done_example f')"
    by (auto simp: flow_done_example_def flow_start_def elim!: flow_stepE)
qed

text \<open>C1: Credit is conserved. At every moment of every run, the sender's window, the body bytes
  on the wire, the bytes in the receiver's pipe, the credit the reader has not granted yet and
  the credit in \<open>WINDOW_UPDATE\<close> frames on their way add up to 512 KiB. So what is on the wire
  always fits into the pipe, and no \<open>DATA\<close> frame is ever answered with a flow control violation.\<close>

theorem flow_credit_conserved:
  assumes "script_ok sc" and "flow_reach (flow_start sid sc) f"
  shows "credit f = pipeBufSize \<and> fl_errs f = [] \<and>
    length (wire_bytes (fl_data f)) + sp_size (req_pipe f) \<le> sp_cap (req_pipe f)"
  using flow_start_reach [OF assms] flow_inv_avail(2) [OF flow_start_reach [OF assms]]
  by (auto simp: flow_inv_def rcv_ok_def)

theorem flow_credit_conserved_witness:
  "credit flow_example = pipeBufSize \<and> fl_data flow_example \<noteq> []"
  using flow_credit_conserved [OF flow_example_reach] by (simp add: flow_example_def)

text \<open>C2: The body arrives whole and in order: in every reachable state the bytes the handler
  has read, the pipe, the wire and what the sender has not sent are, in this order, the body;
  what the handler has read is always a prefix of it.\<close>

theorem flow_body_intact:
  assumes "script_ok sc" and "flow_reach (flow_start sid sc) f"
  shows "fl_got f @ sp_content (req_pipe f) @ wire_bytes (fl_data f)
      @ (if fl_ret f = None then script_bytes (fl_script f) else []) = script_bytes sc \<and>
    (fl_end f \<noteq> None \<longrightarrow> fl_end f = Some ErrEOF \<and> fl_got f = script_bytes sc)"
  using flow_start_reach [OF assms]
  by (auto simp: flow_inv_def flow_body_def data_ok_def sp_content_Nil [THEN iffD2] split: if_splits)

theorem flow_body_intact_witness:
  "fl_got flow_example @ sp_content (req_pipe flow_example) @ [1, 2, 3] = [1, 2, 3]"
  using flow_body_intact [OF flow_example_reach] by (simp add: flow_example_def flow_start_def)



text \<open>C8: Every run of the system ends: no schedule of sends, deliveries, reads and window
  updates goes on for ever.\<close>

theorem flow_terminates:
  assumes "script_ok sc" and "g 0 = flow_start sid sc"
  shows "\<exists>n. \<not> flow_step (g n) (g (Suc n))"
proof (rule ccontr)
  assume "\<not> ?thesis"
  then have st: "flow_step (g n) (g (Suc n))" for n by blast
  have inv: "flow_inv sid (script_bytes sc) (g n)" for n
  proof (induction n)
    case 0
    show ?case using assms flow_inv_start by simp
  qed (use st flow_step_inv in blast)
  have "\<forall>n. (flow_measure (g (Suc n)), flow_measure (g n)) \<in> flow_less"
    using flow_step_decreases [OF st inv] by blast
  then have "\<exists>h. \<forall>n. (h (Suc n), h n) \<in> flow_less"
    by (rule exI [of _ "\<lambda>n. flow_measure (g n)"])
  with wf_flow_less show False unfolding wf_iff_no_infinite_down_chain by blast
qed

theorem flow_terminates_witness:
  "\<exists>n. \<not> flow_step ((\<lambda>n. if n = 0 then flow_start 1 [([1, 2, 3], None)] else flow_example) n)
     ((\<lambda>n. if n = 0 then flow_start 1 [([1, 2, 3], None)] else flow_example) (Suc n))"
  by (rule flow_terminates [OF flow_example_reach(1), where sid = 1]) simp

section \<open>What a body send puts on a connection\<close>

text \<open>Over any connection that meets the contract \<open>frame_conn\<close>, errors of \<open>WriteFrame\<close> included.\<close>

lemma st_SendBody_iter_loops_cases:
  assumes "st_SendBody_iter wfr ctx dir sc s c = SendLoops sc' s' c'" and "script_next sc = (b, e)"
  shows "e = None \<and> sc' = tl sc \<and> st_ID s' = st_ID s \<and>
    (b = [] \<and> c' = c \<or> b \<noteq> [] \<and> st_SendData wfr b 0 s' c = (None, c') \<and> st_ID s' = st_ID s)"
proof (cases "b = []")
  case True
  with assms show ?thesis by (simp add: st_SendBody_iter_def split: if_splits prod.splits)
next
  case False
  with assms show ?thesis
    by (simp add: st_SendBody_iter_def Let_def split: acquire_res.splits prod.splits)
      (auto split: if_splits option.splits prod.splits)
qed

lemma st_SendBody_iter_returns_cases:
  assumes "st_SendBody_iter wfr ctx dir sc s c = SendReturns None s' c'" and "script_next sc = (b, e)"
  shows "e = Some ErrEOF \<and> st_ID s' = st_ID s \<and> (\<exists>c1.
    (b = [] \<and> c1 = c \<or> b \<noteq> [] \<and> st_SendData wfr b 0 s' c = (None, c1)) \<and>
    st_SendData wfr [] FlagEndStream s' c1 = (None, c'))"
proof (cases "b = []")
  case True
  with assms show ?thesis by (simp add: st_SendBody_iter_def split: if_splits prod.splits)
next
  case False
  with assms show ?thesis
    by (simp add: st_SendBody_iter_def Let_def split: acquire_res.splits prod.splits)
      (auto split: if_splits option.splits prod.splits)
qed

context stream_conn
begin

lemma SendData_ok:
  "cinv c \<Longrightarrow> st_SendData wfr b fl s c = (None, c') \<Longrightarrow>
     cinv c' \<and> sent c' = sent c @ [\<lparr>StreamID = st_ID s, FType = TypeData, FFlags = fl, Payload = b\<rparr>]"
  unfolding st_SendData_def by (rule wf_ok)

definition chunks_sent :: "'c \<Rightarrow> 'c \<Rightarrow> u32 \<Rightarrow> byte list \<Rightarrow> frame list \<Rightarrow> bool" where
  "chunks_sent c c' sid d fin \<longleftrightarrow> cinv c' \<and>
     (\<exists>ps. sent c' = sent c @ map (chunk_frame sid) ps @ fin \<and> [] \<notin> set ps \<and> concat ps = d)"

lemma iter_sent:
  assumes "cinv c"
  shows "st_SendBody_iter wfr ctx dir sc s c = SendLoops sc' s' c' \<Longrightarrow>
      st_ID s' = st_ID s \<and> sc' = tl sc \<and> snd (script_next sc) = None \<and> sc \<noteq> [] \<and>
      chunks_sent c c' (st_ID s) (fst (script_next sc)) []"
    and "st_SendBody_iter wfr ctx dir sc s c = SendReturns None s' c' \<Longrightarrow>
      snd (script_next sc) = Some ErrEOF \<and>
      chunks_sent c c' (st_ID s) (fst (script_next sc)) [end_frame (st_ID s)]"
proof -
  obtain b e where n: "script_next sc = (b, e)" by fastforce
  have ne: "sc \<noteq> []" if "e = None" using n that by (auto simp: script_next_def split: list.splits)
  have part: "chunks_sent c c1 (st_ID s) b []"
    if "b = [] \<and> c1 = c \<or> b \<noteq> [] \<and> st_SendData wfr b 0 s1 c = (None, c1) \<and> st_ID s1 = st_ID s" for c1 s1
  proof (cases "b = []")
    case True
    with that assms show ?thesis by (simp add: chunks_sent_def)
  next
    case False
    with that SendData_ok [OF assms, of b 0 s1 c1] show ?thesis
      by (auto simp: chunks_sent_def intro!: exI [of _ "[b]"])
  qed
  show "st_ID s' = st_ID s \<and> sc' = tl sc \<and> snd (script_next sc) = None \<and> sc \<noteq> [] \<and>
      chunks_sent c c' (st_ID s) (fst (script_next sc)) []"
    if "st_SendBody_iter wfr ctx dir sc s c = SendLoops sc' s' c'"
    using st_SendBody_iter_loops_cases [OF that n] part n ne by auto
  show "snd (script_next sc) = Some ErrEOF \<and>
      chunks_sent c c' (st_ID s) (fst (script_next sc)) [end_frame (st_ID s)]"
    if "st_SendBody_iter wfr ctx dir sc s c = SendReturns None s' c'"
  proof -
    from st_SendBody_iter_returns_cases [OF that n] obtain c1 where c1: "e = Some ErrEOF" "st_ID s' = st_ID s"
      "b = [] \<and> c1 = c \<or> b \<noteq> [] \<and> st_SendData wfr b 0 s' c = (None, c1) \<and> st_ID s' = st_ID s"
      "st_SendData wfr [] FlagEndStream s' c1 = (None, c')" by auto
    from part [OF c1(3)] SendData_ok [OF _ c1(4)] c1(1,2) n show ?thesis
      by (auto simp: chunks_sent_def)
  qed
qed

lemma chunks_sent_trans:
  assumes "chunks_sent c c1 sid d []" and "chunks_sent c1 c' sid d' fin"
  shows "chunks_sent c c' sid (d @ d') fin"
proof -
  from assms obtain p q where "cinv c'" "sent c1 = sent c @ map (chunk_frame sid) p" "[] \<notin> set p" "concat p = d"
    "sent c' = sent c1 @ map (chunk_frame sid) q @ fin" "[] \<notin> set q" "concat q = d'"
    by (auto simp: chunks_sent_def)
  then show ?thesis unfolding chunks_sent_def by (intro conjI exI [of _ "p @ q"]) auto
qed

lemma send_body_sent:
  "cinv c \<Longrightarrow> st_SendBodyWithFlowControl wfr ctx dir sc s c = SendDone None s' c' \<Longrightarrow>
     chunks_sent c c' (st_ID s) (script_bytes sc) [end_frame (st_ID s)]"
proof (induction "length sc" arbitrary: sc s c rule: less_induct)
  case less
  obtain b e where n: "script_next sc = (b, e)" by fastforce
  show ?case
  proof (cases "st_SendBody_iter wfr ctx dir sc s c")
    case SendWaits
    with less.prems(2) show ?thesis by (simp add: st_SendBodyWithFlowControl.simps [of wfr ctx dir sc])
  next
    case (SendReturns r s1 c1)
    with less.prems(2) have "r = None" "s1 = s'" "c1 = c'"
      by (simp_all add: st_SendBodyWithFlowControl.simps [of wfr ctx dir sc])
    with iter_sent(2) [OF less.prems(1), of ctx dir sc s s' c'] SendReturns n show ?thesis
      by (cases sc) (auto simp: script_next_def chunks_sent_def)
  next
    case (SendLoops sc1 s1 c1)
    with less.prems(2) have nx: "st_SendBodyWithFlowControl wfr ctx dir sc1 s1 c1 = SendDone None s' c'"
      by (simp add: st_SendBodyWithFlowControl.simps [of wfr ctx dir sc])
    from iter_sent(1) [OF less.prems(1) SendLoops] have i: "st_ID s1 = st_ID s" "sc1 = tl sc" "sc \<noteq> []"
      "snd (script_next sc) = None" "chunks_sent c c1 (st_ID s) (fst (script_next sc)) []" by auto
    from i(2,3) have "length sc1 < length sc" by simp
    from less.hyps [OF this _ nx] i(1,5) have "chunks_sent c1 c' (st_ID s) (script_bytes sc1) [end_frame (st_ID s)]"
      by (simp add: chunks_sent_def)
    moreover have "script_bytes sc = fst (script_next sc) @ script_bytes sc1"
      using i(2-4) by (cases sc) (auto simp: script_next_def)
    ultimately show ?thesis using chunks_sent_trans [OF i(5)] by simp
  qed
qed

end

text \<open>Over a real connection: when \<open>SendBodyWithFlowControl\<close> returns \<open>nil\<close>, what the peer
  decodes has grown by exactly the body, cut into \<open>DATA\<close> frames of the stream, in order,
  none empty, followed by one empty frame with \<open>END_STREAM\<close>.\<close>

theorem send_body_on_connection:
  assumes "mc_synced c" and "st_SendBodyWithFlowControl mc_WriteFrame ctx dir sc s c = SendDone None s' c'"
  shows "\<exists>ps. mc_sent c' = mc_sent c @ map (chunk_frame (st_ID s)) ps @ [end_frame (st_ID s)] \<and>
    [] \<notin> set ps \<and> concat ps = script_bytes sc"
  using mux_conn_sent.send_body_sent [OF assms] by (auto simp: mux_conn_sent.chunks_sent_def)

lemma mc_synced_new: "mc_synced (NewMuxConn n r)"
  unfolding mc_synced_def using conn_sync_new by blast

lemma write_end_example: "\<exists>c. mc_WriteFrame (NewMuxConn 100 r) (end_frame 1) = (None, c)"
  by (simp add: mc_WriteFrame_def frame_write_to_def bw_write_def bw_flush_def net_write_def
      NewMuxConn_def frame_header_def put_u32_def MaxPayloadSize_def bw_size_def)

lemma send_empty_example:
  "\<exists>c. st_SendBodyWithFlowControl mc_WriteFrame None WinDirRequest [] (NewStream 1) (NewMuxConn 100 r)
     = SendDone None (NewStream 1) c"
proof -
  obtain c where "mc_WriteFrame (NewMuxConn 100 r) (end_frame 1) = (None, c)" using write_end_example by blast
  then have "st_SendBody_iter mc_WriteFrame None WinDirRequest [] (NewStream 1) (NewMuxConn 100 r)
      = SendReturns None (NewStream 1) c"
    by (simp add: st_SendBody_iter_def script_next_def st_SendData_def NewStream_def)
  then show ?thesis
    unfolding st_SendBodyWithFlowControl.simps [of mc_WriteFrame None WinDirRequest "[]" "NewStream 1"] by simp
qed

theorem send_body_on_connection_witness:
  "\<exists>c'. mc_sent c' = mc_sent (NewMuxConn 100 \<lparr>rd_data = [], rd_err = ErrEOF\<rparr>) @ [end_frame 1] \<and>
     st_SendBodyWithFlowControl mc_WriteFrame None WinDirRequest [] (NewStream 1) (NewMuxConn 100 \<lparr>rd_data = [], rd_err = ErrEOF\<rparr>)
       = SendDone None (NewStream 1) c'"
proof -
  from send_empty_example obtain c where c: "st_SendBodyWithFlowControl mc_WriteFrame None WinDirRequest []
      (NewStream 1) (NewMuxConn 100 \<lparr>rd_data = [], rd_err = ErrEOF\<rparr>) = SendDone None (NewStream 1) c" by blast
  show ?thesis
    using send_body_on_connection [OF mc_synced_new c] c
    by (intro exI [of _ c]) (auto simp: NewStream_def, metis list.set_intros(1) neq_Nil_conv)
qed

end
