(* ===== verification/MuxServer.thy ===== *)
theory MuxServer
  imports Flow "HOL-Library.AList"
begin

text \<open>
  \<^verbatim>\<open>internal/mux/server/session.go\<close> and \<^verbatim>\<open>internal/mux/server/server.go\<close>: the edge session with
  its stream table and frame dispatch, \<open>DoRequest\<close>, the node registry with the registration and
  departure of edges, stream ids, and the checks of the \<open>/dispatch/\<close> handler.

  A Go map is an association list with distinct keys. Streams and sessions are shared by
  pointer, so they live in stores and are named by their index there.
\<close>

section \<open>Edge sessions\<close>

record edge_session =
  es_nodeID :: string
  es_conn :: mux_conn
  es_capabilities :: "string list"
  es_cancelled :: bool
  es_store :: "mstream list"
  es_streams :: "(u32 \<times> nat) list"
  es_pongs :: nat
  es_once :: bool

definition hasCapability :: "string \<Rightarrow> edge_session \<Rightarrow> bool" where
  "hasCapability cap s = list_ex (\<lambda>c. c = cap) (es_capabilities s)"

definition newEdgeSession :: "string \<Rightarrow> mux_conn \<Rightarrow> edge_session" where
  "newEdgeSession nodeID conn =
     \<lparr>es_nodeID = nodeID, es_conn = conn, es_capabilities = [], es_cancelled = False,
      es_store = [], es_streams = [], es_pongs = 0, es_once = False\<rparr>"

definition es_on :: "(mstream \<Rightarrow> mstream) \<Rightarrow> nat \<Rightarrow> edge_session \<Rightarrow> edge_session" where
  "es_on h i s = s\<lparr>es_store := (es_store s)[i := h (es_store s ! i)]\<rparr>"

definition es_send :: "frame \<Rightarrow> edge_session \<Rightarrow> go_error option \<times> edge_session" where
  "es_send f s = (case mc_WriteFrame (es_conn s) f of (r, c) \<Rightarrow> (r, s\<lparr>es_conn := c\<rparr>))"

definition closeWithReason :: "string \<Rightarrow> edge_session \<Rightarrow> edge_session" where
  "closeWithReason reason s =
     (if es_once s then s
      else let s1 = s\<lparr>es_once := True, es_cancelled := True, es_conn := mc_Close (es_conn s)\<rparr>;
               s2 = fold (\<lambda>(sid, i). es_on (st_OnRST (''session closed: '' @ reason)) i) (es_streams s1) s1
           in s2\<lparr>es_streams := []\<rparr>)"

definition removeStream :: "u32 \<Rightarrow> edge_session \<Rightarrow> edge_session" where
  "removeStream sid s = s\<lparr>es_streams := AList.delete sid (es_streams s)\<rparr>"

definition handleControlFrame :: "frame \<Rightarrow> edge_session \<Rightarrow> edge_session" where
  "handleControlFrame f s =
     (if FType f = TypePong then (if es_pongs s < 4 then s\<lparr>es_pongs := es_pongs s + 1\<rparr> else s)
      else if FType f = TypePing
      then snd (es_send \<lparr>StreamID = 0, FType = TypePong, FFlags = 0, Payload = []\<rparr> s)
      else s)"

definition violation_reason :: "frame \<Rightarrow> string" where
  "violation_reason f = ''flow control violation on stream '' @ show_int (uint (StreamID f))"

definition handleStreamFrame :: "codec \<Rightarrow> frame \<Rightarrow> edge_session \<Rightarrow> edge_session" where
  "handleStreamFrame J f s =
     (case map_of (es_streams s) (StreamID f) of
        None \<Rightarrow> s
      | Some i \<Rightarrow>
          if FType f = TypeHeaders then es_on (\<lambda>st. snd (st_OnHeaders J f st)) i s
          else if FType f = TypeData
          then (case st_OnData f (es_store s ! i) of
                  (None, st) \<Rightarrow> es_on (\<lambda>_. st) i s
                | (Some e, st) \<Rightarrow>
                    closeWithReason (violation_reason f)
                      (snd (es_send \<lparr>StreamID = 0, FType = TypeGoAway, FFlags = 0,
                         Payload = enc_goaway J \<lparr>ga_Reason = violation_reason f\<rparr>\<rparr> (es_on (\<lambda>_. st) i s))))
          else if FType f = TypeWindowUpdate then es_on (st_OnWindowUpdate (Payload f)) i s
          else if FType f = TypeRST
          then removeStream (StreamID f)
                 (es_on (st_OnRST (rst_Reason (snd (dec_rst J (Payload f))))) i s)
          else s)"

text \<open>One turn of \<open>readLoop\<close>, and the whole loop on the frames that \<open>ReadFrame\<close> returns.\<close>

definition es_dispatch :: "codec \<Rightarrow> frame \<Rightarrow> edge_session \<Rightarrow> edge_session" where
  "es_dispatch J f s =
     (if StreamID f = ControlStreamID then handleControlFrame f s
      else if FType f = TypeHeaders \<or> FType f = TypeData \<or> FType f = TypeRST \<or> FType f = TypeWindowUpdate
      then handleStreamFrame J f s
      else s)"

definition es_readLoop :: "codec \<Rightarrow> frame list \<Rightarrow> edge_session \<Rightarrow> edge_session" where
  "es_readLoop J fs s = closeWithReason ''read loop exited'' (fold (es_dispatch J) fs s)"

text \<open>
  One event of \<open>pingLoop\<close>: a pong was received, or the ticker fired at time \<open>now\<close> (seconds);
  \<open>None\<close> says that the loop returns. \<open>lastPong\<close> is a variable of the loop.
\<close>

definition pingInterval :: int where "pingInterval = 20"
definition pingTimeout :: int where "pingTimeout = 15"

datatype ping_event = PongReceived | TickerFired | SessionDone

definition es_pingLoop_step ::
  "ping_event \<Rightarrow> int \<Rightarrow> int \<Rightarrow> edge_session \<Rightarrow> int option \<times> edge_session" where
  "es_pingLoop_step ev now lastPong s =
     (case ev of
        SessionDone \<Rightarrow> (None, s)
      | PongReceived \<Rightarrow> (Some now, s\<lparr>es_pongs := es_pongs s - 1\<rparr>)
      | TickerFired \<Rightarrow>
          if now - lastPong > pingInterval + pingTimeout
          then (None, closeWithReason ''ping timeout'' s)
          else (Some lastPong, snd (es_send \<lparr>StreamID = 0, FType = TypePing, FFlags = 0, Payload = []\<rparr> s)))"

section \<open>Requests to an edge\<close>

text \<open>
  \<open>DoRequest\<close> up to the point where it waits: it returns an error, waits for credit, or waits
  for the response headers of the stream it names.
\<close>

datatype do_request =
    DRFailed go_error
  | DRCredit nat read_script
  | DRWaiting nat

definition dr_cleanup :: "u32 \<Rightarrow> nat \<Rightarrow> edge_session \<Rightarrow> edge_session" where
  "dr_cleanup sid i s = es_on st_Close i (removeStream sid s)"

definition dr_send_body ::
  "go_error option \<Rightarrow> u32 \<Rightarrow> nat \<Rightarrow> read_script option \<Rightarrow> edge_session \<Rightarrow> do_request \<times> edge_session" where
  "dr_send_body ctx sid i body s =
     (case st_SendBody mc_WriteFrame ctx WinDirRequest body (es_store s ! i) (es_conn s) of
        SendDone (Some e) st c \<Rightarrow> (DRFailed e, dr_cleanup sid i (es_on (\<lambda>_. st) i (s\<lparr>es_conn := c\<rparr>)))
      | SendDone None st c \<Rightarrow> (DRWaiting i, es_on (\<lambda>_. st) i (s\<lparr>es_conn := c\<rparr>))
      | SendBlocked sc st c \<Rightarrow> (DRCredit i sc, es_on (\<lambda>_. st) i (s\<lparr>es_conn := c\<rparr>)))"

definition DoRequest_send ::
  "codec \<Rightarrow> go_error option \<Rightarrow> u32 \<Rightarrow> request_meta \<Rightarrow> read_script option \<Rightarrow> edge_session
     \<Rightarrow> do_request \<times> edge_session" where
  "DoRequest_send J ctx sid reqMeta reqBody s =
     (let i = length (es_store s);
          s1 = s\<lparr>es_store := es_store s @ [NewStream sid],
                 es_streams := AList.update sid i (es_streams s)\<rparr>
      in case st_SendHeaders mc_WriteFrame (enc_request J reqMeta) 0 (es_store s1 ! i) (es_conn s1) of
           (Some e, c) \<Rightarrow>
             (DRFailed (Wrapf ''send request headers: %w'' [] e), dr_cleanup sid i (s1\<lparr>es_conn := c\<rparr>))
         | (None, c) \<Rightarrow> dr_send_body ctx sid i reqBody (s1\<lparr>es_conn := c\<rparr>))"

text \<open>The final \<open>select\<close>: every outcome that is possible; none while nothing is ready.\<close>

definition DoRequest_wait ::
  "codec \<Rightarrow> go_error option \<Rightarrow> u32 \<Rightarrow> nat \<Rightarrow> edge_session
     \<Rightarrow> ((go_error + response_meta) \<times> edge_session) list" where
  "DoRequest_wait J ctx sid i s =
     (case ctx of
        Some e \<Rightarrow>
          [(Inl e, dr_cleanup sid i
              (case st_SendRST J mc_WriteFrame ''caller cancelled'' (es_store s ! i) (es_conn s) of
                 (_, c) \<Rightarrow> s\<lparr>es_conn := c\<rparr>))]
      | None \<Rightarrow> []) @
     (if es_cancelled s then [(Inl (Errorf ''session closed'' []), dr_cleanup sid i s)] else []) @
     (case st_respHeaders (es_store s ! i) of
        Some m \<Rightarrow> [(Inr m, es_on (\<lambda>st. st\<lparr>st_respHeaders := None\<rparr>) i s)]
      | None \<Rightarrow> [])"

text \<open>\<open>streamCleanupReader.Read\<close>: any error of the reader, \<open>io.EOF\<close> too, ends the stream, once.\<close>

record cleanup_reader =
  cr_reader :: window_update_reader
  cr_streamID :: u32
  cr_stream :: nat
  cr_once :: bool

definition cr_Read ::
  "nat \<Rightarrow> cleanup_reader \<Rightarrow> edge_session \<Rightarrow> ((byte list \<times> go_error option) \<times> cleanup_reader \<times> edge_session) option" where
  "cr_Read m r s =
     (case wr_Read mc_WriteFrame m (st_respBody (es_store s ! cr_stream r)) (cr_reader r) (es_conn s) of
        WRBlocked \<Rightarrow> None
      | WRRet bs e p wr c \<Rightarrow>
          let r1 = r\<lparr>cr_reader := wr\<rparr>;
              s1 = es_on (\<lambda>st. st\<lparr>st_respBody := p\<rparr>) (cr_stream r) (s\<lparr>es_conn := c\<rparr>)
          in Some (if e \<noteq> None \<and> \<not> cr_once r
                   then ((bs, e), r1\<lparr>cr_once := True\<rparr>,
                         es_on st_Close (cr_stream r) (removeStream (cr_streamID r) s1))
                   else ((bs, e), r1, s1)))"

section \<open>The node registry\<close>

text \<open>
  A goroutine runs \<open>handleEdge\<close> per connection; its atomic actions on the shared registry are
  separate steps. \<open>sv_pc\<close> says where the goroutine of each session is: acknowledged, after
  \<open>LoadAndDelete\<close>, in the read loop after \<open>Store\<close>, or gone.
\<close>

datatype edge_pc = PcAcked | PcTaken | PcServing | PcGone

record server =
  sv_nodes :: "(string \<times> nat) list"
  sv_nextSID :: u32
  sv_pushAPIKey :: string
  sv_sessions :: "edge_session list"
  sv_pc :: "edge_pc list"

definition NewServer :: "string \<Rightarrow> server" where
  "NewServer pushAPIKey =
     \<lparr>sv_nodes = [], sv_nextSID = 1, sv_pushAPIKey = pushAPIKey, sv_sessions = [], sv_pc = []\<rparr>"

function allocStreamID :: "u32 \<Rightarrow> u32 \<times> u32" where
  "allocStreamID next =
     (let new = next + 2; sid = new - 2
      in if sid \<noteq> 0 then (sid, new) else allocStreamID new)"
  by pat_completeness auto
termination
  by (relation "measure (\<lambda>n. if n = 0 then 1 else 0)") auto

declare allocStreamID.simps [simp del]

definition sv_on :: "(edge_session \<Rightarrow> edge_session) \<Rightarrow> nat \<Rightarrow> server \<Rightarrow> server" where
  "sv_on h r sv = sv\<lparr>sv_sessions := (sv_sessions sv)[r := h (sv_sessions sv ! r)]\<rparr>"

definition sv_goto :: "edge_pc \<Rightarrow> nat \<Rightarrow> server \<Rightarrow> server" where
  "sv_goto pc r sv = sv\<lparr>sv_pc := (sv_pc sv)[r := pc]\<rparr>"

text \<open>\<open>handleEdge\<close> up to the acknowledgement, on what the first \<open>ReadFrame\<close> returned.\<close>

definition he_accept :: "codec \<Rightarrow> (go_error + frame) \<Rightarrow> mux_conn \<Rightarrow> server \<Rightarrow> mux_conn option \<times> server" where
  "he_accept J first conn sv =
     (case first of
        Inl e \<Rightarrow> (Some (mc_Close conn), sv)
      | Inr f \<Rightarrow>
          if FType f \<noteq> TypeRegister \<or> StreamID f \<noteq> ControlStreamID then (Some (mc_Close conn), sv)
          else case dec_register J (Payload f) of
                 (err, reg) \<Rightarrow>
                   if err \<noteq> None \<or> rm_NodeID reg = [] then (Some (mc_Close conn), sv)
                   else let sess = (newEdgeSession (rm_NodeID reg) conn)\<lparr>es_capabilities := rm_Capabilities reg\<rparr>
                        in case es_send \<lparr>StreamID = ControlStreamID, FType = TypeRegisterAck, FFlags = 0,
                               Payload = enc_register_ack J \<lparr>ra_OK = True, ra_Message = [], ra_PushStreamIDs = Map.empty\<rparr>\<rparr> sess of
                             (Some e, sess1) \<Rightarrow> (Some (mc_Close (es_conn sess1)), sv)
                           | (None, sess1) \<Rightarrow>
                               (None, sv\<lparr>sv_sessions := sv_sessions sv @ [sess1], sv_pc := sv_pc sv @ [PcAcked]\<rparr>))"

definition he_take :: "nat \<Rightarrow> server \<Rightarrow> server" where
  "he_take r sv =
     (let n = es_nodeID (sv_sessions sv ! r)
      in sv_goto PcTaken r
           (case map_of (sv_nodes sv) n of
              None \<Rightarrow> sv
            | Some old \<Rightarrow> sv_on (closeWithReason ''replaced by new connection'') old
                            (sv\<lparr>sv_nodes := AList.delete n (sv_nodes sv)\<rparr>)))"

definition he_store :: "nat \<Rightarrow> server \<Rightarrow> server" where
  "he_store r sv =
     sv_goto PcServing r
       (sv\<lparr>sv_nodes := AList.update (es_nodeID (sv_sessions sv ! r)) r (sv_nodes sv)\<rparr>)"

definition he_exit :: "nat \<Rightarrow> server \<Rightarrow> server" where
  "he_exit r sv =
     (let sv1 = sv_on (closeWithReason ''read loop exited'') r sv;
          n = es_nodeID (sv_sessions sv ! r)
      in sv_goto PcGone r
           (if map_of (sv_nodes sv1) n = Some r then sv1\<lparr>sv_nodes := AList.delete n (sv_nodes sv1)\<rparr> else sv1))"

definition getSession :: "string \<Rightarrow> server \<Rightarrow> nat option" where
  "getSession nodeID sv = map_of (sv_nodes sv) nodeID"

definition nodeIDs :: "server \<Rightarrow> string list" where
  "nodeIDs sv = map fst (sv_nodes sv)"

definition requestableNodeIDs :: "server \<Rightarrow> string list" where
  "requestableNodeIDs sv =
     map fst (filter (\<lambda>(n, r). hasCapability ''reverse-http'' (sv_sessions sv ! r)) (sv_nodes sv))"

text \<open>Interleaved goroutines: each action is possible where the goroutine has got to.\<close>

inductive sv_step :: "server \<Rightarrow> server \<Rightarrow> bool" where
  sv_accept: "he_accept J first conn sv = (res, sv') \<Longrightarrow> sv_step sv sv'"
| sv_take: "r < length (sv_pc sv) \<Longrightarrow> sv_pc sv ! r = PcAcked \<Longrightarrow> sv_step sv (he_take r sv)"
| sv_store: "r < length (sv_pc sv) \<Longrightarrow> sv_pc sv ! r = PcTaken \<Longrightarrow> sv_step sv (he_store r sv)"
| sv_frame: "r < length (sv_pc sv) \<Longrightarrow> sv_pc sv ! r = PcServing \<Longrightarrow>
    sv_step sv (sv_on (es_dispatch J f) r sv)"
| sv_exit: "r < length (sv_pc sv) \<Longrightarrow> sv_pc sv ! r = PcServing \<Longrightarrow> sv_step sv (he_exit r sv)"

inductive_cases sv_stepE: "sv_step sv sv'"

definition sv_reach :: "string \<Rightarrow> server \<Rightarrow> bool" where
  "sv_reach key sv \<longleftrightarrow> sv_step\<^sup>*\<^sup>* (NewServer key) sv"

section \<open>The dispatch handler\<close>

text \<open>A request as the handler sees it; a header has a name and its values.\<close>

record http_request =
  hr_Method :: string
  hr_Path :: string
  hr_RawQuery :: string
  hr_Host :: string
  hr_Header :: "(string \<times> string list) list"

definition header_get :: "string \<Rightarrow> (string \<times> string list) list \<Rightarrow> string" where
  "header_get k h = (case map_of h k of Some (v # _) \<Rightarrow> v | _ \<Rightarrow> [])"

datatype dispatch_result =
    HttpError nat string "fmt_arg list"
  | Forward nat u32 request_meta

definition dispatch_target :: "http_request \<Rightarrow> string \<times> string" where
  "dispatch_target r =
     (let rest = drop (length ''/dispatch/'') (hr_Path r);
          nodeID = takeWhile (\<lambda>c. c \<noteq> CHR ''/'') rest;
          tail = dropWhile (\<lambda>c. c \<noteq> CHR ''/'') rest;
          targetPath = (if tail = [] then ''/'' else tail)
      in (nodeID, if hr_RawQuery r \<noteq> [] then targetPath @ ''?'' @ hr_RawQuery r else targetPath))"

definition handleDispatch :: "http_request \<Rightarrow> server \<Rightarrow> dispatch_result \<times> server" where
  "handleDispatch r sv =
     (if sv_pushAPIKey sv \<noteq> [] \<and> header_get ''Authorization'' (hr_Header r) \<noteq> ''Bearer '' @ sv_pushAPIKey sv
      then (HttpError 401 ''unauthorized'' [], sv)
      else if drop (length ''/dispatch/'') (hr_Path r) = []
      then (HttpError 400 ''path must be /dispatch/{node_id}/{path}'' [], sv)
      else let (nodeID, targetPath) = dispatch_target r
           in case getSession nodeID sv of
                None \<Rightarrow> (HttpError 502 ''node %q not connected'' [ArgStr nodeID], sv)
              | Some sess \<Rightarrow>
                  if \<not> hasCapability ''reverse-http'' (sv_sessions sv ! sess)
                  then (HttpError 502 ''node %q does not accept requests'' [ArgStr nodeID], sv)
                  else let fwd = filter (\<lambda>(k, v). \<not> equal_fold k ''Authorization'') (hr_Header r);
                           (sid, next) = allocStreamID (sv_nextSID sv)
                       in (Forward sess sid \<lparr>rq_Method = hr_Method r, rq_URL = targetPath,
                             rq_Host = hr_Host r, rq_Headers = map_of fwd\<rparr>,
                           sv\<lparr>sv_nextSID := next\<rparr>))"

section \<open>Well-formed sessions\<close>

text \<open>The stream table points at live entries of the store, each with the id it is filed under.\<close>

definition es_inv :: "edge_session \<Rightarrow> bool" where
  "es_inv s \<longleftrightarrow> distinct (map fst (es_streams s)) \<and>
     (\<forall>sid i. map_of (es_streams s) sid = Some i \<longrightarrow> i < length (es_store s) \<and> st_ID (es_store s ! i) = sid)"

lemma st_ID_keeps [simp]:
  "st_ID (snd (st_OnHeaders J f st)) = st_ID st" "st_ID (snd (st_OnData f st)) = st_ID st"
  "st_ID (st_OnRST r st) = st_ID st" "st_ID (st_Close st) = st_ID st"
  "st_ID (st_OnWindowUpdate p st) = st_ID st"
  by (auto simp: st_OnHeaders_def st_OnData_def st_set_body_def st_OnRST_def st_Close_def
      st_OnWindowUpdate_def Let_def split: prod.splits option.splits)

lemma es_on_simps [simp]:
  "es_streams (es_on h i s) = es_streams s" "es_conn (es_on h i s) = es_conn s"
  "es_nodeID (es_on h i s) = es_nodeID s" "es_once (es_on h i s) = es_once s"
  "es_cancelled (es_on h i s) = es_cancelled s" "length (es_store (es_on h i s)) = length (es_store s)"
  "es_capabilities (es_on h i s) = es_capabilities s" "es_pongs (es_on h i s) = es_pongs s"
  by (simp_all add: es_on_def)

lemma es_store_on_Nil [simp]: "es_store (es_on h i s) = [] \<longleftrightarrow> es_store s = []"
  by (simp add: es_on_def)

lemma es_send_simps [simp]:
  "es_streams (snd (es_send f s)) = es_streams s" "es_store (snd (es_send f s)) = es_store s"
  "es_nodeID (snd (es_send f s)) = es_nodeID s" "es_once (snd (es_send f s)) = es_once s"
  "es_cancelled (snd (es_send f s)) = es_cancelled s"
  "es_capabilities (snd (es_send f s)) = es_capabilities s" "es_pongs (snd (es_send f s)) = es_pongs s"
  by (simp_all add: es_send_def split: prod.split)

lemma es_store_on:
  "j < length (es_store s) \<Longrightarrow> es_store (es_on h i s) ! j = (if j = i then h (es_store s ! i) else es_store s ! j)"
  by (simp add: es_on_def nth_list_update)

lemma es_inv_cong:
  "es_inv s \<Longrightarrow> es_streams s' = es_streams s \<Longrightarrow> es_store s' = es_store s \<Longrightarrow> es_inv s'"
  by (simp add: es_inv_def)

lemma es_inv_on: "es_inv s \<Longrightarrow> (st_ID (h (es_store s ! i)) = st_ID (es_store s ! i)) \<Longrightarrow> es_inv (es_on h i s)"
  by (auto simp: es_inv_def es_store_on)

lemma es_inv_send: "es_inv s \<Longrightarrow> es_inv (snd (es_send f s))"
  by (rule es_inv_cong) simp_all

lemma es_inv_remove: "es_inv s \<Longrightarrow> es_inv (removeStream sid s)"
  by (auto simp: es_inv_def removeStream_def AList.distinct_delete AList.delete_conv' split: if_splits)

text \<open>The store after a close: every stream that was in the table has been reset.\<close>

definition reset_all :: "string \<Rightarrow> (u32 \<times> nat) list \<Rightarrow> edge_session \<Rightarrow> edge_session" where
  "reset_all reason l s = fold (\<lambda>(sid, i). es_on (st_OnRST (''session closed: '' @ reason)) i) l s"

lemma reset_all_Nil [simp]: "reset_all reason [] s = s"
  by (simp add: reset_all_def)

lemma reset_all_Cons [simp]:
  "reset_all reason ((sid, i) # l) s = reset_all reason l (es_on (st_OnRST (''session closed: '' @ reason)) i s)"
  by (simp add: reset_all_def)

lemma reset_all_simps [simp]:
  "es_streams (reset_all reason l s) = es_streams s" "es_conn (reset_all reason l s) = es_conn s"
  "es_nodeID (reset_all reason l s) = es_nodeID s" "es_once (reset_all reason l s) = es_once s"
  "es_cancelled (reset_all reason l s) = es_cancelled s"
  "length (es_store (reset_all reason l s)) = length (es_store s)"
  "es_capabilities (reset_all reason l s) = es_capabilities s" "es_pongs (reset_all reason l s) = es_pongs s"
  by (induction l arbitrary: s) auto

lemma st_OnRST_idem: "st_OnRST r (st_OnRST r st) = st_OnRST r st"
  by (simp add: st_OnRST_def st_Close_def sp_CloseWrite_def Let_def)

lemma reset_all_store:
  "j < length (es_store s) \<Longrightarrow> es_store (reset_all reason l s) ! j =
    (if j \<in> snd ` set l then st_OnRST (''session closed: '' @ reason) (es_store s ! j) else es_store s ! j)"
proof (induction l arbitrary: s)
  case (Cons p l)
  then show ?case by (cases p) (auto simp: es_store_on st_OnRST_idem)
qed simp

lemma closeWithReason_unfold:
  "closeWithReason reason s = (if es_once s then s
     else (reset_all reason (es_streams s)
            (s\<lparr>es_once := True, es_cancelled := True, es_conn := mc_Close (es_conn s)\<rparr>))\<lparr>es_streams := []\<rparr>)"
  by (simp add: closeWithReason_def reset_all_def Let_def)

lemma closeWithReason_simps [simp]:
  "es_once (closeWithReason reason s)" "length (es_store (closeWithReason reason s)) = length (es_store s)"
  "es_nodeID (closeWithReason reason s) = es_nodeID s"
  "es_capabilities (closeWithReason reason s) = es_capabilities s"
  "closeWithReason r2 (closeWithReason reason s) = closeWithReason reason s"
  by (simp_all add: closeWithReason_unfold)

lemma es_inv_close: "es_inv s \<Longrightarrow> es_inv (closeWithReason reason s)"
  by (simp add: closeWithReason_unfold es_inv_def)

lemma es_inv_dispatch:
  assumes "es_inv s"
  shows "es_inv (es_dispatch J f s)"
proof (cases "StreamID f = ControlStreamID")
  case True
  have "es_inv (s\<lparr>es_pongs := n\<rparr>)" for n using assms by (simp add: es_inv_def)
  with True assms es_inv_send show ?thesis by (simp add: es_dispatch_def handleControlFrame_def)
next
  case False
  have "es_inv (handleStreamFrame J f s)"
  proof (cases "map_of (es_streams s) (StreamID f)")
    case (Some i)
    obtain r st where o: "st_OnData f (es_store s ! i) = (r, st)" by fastforce
    have st: "st_ID st = st_ID (es_store s ! i)" using st_ID_keeps(2) [of f "es_store s ! i"] o by simp
    from Some assms o st show ?thesis
      by (auto simp: handleStreamFrame_def intro!: es_inv_on es_inv_remove es_inv_close es_inv_send
          split: option.split)
  qed (use assms in \<open>simp add: handleStreamFrame_def\<close>)
  with False assms show ?thesis by (simp add: es_dispatch_def)
qed

lemma es_inv_new: "es_inv (newEdgeSession n c)"
  by (simp add: es_inv_def newEdgeSession_def)

section \<open>Sending leaves the receiving half of a stream alone\<close>

definition same_recv :: "mstream \<Rightarrow> mstream \<Rightarrow> bool" where
  "same_recv s s' \<longleftrightarrow> (\<exists>a b. s' = s\<lparr>st_sendWindowReq := a, st_sendWindowResp := b\<rparr>)"

lemma same_recv_refl [simp, intro]: "same_recv s s"
  by (cases s) (auto simp: same_recv_def)

lemma same_recv_trans: "same_recv a b \<Longrightarrow> same_recv b c \<Longrightarrow> same_recv a c"
  by (auto simp: same_recv_def) blast

lemma same_recv_windows [simp]:
  "same_recv s (s\<lparr>st_sendWindowReq := a\<rparr>)" "same_recv s (s\<lparr>st_sendWindowResp := b\<rparr>)"
  by (cases s; auto simp: same_recv_def)+

lemma same_recv_fields:
  "same_recv s s' \<Longrightarrow> st_ID s' = st_ID s \<and> (stuck_in_request s' \<longleftrightarrow> stuck_in_request s)"
  by (auto simp: same_recv_def stuck_in_request_def st_Phase_def)

lemma st_SendBody_iter_recv:
  "st_SendBody_iter wfr ctx dir sc s c = SendLoops sc' s' c' \<Longrightarrow> same_recv s s'"
  "st_SendBody_iter wfr ctx dir sc s c = SendReturns r s' c' \<Longrightarrow> same_recv s s'"
  by (auto simp: st_SendBody_iter_def Let_def split: if_splits prod.splits option.splits acquire_res.splits)

lemma st_SendBodyWithFlowControl_recv:
  "st_SendBodyWithFlowControl wfr ctx dir sc s c = SendDone r s' c' \<Longrightarrow> same_recv s s'"
  "st_SendBodyWithFlowControl wfr ctx dir sc s c = SendBlocked sc' s' c' \<Longrightarrow> same_recv s s'"
proof (induction wfr ctx dir sc s c rule: st_SendBodyWithFlowControl.induct)
  case (1 wfr ctx dir sc s c)
  {
    case 1
    then show ?case
      using st_SendBody_iter_recv [of wfr ctx dir sc s c] "1.IH"(1)
      by (auto simp: st_SendBodyWithFlowControl.simps [of wfr ctx dir sc] intro: same_recv_trans
          split: send_iter.splits)
  next
    case 2
    then show ?case
      using st_SendBody_iter_recv [of wfr ctx dir sc s c] "1.IH"(2)
      by (auto simp: st_SendBodyWithFlowControl.simps [of wfr ctx dir sc] intro: same_recv_trans
          split: send_iter.splits)
  }
qed

lemma st_SendBody_recv:
  "st_SendBody wfr ctx dir body s c = SendDone r s' c' \<Longrightarrow> same_recv s s'"
  "st_SendBody wfr ctx dir body s c = SendBlocked sc' s' c' \<Longrightarrow> same_recv s s'"
  by (auto simp: st_SendBody_def st_SendBodyWithFlowControl_recv split: option.splits prod.splits)

section \<open>Everything that happens to a session\<close>

datatype es_event =
    SeFrame frame
  | SeRequest "go_error option" u32 request_meta "read_script option"
  | SeCredit "go_error option" u32 nat read_script
  | SePing ping_event int int
  | SeClose string

fun es_apply :: "codec \<Rightarrow> es_event \<Rightarrow> edge_session \<Rightarrow> edge_session" where
  "es_apply J (SeFrame f) s = es_dispatch J f s"
| "es_apply J (SeRequest ctx sid meta body) s = snd (DoRequest_send J ctx sid meta body s)"
| "es_apply J (SeCredit ctx sid i sc) s = snd (dr_send_body ctx sid i (Some sc) s)"
| "es_apply J (SePing ev now lastPong) s = snd (es_pingLoop_step ev now lastPong s)"
| "es_apply J (SeClose reason) s = closeWithReason reason s"

definition all_stuck :: "edge_session \<Rightarrow> bool" where
  "all_stuck s \<longleftrightarrow> (\<forall>i < length (es_store s). stuck_in_request (es_store s ! i))"

lemma stuck_handlers:
  "stuck_in_request st \<Longrightarrow> stuck_in_request (snd (st_OnHeaders J f st))"
  "stuck_in_request st \<Longrightarrow> stuck_in_request (st_OnRST r st)"
  "stuck_in_request st \<Longrightarrow> stuck_in_request (st_OnWindowUpdate p st)"
  "stuck_in_request st \<Longrightarrow> stuck_in_request (st_Close st)"
  using stuck_event [of st J "EvHeaders f"] stuck_event [of st _ "EvRST r"]
    stuck_event [of st _ "EvWindowUpdate p"] stuck_event [of st _ EvClose] by simp_all

lemma all_stuck_cong: "all_stuck s \<Longrightarrow> es_store s' = es_store s \<Longrightarrow> all_stuck s'"
  by (simp add: all_stuck_def)

lemma all_stuck_on:
  "all_stuck s \<Longrightarrow> (i < length (es_store s) \<Longrightarrow> stuck_in_request (es_store s ! i) \<Longrightarrow> stuck_in_request (h (es_store s ! i)))
    \<Longrightarrow> all_stuck (es_on h i s)"
  by (auto simp: all_stuck_def es_store_on)

lemma all_stuck_send: "all_stuck s \<Longrightarrow> all_stuck (snd (es_send f s))"
  by (rule all_stuck_cong) simp_all

lemma all_stuck_remove: "all_stuck s \<Longrightarrow> all_stuck (removeStream sid s)"
  by (simp add: all_stuck_def removeStream_def)

lemma all_stuck_close: "all_stuck s \<Longrightarrow> all_stuck (closeWithReason reason s)"
  by (auto simp: closeWithReason_unfold all_stuck_def reset_all_store stuck_handlers)

lemma all_stuck_cleanup: "all_stuck s \<Longrightarrow> all_stuck (dr_cleanup sid i s)"
  unfolding dr_cleanup_def by (rule all_stuck_on) (simp_all add: all_stuck_remove stuck_handlers)

lemma all_stuck_control:
  assumes "all_stuck s" shows "all_stuck (handleControlFrame f s)"
proof -
  have "all_stuck (s\<lparr>es_pongs := es_pongs s + 1\<rparr>)" using assms by (simp add: all_stuck_def)
  then show ?thesis using assms all_stuck_send [OF assms] by (simp add: handleControlFrame_def)
qed

lemma all_stuck_dispatch:
  assumes "all_stuck s" shows "all_stuck (es_dispatch J f s)"
proof (cases "StreamID f = ControlStreamID \<or> map_of (es_streams s) (StreamID f) = None")
  case True
  with assms all_stuck_control [OF assms] show ?thesis
    by (simp add: es_dispatch_def) (auto simp: handleStreamFrame_def)
next
  case False
  then obtain i where i: "map_of (es_streams s) (StreamID f) = Some i" by auto
  obtain r st where o: "st_OnData f (es_store s ! i) = (r, st)" by fastforce
  have st: "all_stuck (es_on (\<lambda>_. st) i s)"
    using assms stuck_OnData [of "es_store s ! i" f] o by (intro all_stuck_on) auto
  have h: "all_stuck (es_on (\<lambda>st. snd (st_OnHeaders J f st)) i s)"
    "all_stuck (es_on (st_OnWindowUpdate (Payload f)) i s)" "all_stuck (es_on (st_OnRST reason) i s)" for reason
    by (rule all_stuck_on [OF assms]; simp add: stuck_handlers)+
  from assms False i o st h show ?thesis
    by (simp add: es_dispatch_def handleStreamFrame_def all_stuck_remove all_stuck_close all_stuck_send
        split: option.split)
qed

lemma all_stuck_send_body:
  assumes "all_stuck s" shows "all_stuck (snd (dr_send_body ctx sid i body s))"
proof -
  have on: "all_stuck (es_on (\<lambda>_. st) i (s\<lparr>es_conn := c\<rparr>))" if "same_recv (es_store s ! i) st" for st c
    using assms same_recv_fields [OF that] by (intro all_stuck_on) (auto simp: all_stuck_def)
  then show ?thesis
    using st_SendBody_recv [of mc_WriteFrame ctx WinDirRequest body "es_store s ! i" "es_conn s"]
    by (auto simp: dr_send_body_def intro!: all_stuck_cleanup split: send_out.splits option.splits)
qed

lemma stuck_new: "stuck_in_request (NewStream sid)"
  by (simp add: stuck_in_request_def NewStream_def st_Phase_def phaseRequest_def NewStreamPipe_def)

lemma all_stuck_request:
  assumes "all_stuck s" shows "all_stuck (snd (DoRequest_send J ctx sid meta body s))"
proof -
  have "all_stuck (s\<lparr>es_store := es_store s @ [NewStream sid], es_streams := AList.update sid i (es_streams s), es_conn := c\<rparr>)"
    for i c using assms by (auto simp: all_stuck_def nth_append less_Suc_eq stuck_new)
  then show ?thesis
    by (auto simp: DoRequest_send_def Let_def intro!: all_stuck_cleanup all_stuck_send_body
        split: prod.splits option.splits)
qed

lemma all_stuck_event: "all_stuck s \<Longrightarrow> all_stuck (es_apply J ev s)"
proof (cases ev)
  case (SePing e now lastPong)
  moreover have "all_stuck s \<Longrightarrow> all_stuck (s\<lparr>es_pongs := n\<rparr>)" for n by (simp add: all_stuck_def)
  ultimately show "all_stuck s \<Longrightarrow> all_stuck (es_apply J ev s)"
    by (auto simp: es_pingLoop_step_def all_stuck_close all_stuck_send split: ping_event.split)
qed (auto simp: all_stuck_dispatch all_stuck_request all_stuck_send_body all_stuck_close)

lemma all_stuck_events: "all_stuck s \<Longrightarrow> all_stuck (fold (es_apply J) evs s)"
  by (induction evs arbitrary: s) (simp_all add: all_stuck_event)

section \<open>Properties\<close>

text \<open>C37: A reverse request is never answered. Whatever the edge sends and in whatever order
  requests, credit, pings and closes happen, the final \<open>select\<close> of \<open>DoRequest\<close> has no outcome
  but an error: the response headers that it waits for are never put where it looks.\<close>

theorem do_request_never_answers:
  assumes "s = fold (es_apply J) evs (newEdgeSession n conn)" and "i < length (es_store s)"
  shows "\<forall>(r, s') \<in> set (DoRequest_wait J ctx sid i s). \<exists>e. r = Inl e"
proof -
  have "all_stuck (newEdgeSession n conn)" by (simp add: all_stuck_def newEdgeSession_def)
  from all_stuck_events [OF this, of J evs] assms have "st_respHeaders (es_store s ! i) = None"
    by (simp add: all_stuck_def stuck_in_request_def)
  then show ?thesis by (auto simp: DoRequest_wait_def split: option.splits prod.splits)
qed

definition answered_example :: "es_event list" where
  "answered_example =
     [SeRequest None 1 \<lparr>rq_Method = ''GET'', rq_URL = ''/'', rq_Host = [], rq_Headers = Map.empty\<rparr> None,
      SeFrame \<lparr>StreamID = 1, FType = TypeHeaders, FFlags = 0, Payload = [200]\<rparr>,
      SeFrame \<lparr>StreamID = 1, FType = TypeData, FFlags = FlagEndStream, Payload = [1]\<rparr>]"

lemma es_store_dispatch [simp]: "length (es_store (es_dispatch J f s)) = length (es_store s)"
proof -
  have "length (es_store (handleStreamFrame J f s)) = length (es_store s)"
    by (cases "map_of (es_streams s) (StreamID f)")
      (simp_all add: handleStreamFrame_def removeStream_def split: option.split prod.split)
  then show ?thesis by (simp add: es_dispatch_def handleControlFrame_def)
qed

lemma es_store_mono: "length (es_store s) \<le> length (es_store (es_apply J ev s))"
proof (cases ev)
  case (SePing e now lastPong)
  then show ?thesis by (simp add: es_pingLoop_step_def split: ping_event.split)
next
  case (SeRequest ctx sid meta body)
  then show ?thesis
    by (auto simp: DoRequest_send_def dr_send_body_def dr_cleanup_def removeStream_def Let_def
        split: prod.splits option.splits send_out.splits)
next
  case (SeCredit ctx sid i sc)
  then show ?thesis
    by (auto simp: dr_send_body_def dr_cleanup_def removeStream_def
        split: prod.splits option.splits send_out.splits)
qed simp_all

lemma es_store_monos: "length (es_store s) \<le> length (es_store (fold (es_apply J) evs s))"
proof (induction evs arbitrary: s)
  case (Cons ev evs)
  from es_store_mono [of s J ev] Cons.IH [of "es_apply J ev s"] show ?case by simp
qed simp

lemma answered_example_store:
  "0 < length (es_store (fold (es_apply phase_example_codec) answered_example (newEdgeSession ''n1'' c)))"
proof -
  have "0 < length (es_store (es_apply phase_example_codec (hd answered_example) (newEdgeSession ''n1'' c)))"
    by (auto simp: answered_example_def DoRequest_send_def dr_send_body_def dr_cleanup_def removeStream_def Let_def
        newEdgeSession_def split: prod.splits option.splits send_out.splits)
  with es_store_monos [of "es_apply phase_example_codec (hd answered_example) (newEdgeSession ''n1'' c)"
      phase_example_codec "tl answered_example"] show ?thesis
    by (simp add: answered_example_def)
qed

theorem do_request_never_answers_witness:
  "list_all (\<lambda>(r, s'). \<exists>e. r = Inl e) (DoRequest_wait phase_example_codec (Some ErrContext) 1 0
     (fold (es_apply phase_example_codec) answered_example
       (newEdgeSession ''n1'' (NewMuxConn 1000 \<lparr>rd_data = [], rd_err = ErrEOF\<rparr>))))"
  unfolding list_all_iff by (rule do_request_never_answers [OF refl answered_example_store])

text \<open>Closing a session releases everybody who uses it: the connection is closed, every
  stream of the table is reset and the table is empty, streams that had already left it are
  untouched, and every request that waits for a response now returns. A second close, with
  whatever reason, changes nothing.\<close>

theorem session_close_releases:
  assumes "es_inv s" and "\<not> es_once s"
  shows "let s' = closeWithReason reason s in
     es_streams s' = [] \<and> nc_closed (es_conn s') \<and> es_cancelled s' \<and>
     (\<forall>i < length (es_store s). es_store s' ! i =
        (if i \<in> snd ` set (es_streams s) then st_OnRST (''session closed: '' @ reason) (es_store s ! i)
         else es_store s ! i)) \<and>
     (\<forall>J sid i. DoRequest_wait J None sid i s' \<noteq> []) \<and>
     closeWithReason reason2 s' = s'"
  using assms(2) by (simp add: closeWithReason_unfold reset_all_store DoRequest_wait_def mc_Close_def Let_def)

theorem session_close_releases_witness:
  "es_streams (closeWithReason ''ping timeout'' (newEdgeSession ''n1'' (NewMuxConn 5 \<lparr>rd_data = [], rd_err = ErrEOF\<rparr>))) = []"
  using session_close_releases [OF es_inv_new, of "''n1''" "NewMuxConn 5 \<lparr>rd_data = [], rd_err = ErrEOF\<rparr>" "''ping timeout''"]
  by (simp add: newEdgeSession_def Let_def)

text \<open>C27: Streams are isolated from each other. A frame for one stream changes no other stream of
  the session and no other entry of the stream table, unless it breaks flow control, which
  closes the whole session.\<close>

theorem stream_isolation:
  assumes "es_inv s" and "map_of (es_streams s) (StreamID f) = Some i" and "j \<noteq> i" and "j < length (es_store s)"
    and "FType f = TypeData \<Longrightarrow> fst (st_OnData f (es_store s ! i)) = None" and "StreamID f \<noteq> ControlStreamID"
  shows "es_store (es_dispatch J f s) ! j = es_store s ! j \<and>
    (\<forall>sid. sid \<noteq> StreamID f \<longrightarrow> map_of (es_streams (es_dispatch J f s)) sid = map_of (es_streams s) sid) \<and>
    es_inv (es_dispatch J f s)"
proof -
  obtain r st where o: "st_OnData f (es_store s ! i) = (r, st)" by fastforce
  then have r: "FType f = TypeData \<Longrightarrow> r = None" using assms(5) by simp
  have "es_store (es_dispatch J f s) ! j = es_store s ! j \<and>
      (\<forall>sid. sid \<noteq> StreamID f \<longrightarrow> map_of (es_streams (es_dispatch J f s)) sid = map_of (es_streams s) sid)"
    using assms(2-4,6) o r
    by (cases "FType f = TypeData")
      (simp_all add: es_dispatch_def handleStreamFrame_def es_store_on removeStream_def AList.delete_conv')
  with es_inv_dispatch [OF assms(1), of J f] show ?thesis by blast
qed

definition two_streams_example :: edge_session where
  "two_streams_example = (newEdgeSession ''n1'' (NewMuxConn 5 \<lparr>rd_data = [], rd_err = ErrEOF\<rparr>))
     \<lparr>es_store := [NewStream 1, NewStream 3], es_streams := [(1, 0), (3, 1)]\<rparr>"

theorem stream_isolation_witness:
  "es_store (es_dispatch phase_example_codec \<lparr>StreamID = 1, FType = TypeRST, FFlags = 0, Payload = []\<rparr> two_streams_example) ! 1
     = NewStream 3"
proof -
  have "st_ID (NewStream sid) = sid" for sid by (simp add: NewStream_def)
  then have i: "es_inv two_streams_example" and l: "es_store two_streams_example = [NewStream 1, NewStream 3]"
    and m: "map_of (es_streams two_streams_example) 1 = Some 0"
    by (simp_all add: two_streams_example_def es_inv_def)
  show ?thesis
    using stream_isolation [OF i, of "\<lparr>StreamID = 1, FType = TypeRST, FFlags = 0, Payload = []\<rparr>" 0 1 phase_example_codec] l m
    by (simp add: ControlStreamID_def)
qed

section \<open>Stream ids\<close>

fun alloc_ids :: "nat \<Rightarrow> u32 \<Rightarrow> u32 list" where
  "alloc_ids 0 next = []"
| "alloc_ids (Suc k) next = (case allocStreamID next of (sid, next') \<Rightarrow> sid # alloc_ids k next')"

lemma alloc_nonzero: "n \<noteq> 0 \<Longrightarrow> allocStreamID n = (n, n + 2)"
  by (simp add: allocStreamID.simps Let_def)

lemma odd_of_nat_nonzero: "(word_of_nat (2 * m + 1) :: u32) \<noteq> 0"
proof
  assume "(word_of_nat (2 * m + 1) :: u32) = 0"
  then have "(2::nat) ^ 32 dvd 2 * m + 1" by (simp only: word_of_nat_eq_0_iff len_num1 len_bit0 mult_numeral_1_right) simp
  moreover have "(2::nat) dvd 2 ^ 32" by simp
  ultimately have "2 dvd 2 * m + 1" by (rule dvd_trans [rotated])
  then show False by simp
qed

lemma alloc_ids_odd:
  "alloc_ids k (word_of_nat (2 * m + 1)) = map (\<lambda>j. word_of_nat (2 * (m + j) + 1)) [0..<k]"
proof (induction k arbitrary: m)
  case (Suc k)
  have "(word_of_nat (2 * m + 1) :: u32) + word_of_nat 2 = word_of_nat (2 * m + 1 + 2)"
    by (rule of_nat_add [symmetric])
  then have "(word_of_nat (2 * m + 1) :: u32) + 2 = word_of_nat (2 * Suc m + 1)"
    by (simp only: of_nat_numeral mult_Suc_right add.assoc add.commute add.left_commute)
  then have "allocStreamID (word_of_nat (2 * m + 1)) = (word_of_nat (2 * m + 1), word_of_nat (2 * Suc m + 1))"
    using alloc_nonzero [OF odd_of_nat_nonzero [of m]] by metis
  then have "alloc_ids (Suc k) (word_of_nat (2 * m + 1))
      = word_of_nat (2 * (m + 0) + 1) # map (\<lambda>j. word_of_nat (2 * (Suc m + j) + 1)) [0..<k]"
    by (simp only: alloc_ids.simps Suc.IH prod.case add_0_right)
  then show ?case by (simp only: map_upt_Suc add_Suc_shift)
qed simp

section \<open>Properties of the registry and the handler\<close>

text \<open>The first \<open>2 ^ 31\<close> stream ids that a server hands out are odd, different from the
  control stream and pairwise different, and \<open>allocStreamID\<close> returns for every counter value.\<close>

theorem stream_ids_distinct:
  assumes "k \<le> 2 ^ 31"
  shows "distinct (alloc_ids k (sv_nextSID (NewServer key))) \<and>
    (\<forall>sid \<in> set (alloc_ids k (sv_nextSID (NewServer key))). odd (unat sid) \<and> sid \<noteq> ControlStreamID)"
proof -
  have ids: "alloc_ids k (sv_nextSID (NewServer key)) = map (\<lambda>j. word_of_nat (2 * j + 1)) [0..<k]"
    using alloc_ids_odd [of k 0] by (simp add: NewServer_def)
  have u: "unat (word_of_nat (2 * j + 1) :: u32) = 2 * j + 1" if "j < k" for j
    using that assms by (simp add: unat_of_nat del: of_nat_Suc of_nat_add of_nat_mult)
  then have "inj_on (\<lambda>j. word_of_nat (2 * j + 1) :: u32) (set [0..<k])"
    by (intro inj_onI) (metis Suc_eq_plus1 Suc_inject atLeastLessThan_iff mult_cancel1 set_upt zero_neq_numeral)
  then have "distinct (alloc_ids k (sv_nextSID (NewServer key)))" by (simp add: ids distinct_map)
  moreover have "odd (unat sid) \<and> sid \<noteq> ControlStreamID" if "sid \<in> set (alloc_ids k (sv_nextSID (NewServer key)))" for sid
    using that u odd_of_nat_nonzero by (fastforce simp: ids ControlStreamID_def simp del: of_nat_Suc of_nat_add of_nat_mult)
  ultimately show ?thesis by blast
qed

theorem stream_ids_distinct_witness:
  "distinct (alloc_ids 1000000 (sv_nextSID (NewServer ''key'')))"
  using stream_ids_distinct [of 1000000 "''key''"] by simp

definition sv_inv :: "server \<Rightarrow> bool" where
  "sv_inv sv \<longleftrightarrow> length (sv_pc sv) = length (sv_sessions sv) \<and> distinct (map fst (sv_nodes sv)) \<and>
     (\<forall>n r. map_of (sv_nodes sv) n = Some r \<longrightarrow>
        r < length (sv_sessions sv) \<and> es_nodeID (sv_sessions sv ! r) = n \<and> sv_pc sv ! r = PcServing)"

lemma sv_on_simps [simp]:
  "sv_nodes (sv_on h r sv) = sv_nodes sv" "sv_pc (sv_on h r sv) = sv_pc sv"
  "length (sv_sessions (sv_on h r sv)) = length (sv_sessions sv)"
  "sv_nodes (sv_goto pc r sv) = sv_nodes sv" "sv_sessions (sv_goto pc r sv) = sv_sessions sv"
  "length (sv_pc (sv_goto pc r sv)) = length (sv_pc sv)"
  by (simp_all add: sv_on_def sv_goto_def)

lemma sv_on_nodeID:
  "(\<And>s. es_nodeID (h s) = es_nodeID s) \<Longrightarrow> es_nodeID (sv_sessions (sv_on h r sv) ! i) = es_nodeID (sv_sessions sv ! i)"
  by (cases "r < length (sv_sessions sv)") (auto simp: sv_on_def nth_list_update list_update_beyond)

lemma sv_goto_pc: "sv_pc (sv_goto pc r sv) ! i = (if i = r \<and> r < length (sv_pc sv) then pc else sv_pc sv ! i)"
  by (auto simp: sv_goto_def nth_list_update list_update_beyond)

lemma es_dispatch_nodeID: "es_nodeID (es_dispatch J f s) = es_nodeID s"
proof -
  have "es_nodeID (handleStreamFrame J f s) = es_nodeID s"
    by (cases "map_of (es_streams s) (StreamID f)")
      (simp_all add: handleStreamFrame_def removeStream_def split: option.split prod.split)
  then show ?thesis by (simp add: es_dispatch_def handleControlFrame_def)
qed

lemma he_accept_inv:
  assumes "sv_inv sv" and "he_accept J first conn sv = (res, sv')"
  shows "sv_inv sv'"
proof -
  from assms(2) consider "sv' = sv"
    | sess where "sv' = sv\<lparr>sv_sessions := sv_sessions sv @ [sess], sv_pc := sv_pc sv @ [PcAcked]\<rparr>"
    by (auto simp: he_accept_def Let_def split: sum.splits if_splits prod.splits option.splits)
  then show ?thesis
  proof cases
    case 2
    with assms(1) show ?thesis by (fastforce simp: sv_inv_def nth_append)
  qed (use assms in simp)
qed

lemma he_take_inv:
  assumes "sv_inv sv" and "r < length (sv_pc sv)" and "sv_pc sv ! r = PcAcked"
  shows "sv_inv (he_take r sv)"
proof -
  let ?n = "es_nodeID (sv_sessions sv ! r)"
  show ?thesis
  proof (cases "map_of (sv_nodes sv) ?n")
    case None
    with assms show ?thesis by (auto simp: he_take_def Let_def sv_inv_def sv_goto_pc)
  next
    case (Some old)
    with assms show ?thesis
      by (auto simp: he_take_def Let_def sv_inv_def sv_goto_pc sv_on_nodeID AList.distinct_delete AList.delete_conv'
          split: if_splits)
  qed
qed

lemma he_store_inv:
  assumes "sv_inv sv" and "r < length (sv_pc sv)"
  shows "sv_inv (he_store r sv)"
  using assms by (auto simp: he_store_def sv_inv_def sv_goto_pc AList.distinct_update AList.update_conv' split: if_splits)

lemma he_exit_nodes:
  assumes "sv_inv sv"
  shows "map_of (sv_nodes (he_exit r sv)) n = (if map_of (sv_nodes sv) n = Some r then None else map_of (sv_nodes sv) n)"
proof -
  have own: "n = es_nodeID (sv_sessions sv ! r)" if "map_of (sv_nodes sv) n = Some r"
    using assms that unfolding sv_inv_def by blast
  let ?N = "es_nodeID (sv_sessions sv ! r)"
  have nodes: "sv_nodes (he_exit r sv) = (if map_of (sv_nodes sv) ?N = Some r then AList.delete ?N (sv_nodes sv) else sv_nodes sv)"
    by (simp add: he_exit_def Let_def)
  show ?thesis
  proof (cases "n = ?N")
    case True
    then show ?thesis by (simp add: nodes AList.delete_conv')
  next
    case False
    with own have "map_of (sv_nodes sv) n \<noteq> Some r" by blast
    with False show ?thesis by (simp add: nodes)
  qed
qed

lemma he_exit_pc:
  assumes "sv_inv sv" and "r < length (sv_pc sv)"
  shows "sv_pc (he_exit r sv) ! i = (if i = r then PcGone else sv_pc sv ! i)"
    and "length (sv_pc (he_exit r sv)) = length (sv_pc sv)"
    and "length (sv_sessions (he_exit r sv)) = length (sv_sessions sv)"
    and "es_nodeID (sv_sessions (he_exit r sv) ! i) = es_nodeID (sv_sessions sv ! i)"
    and "distinct (map fst (sv_nodes (he_exit r sv)))"
proof -
  have "distinct (map fst (sv_nodes sv))" using assms by (simp add: sv_inv_def)
  then show "distinct (map fst (sv_nodes (he_exit r sv)))"
    by (simp add: he_exit_def Let_def AList.distinct_delete)
qed (use assms(2) in \<open>simp_all add: he_exit_def Let_def sv_goto_pc sv_on_nodeID\<close>)

lemma he_exit_inv:
  assumes "sv_inv sv" and "r < length (sv_pc sv)"
  shows "sv_inv (he_exit r sv)"
proof -
  have "r' < length (sv_sessions sv) \<and> es_nodeID (sv_sessions sv ! r') = n \<and> sv_pc sv ! r' = PcServing"
    if "map_of (sv_nodes sv) n = Some r'" for n r' using assms(1) that unfolding sv_inv_def by blast
  moreover have "length (sv_pc sv) = length (sv_sessions sv)" using assms(1) by (simp add: sv_inv_def)
  ultimately show ?thesis
    unfolding sv_inv_def he_exit_nodes [OF assms(1)] he_exit_pc(1-4) [OF assms]
    using he_exit_pc(5) [OF assms] by (auto split: if_splits)
qed

lemma sv_step_inv: "sv_step sv sv' \<Longrightarrow> sv_inv sv \<Longrightarrow> sv_inv sv'"
proof (induction rule: sv_step.induct)
  case (sv_frame r sv J f)
  then show ?case by (auto simp: sv_inv_def sv_on_nodeID es_dispatch_nodeID)
qed (auto intro: he_accept_inv he_take_inv he_store_inv he_exit_inv)

lemma sv_reach_inv: "sv_reach key sv \<Longrightarrow> sv_inv sv"
  unfolding sv_reach_def
proof (induction rule: rtranclp_induct)
  case base
  show ?case by (simp add: sv_inv_def NewServer_def)
qed (blast intro: sv_step_inv)



text \<open>A registration that is not interleaved with another replaces the node's session: the
  node id leads to the new session, the old one (if there was one) is closed with all its
  streams reset, and no other node is affected.\<close>

theorem registration_replaces:
  assumes "sv_reach key sv" and "r < length (sv_pc sv)" and "sv_pc sv ! r = PcAcked"
    and "es_nodeID (sv_sessions sv ! r) = n"
  shows "let sv' = he_store r (he_take r sv) in
     getSession n sv' = Some r \<and>
     (\<forall>m. m \<noteq> n \<longrightarrow> getSession m sv' = getSession m sv) \<and>
     (\<forall>old. getSession n sv = Some old \<longrightarrow> old \<noteq> r \<and> es_once (sv_sessions sv' ! old) \<and>
        sv_sessions sv' ! old = closeWithReason ''replaced by new connection'' (sv_sessions sv ! old))"
proof -
  have i: "sv_inv sv" using sv_reach_inv [OF assms(1)] .
  have id: "es_nodeID (sv_sessions (he_take r sv) ! r) = n"
    using assms(4) by (simp add: he_take_def Let_def sv_on_nodeID split: option.split)
  have old: "old \<noteq> r \<and> old < length (sv_sessions sv)" if "map_of (sv_nodes sv) n = Some old" for old
    using i that assms(3) unfolding sv_inv_def by force
  show ?thesis
    using id old assms(4)
    by (auto simp: Let_def getSession_def he_store_def he_take_def AList.update_conv' AList.delete_conv'
        sv_on_def sv_goto_def nth_list_update split: option.splits)
qed

definition registering_codec :: codec where
  "registering_codec = phase_example_codec\<lparr>dec_register := (\<lambda>bs. (None,
     \<lparr>rm_NodeID = of_bytes bs, rm_PushSubs = [], rm_PushResume = Map.empty, rm_Capabilities = [], rm_Metadata = Map.empty\<rparr>))\<rparr>"

definition n1_register :: frame where
  "n1_register = \<lparr>StreamID = 0, FType = TypeRegister, FFlags = 0, Payload = to_bytes ''n1''\<rparr>"

definition fresh_conn :: mux_conn where
  "fresh_conn = NewMuxConn 100 \<lparr>rd_data = [], rd_err = ErrEOF\<rparr>"

definition n1_session :: edge_session where
  "n1_session = newEdgeSession ''n1''
     (snd (mc_WriteFrame fresh_conn \<lparr>StreamID = 0, FType = TypeRegisterAck, FFlags = 0, Payload = []\<rparr>))"

lemma n1_accept:
  "he_accept registering_codec (Inr n1_register) fresh_conn sv =
     (None, sv\<lparr>sv_sessions := sv_sessions sv @ [n1_session], sv_pc := sv_pc sv @ [PcAcked]\<rparr>)"
proof -
  have "fst (mc_WriteFrame fresh_conn \<lparr>StreamID = 0, FType = TypeRegisterAck, FFlags = 0, Payload = []\<rparr>) = None"
    by (simp add: fresh_conn_def mc_WriteFrame_def frame_write_to_def bw_write_def bw_flush_def net_write_def
        NewMuxConn_def frame_header_def put_u32_def MaxPayloadSize_def bw_size_def)
  moreover obtain r c where "mc_WriteFrame fresh_conn \<lparr>StreamID = 0, FType = TypeRegisterAck, FFlags = 0, Payload = []\<rparr> = (r, c)"
    by fastforce
  ultimately show ?thesis
    by (simp add: he_accept_def registering_codec_def phase_example_codec_def n1_register_def wire_simps
        es_send_def newEdgeSession_def n1_session_def Let_def)
qed

definition two_acked :: "string \<Rightarrow> server" where
  "two_acked key = (NewServer key)\<lparr>sv_sessions := [n1_session, n1_session], sv_pc := [PcAcked, PcAcked]\<rparr>"

lemma two_acked_reach: "sv_step\<^sup>*\<^sup>* (NewServer key) (two_acked key)"
proof -
  let ?s1 = "(NewServer key)\<lparr>sv_sessions := [n1_session], sv_pc := [PcAcked]\<rparr>"
  have "sv_step (NewServer key) ?s1"
    using sv_step.sv_accept [OF n1_accept, of "NewServer key"] by (simp add: NewServer_def)
  moreover have "sv_step ?s1 (two_acked key)"
    using sv_step.sv_accept [OF n1_accept, of ?s1] by (simp add: two_acked_def NewServer_def)
  ultimately show ?thesis by (meson converse_rtranclp_into_rtranclp rtranclp.rtrancl_refl)
qed

theorem registration_replaces_witness:
  "getSession ''n1'' (he_store 1 (he_take 1 (two_acked ''k''))) = Some 1"
  using registration_replaces [of "''k''" "two_acked ''k''" 1 "''n1''"] two_acked_reach [of "''k''"]
  by (simp add: sv_reach_def two_acked_def Let_def n1_session_def newEdgeSession_def)

text \<open>Two registrations of the same node that overlap can leave a session behind: both look
  for an old session before either is stored, so both stay open and serve frames, but only the
  second is in the registry and the first can no longer be reached or replaced.\<close>

theorem registration_race:
  "\<exists>sv. sv_reach key sv \<and> sv_pc sv = [PcServing, PcServing] \<and>
     es_nodeID (sv_sessions sv ! 0) = ''n1'' \<and> es_nodeID (sv_sessions sv ! 1) = ''n1'' \<and>
     \<not> es_once (sv_sessions sv ! 0) \<and> \<not> es_once (sv_sessions sv ! 1) \<and>
     sv_nodes sv = [(''n1'', 1)]"
proof -
  let ?a = "two_acked key"
  let ?b = "he_take 0 ?a" let ?c = "he_take 1 ?b" let ?d = "he_store 0 ?c" let ?e = "he_store 1 ?d"
  have ns: "es_nodeID n1_session = ''n1''" "\<not> es_once n1_session"
    by (simp_all add: n1_session_def newEdgeSession_def)
  have s: "?b = ?a\<lparr>sv_pc := [PcTaken, PcAcked]\<rparr>" "?c = ?a\<lparr>sv_pc := [PcTaken, PcTaken]\<rparr>"
    "?d = ?a\<lparr>sv_pc := [PcServing, PcTaken], sv_nodes := [(''n1'', 0)]\<rparr>"
    "?e = ?a\<lparr>sv_pc := [PcServing, PcServing], sv_nodes := [(''n1'', 1)]\<rparr>"
    by (simp_all add: two_acked_def NewServer_def he_take_def he_store_def sv_goto_def ns Let_def)
  have "sv_step ?a ?b" by (rule sv_step.sv_take) (simp_all add: two_acked_def)
  moreover have "sv_step ?b ?c" by (rule sv_step.sv_take) (simp_all add: s(1))
  moreover have "sv_step ?c ?d" by (rule sv_step.sv_store) (simp_all add: s(2) del: One_nat_def)
  moreover have "sv_step ?d ?e" by (rule sv_step.sv_store) (simp_all add: s(3) del: One_nat_def)
  ultimately have "sv_step\<^sup>*\<^sup>* ?a ?e" by (meson converse_rtranclp_into_rtranclp rtranclp.rtrancl_refl)
  with two_acked_reach have "sv_reach key ?e" unfolding sv_reach_def by (rule rtranclp_trans)
  then have "sv_reach key (?a\<lparr>sv_pc := [PcServing, PcServing], sv_nodes := [(''n1'', 1)]\<rparr>)"
    by (simp only: s(4))
  then show ?thesis
    by (intro exI [of _ "?a\<lparr>sv_pc := [PcServing, PcServing], sv_nodes := [(''n1'', 1)]\<rparr>"])
      (simp add: two_acked_def ns)
qed

text \<open>A request is forwarded only when it may be: the API key (when one is set) was presented,
  the node is connected and offers \<open>reverse-http\<close>; the method and host are kept, the
  \<open>Authorization\<close> header is removed under every spelling of its case and no other header is
  lost, and the stream id is not the control stream's.\<close>

theorem dispatch_forwards:
  assumes "handleDispatch r sv = (Forward sess sid meta, sv')"
  shows "(sv_pushAPIKey sv = [] \<or> header_get ''Authorization'' (hr_Header r) = ''Bearer '' @ sv_pushAPIKey sv) \<and>
    getSession (fst (dispatch_target r)) sv = Some sess \<and>
    ''reverse-http'' \<in> set (es_capabilities (sv_sessions sv ! sess)) \<and>
    rq_Method meta = hr_Method r \<and> rq_Host meta = hr_Host r \<and> rq_URL meta = snd (dispatch_target r) \<and>
    (\<forall>k. rq_Headers meta k = (if equal_fold k ''Authorization'' then None else map_of (hr_Header r) k)) \<and>
    sid \<noteq> ControlStreamID"
proof -
  have hd: "map_of (filter (\<lambda>(k, v). \<not> equal_fold k ''Authorization'') h) k
      = (if equal_fold k ''Authorization'' then None else map_of h k)" for h :: "(string \<times> string list) list" and k
    by (induction h) auto
  have nz: "fst (allocStreamID n) \<noteq> 0" for n
    by (cases "n = 0") (simp_all add: alloc_nonzero allocStreamID.simps [of 0] Let_def)
  show ?thesis
    using assms nz [of "sv_nextSID sv"]
    by (auto simp: handleDispatch_def hd hasCapability_def list_ex_iff ControlStreamID_def Let_def
        split: if_splits option.splits prod.splits)
qed

definition forward_server :: server where
  "forward_server = (NewServer ''k'')\<lparr>sv_nodes := [(''n1'', 0)],
     sv_sessions := [n1_session\<lparr>es_capabilities := [''reverse-http'']\<rparr>], sv_pc := [PcServing]\<rparr>"

definition forward_request :: http_request where
  "forward_request = \<lparr>hr_Method = ''POST'', hr_Path = ''/dispatch/n1/v1'', hr_RawQuery = ''a=b'', hr_Host = ''h'',
     hr_Header = [(''Authorization'', [''Bearer k'']), (''X-Id'', [''7''])]\<rparr>"

lemma forward_example:
  "\<exists>meta sv'. handleDispatch forward_request forward_server = (Forward 0 1 meta, sv')"
  by (simp add: handleDispatch_def forward_request_def forward_server_def NewServer_def header_get_def
      dispatch_target_def getSession_def hasCapability_def alloc_nonzero)

theorem dispatch_forwards_witness:
  "\<exists>meta sv'. handleDispatch forward_request forward_server = (Forward 0 1 meta, sv') \<and>
     rq_URL meta = ''/v1?a=b'' \<and> rq_Headers meta ''X-Id'' = Some [''7''] \<and> rq_Headers meta ''authorization'' = None"
proof -
  obtain meta sv' where f: "handleDispatch forward_request forward_server = (Forward 0 1 meta, sv')"
    using forward_example by blast
  have "equal_fold ''authorization'' ''Authorization''" "\<not> equal_fold ''X-Id'' ''Authorization''"
    by code_simp+
  with dispatch_forwards [OF f] f show ?thesis
    by (auto simp: forward_request_def dispatch_target_def)
qed

text \<open>The path is parsed back into what it was put together from: the node id up to the first
  slash, then the rest with its leading slash (or \<open>/\<close> when there is none) and the query.\<close>

theorem dispatch_target_parses:
  assumes "CHR ''/'' \<notin> set node" and "p = [] \<or> hd p = CHR ''/''" and "hr_Path r = ''/dispatch/'' @ node @ p"
  shows "dispatch_target r = (node, (if p = [] then ''/'' else p) @
    (if hr_RawQuery r = [] then [] else ''?'' @ hr_RawQuery r))"
proof -
  have "takeWhile (\<lambda>c. c \<noteq> CHR ''/'') (node @ p) = node" "dropWhile (\<lambda>c. c \<noteq> CHR ''/'') (node @ p) = p"
    using assms(1,2) by (cases p; auto simp: takeWhile_append dropWhile_append)+
  then show ?thesis by (simp add: dispatch_target_def assms(3) Let_def)
qed

theorem dispatch_target_parses_witness:
  "dispatch_target \<lparr>hr_Method = ''POST'', hr_Path = ''/dispatch/edge-bj-01/api/v1/data'', hr_RawQuery = ''key=val'',
     hr_Host = ''h'', hr_Header = []\<rparr> = (''edge-bj-01'', ''/api/v1/data?key=val'')"
  by (subst dispatch_target_parses [of "''edge-bj-01''" "''/api/v1/data''"]) simp_all

end
