(* ===== verification/RecvBuffer.thy ===== *)
theory RecvBuffer
  imports Ring
begin

text \<open>
  \<^verbatim>\<open>internal/mux/client/buffer.go\<close> (and its copy \<^verbatim>\<open>internal/mux_http/client/buffer.go\<close>, which is
  the same file byte for byte): \<open>RecvBuffer\<close>, the 64 MiB buffer between the connection's read
  loop and the local HTTP consumer, which survives reconnects by \<open>Reopen\<close>.
\<close>

section \<open>State and operations\<close>

record recv_buffer =
  rb_buf :: "byte list"
  rb_head :: nat
  rb_tail :: nat
  rb_size :: nat
  rb_cap :: nat
  rb_closed :: bool
  rb_closeErr :: "go_error option"

definition NewRecvBuffer :: "nat \<Rightarrow> recv_buffer" where
  "NewRecvBuffer capacity =
     \<lparr>rb_buf = replicate capacity 0, rb_head = 0, rb_tail = 0, rb_size = 0, rb_cap = capacity,
      rb_closed = False, rb_closeErr = None\<rparr>"

definition rb_ringWrite :: "byte list \<Rightarrow> recv_buffer \<Rightarrow> recv_buffer" where
  "rb_ringWrite src b =
     b\<lparr>rb_buf := ring_put (rb_cap b) (rb_tail b) src (rb_buf b),
       rb_tail := (rb_tail b + length src) mod rb_cap b,
       rb_size := rb_size b + length src\<rparr>"

definition rb_ringRead :: "nat \<Rightarrow> recv_buffer \<Rightarrow> byte list \<times> recv_buffer" where
  "rb_ringRead n b =
     (ring_get (rb_cap b) (rb_head b) n (rb_buf b),
      b\<lparr>rb_head := (rb_head b + n) mod rb_cap b, rb_size := rb_size b - n\<rparr>)"

text \<open>
  One pass of the loop of \<open>Write\<close>. \<open>ctx\<close> is \<open>ctx.Err()\<close>; \<open>waited\<close> says that this pass
  already waited for room, after which the context is looked at first.
\<close>

definition rb_Write_pass ::
  "go_error option \<Rightarrow> bool \<Rightarrow> recv_buffer \<Rightarrow> byte list \<Rightarrow> recv_buffer write_res" where
  "rb_Write_pass ctx waited b d =
     (if rb_size b = rb_cap b \<and> \<not> rb_closed b \<and> ctx = None then WBlocked
      else if ((rb_size b = rb_cap b \<and> \<not> rb_closed b) \<or> waited) \<and> ctx \<noteq> None then WFailed ctx
      else if rb_closed b then WFailed (rb_closeErr b)
      else let avail = rb_cap b - rb_size b;
               chunk = (if length d > avail then avail else length d)
           in WWrote chunk (rb_ringWrite (take chunk d) b))"

text \<open>
  The whole loop, up to the point where it returns or has to wait with \<open>d\<close> still to write.
  A pass that stores nothing and does not wait would be repeated for ever (\<open>WOSpin\<close>); with
  the invariant this cannot happen.
\<close>

datatype 'q write_out = WODone "go_error option" 'q | WOBlocked "byte list" 'q | WOSpin

function rb_Write :: "go_error option \<Rightarrow> bool \<Rightarrow> recv_buffer \<Rightarrow> byte list \<Rightarrow> recv_buffer write_out" where
  "rb_Write ctx waited b d =
     (if d = [] then WODone None b
      else case rb_Write_pass ctx waited b d of
             WBlocked \<Rightarrow> WOBlocked d b
           | WFailed e \<Rightarrow> WODone e b
           | WWrote n b' \<Rightarrow> if n = 0 then WOSpin else rb_Write ctx False b' (drop n d))"
  by pat_completeness auto
termination
  by (relation "measure (\<lambda>(ctx, waited, b, d). length d)") auto

declare rb_Write.simps [simp del]

definition rb_Read :: "recv_buffer \<Rightarrow> nat \<Rightarrow> recv_buffer read_res" where
  "rb_Read b m =
     (if rb_size b = 0
      then (if rb_closed b then RRet [] (rb_closeErr b) b else RBlocked)
      else let n = (if m > rb_size b then rb_size b else m)
           in case rb_ringRead n b of (bs, b1) \<Rightarrow> RRet bs None b1)"

definition rb_Close :: "go_error option \<Rightarrow> recv_buffer \<Rightarrow> recv_buffer" where
  "rb_Close closeErr b =
     (if rb_closed b then b
      else b\<lparr>rb_closed := True,
             rb_closeErr := Some (case closeErr of None \<Rightarrow> ErrEOF | Some e \<Rightarrow> e)\<rparr>)"

definition rb_Reopen :: "recv_buffer \<Rightarrow> recv_buffer" where
  "rb_Reopen b = (if \<not> rb_closed b then b else b\<lparr>rb_closed := False, rb_closeErr := None\<rparr>)"

definition rb_IsClosed :: "recv_buffer \<Rightarrow> bool" where
  "rb_IsClosed b = rb_closed b"

definition rb_Available :: "recv_buffer \<Rightarrow> nat" where
  "rb_Available b = rb_size b"

section \<open>Abstraction and invariant\<close>

definition rb_content :: "recv_buffer \<Rightarrow> byte list" where
  "rb_content b = ring_list (rb_cap b) (rb_head b) (rb_size b) (rb_buf b)"

definition rb_room :: "recv_buffer \<Rightarrow> nat" where
  "rb_room b = rb_cap b - rb_size b"

text \<open>The error of a closed buffer is never \<open>nil\<close>, and an open one has none.\<close>

definition rb_inv :: "recv_buffer \<Rightarrow> bool" where
  "rb_inv b \<longleftrightarrow> 0 < rb_cap b \<and> rb_head b < rb_cap b \<and> rb_size b \<le> rb_cap b \<and>
     rb_tail b = (rb_head b + rb_size b) mod rb_cap b \<and> length (rb_buf b) = rb_cap b \<and>
     (rb_closed b \<longleftrightarrow> rb_closeErr b \<noteq> None)"

lemma length_rb_content [simp]: "length (rb_content b) = rb_size b"
  by (simp add: rb_content_def)

lemma rb_content_Nil [simp]: "rb_content b = [] \<longleftrightarrow> rb_size b = 0"
  by (metis length_0_conv length_rb_content)

lemma rb_inv_size: "rb_inv b \<Longrightarrow> rb_size b \<le> rb_cap b"
  by (simp add: rb_inv_def)

lemma rb_inv_new [simp]: "0 < n \<Longrightarrow> rb_inv (NewRecvBuffer n)" "rb_content (NewRecvBuffer n) = []"
  by (simp_all add: rb_inv_def NewRecvBuffer_def)

lemma rb_ringWrite_inv:
  assumes "rb_inv b" and "length s \<le> rb_room b"
  shows "rb_inv (rb_ringWrite s b)" and "rb_content (rb_ringWrite s b) = rb_content b @ s"
    and "rb_size (rb_ringWrite s b) = rb_size b + length s"
    and "rb_cap (rb_ringWrite s b) = rb_cap b" and "rb_closed (rb_ringWrite s b) = rb_closed b"
proof -
  have t: "rb_tail b = (rb_head b + rb_size b) mod rb_cap b" "rb_head b < rb_cap b"
    "length (rb_buf b) = rb_cap b"
    and le: "rb_size b + length s \<le> rb_cap b"
    using assms rb_inv_size [OF assms(1)] by (simp_all add: rb_inv_def rb_room_def)
  show "rb_content (rb_ringWrite s b) = rb_content b @ s"
    using ring_put_list [OF t(3,2) le] t by (simp add: rb_content_def rb_ringWrite_def)
  show "rb_inv (rb_ringWrite s b)"
    using assms(1) t le by (auto simp: rb_inv_def rb_ringWrite_def mod_add_left_eq add.assoc)
qed (simp_all add: rb_ringWrite_def)

lemma rb_ringRead_inv:
  assumes "rb_inv b" and "n \<le> rb_size b"
  shows "fst (rb_ringRead n b) = take n (rb_content b)"
    and "rb_inv (snd (rb_ringRead n b))"
    and "rb_content (snd (rb_ringRead n b)) = drop n (rb_content b)"
proof -
  have i: "rb_head b < rb_cap b" "rb_size b \<le> rb_cap b" "length (rb_buf b) = rb_cap b"
    using assms by (auto simp: rb_inv_def)
  show "fst (rb_ringRead n b) = take n (rb_content b)"
    "rb_content (snd (rb_ringRead n b)) = drop n (rb_content b)"
    using i assms(2) by (simp_all add: rb_ringRead_def rb_content_def ring_simps)
  show "rb_inv (snd (rb_ringRead n b))"
    using assms by (auto simp: rb_inv_def rb_ringRead_def ring_simps)
qed

lemma rb_Close_inv [simp]:
  "rb_inv b \<Longrightarrow> rb_inv (rb_Close e b)" "rb_content (rb_Close e b) = rb_content b" "rb_closed (rb_Close e b)"
  by (auto simp: rb_Close_def rb_inv_def rb_content_def)

lemma rb_Reopen_inv [simp]:
  "rb_inv b \<Longrightarrow> rb_inv (rb_Reopen b)" "rb_content (rb_Reopen b) = rb_content b" "\<not> rb_closed (rb_Reopen b)"
  by (auto simp: rb_Reopen_def rb_inv_def rb_content_def)

lemma rb_Read_cases:
  assumes "rb_inv b"
  shows "if rb_size b = 0
    then rb_Read b m = (if rb_closed b then RRet [] (rb_closeErr b) b else RBlocked)
    else \<exists>b'. rb_Read b m = RRet (take m (rb_content b)) None b' \<and> rb_inv b' \<and>
      rb_content b' = drop m (rb_content b) \<and> rb_closed b' = rb_closed b"
proof (cases "rb_size b = 0")
  case False
  let ?n = "if m > rb_size b then rb_size b else m"
  have n: "?n \<le> rb_size b" by auto
  note r = rb_ringRead_inv [OF assms n]
  have "rb_Read b m = RRet (take m (rb_content b)) None (snd (rb_ringRead ?n b))"
    using False r(1) by (simp add: rb_Read_def Let_def split_beta split del: if_split)
      (simp add: rb_content_def)
  moreover have "rb_content (snd (rb_ringRead ?n b)) = drop m (rb_content b)"
    unfolding r(3) by simp
  moreover have "rb_closed (snd (rb_ringRead ?n b)) = rb_closed b" by (simp add: rb_ringRead_def)
  ultimately show ?thesis using False r(2) by simp
qed (simp add: rb_Read_def)

lemma rb_Write_pass_open:
  assumes "rb_inv b" and "\<not> rb_closed b" and "d \<noteq> []" and "\<not> waited \<or> ctx = None"
  shows "rb_Write_pass ctx waited b d =
    (if rb_room b = 0 then (if ctx = None then WBlocked else WFailed ctx)
     else WWrote (min (length d) (rb_room b)) (rb_ringWrite (take (rb_room b) d) b))"
proof -
  have c: "(if rb_cap b - rb_size b < length d then rb_cap b - rb_size b else length d) = min (length d) (rb_room b)"
    by (simp add: rb_room_def min_def)
  note t = take_min_length [of d "rb_room b"]
  show ?thesis
    using assms rb_inv_size [OF assms(1)]
    by (auto simp: rb_Write_pass_def Let_def c t [unfolded rb_room_def] rb_room_def)
qed

section \<open>An open buffer is a bounded byte queue\<close>

definition rb_open_inv :: "recv_buffer \<Rightarrow> bool" where
  "rb_open_inv b \<longleftrightarrow> rb_inv b \<and> \<not> rb_closed b"

interpretation recv_fifo: byte_fifo "rb_Write_pass None False" rb_Read rb_content rb_room rb_open_inv
proof
  fix b :: recv_buffer and d :: "byte list"
  assume b: "rb_open_inv b" "d \<noteq> []"
  then have i: "rb_inv b" "\<not> rb_closed b" by (simp_all add: rb_open_inv_def)
  have "length (take (rb_room b) d) \<le> rb_room b" by simp
  note w = rb_ringWrite_inv [OF i(1) this]
  show "if rb_room b = 0 then rb_Write_pass None False b d = WBlocked
       else \<exists>q'. rb_Write_pass None False b d = WWrote (min (length d) (rb_room b)) q' \<and> rb_open_inv q' \<and>
              rb_content q' = rb_content b @ take (min (length d) (rb_room b)) d"
    using rb_Write_pass_open [OF i b(2), of False None] w i
    by (simp add: rb_open_inv_def take_min_length)
next
  fix b :: recv_buffer and m :: nat
  assume b: "rb_open_inv b"
  then have i: "rb_inv b" "\<not> rb_closed b" by (simp_all add: rb_open_inv_def)
  show "if rb_content b = [] then rb_Read b m = RBlocked
    else \<exists>q'. rb_Read b m = RRet (take m (rb_content b)) None q' \<and> rb_open_inv q' \<and>
      rb_content q' = drop m (rb_content b)"
    using rb_Read_cases [OF i(1), of m] i by (auto simp: rb_open_inv_def split: if_splits)
next
  fix b :: recv_buffer
  assume "rb_open_inv b" "rb_room b = 0"
  then show "rb_content b \<noteq> []" by (auto simp: rb_open_inv_def rb_inv_def rb_room_def)
qed

text \<open>The loop: it stores a prefix, and stops early only when the buffer is full.\<close>

lemma rb_Write_open:
  assumes "rb_inv b" and "\<not> rb_closed b"
  shows "\<exists>b'. rb_inv b' \<and> \<not> rb_closed b' \<and> rb_cap b' = rb_cap b \<and>
    rb_content b' = rb_content b @ take (rb_room b) d \<and>
    rb_Write ctx False b d =
      (if length d \<le> rb_room b then WODone None b'
       else if ctx = None then WOBlocked (drop (rb_room b) d) b' else WODone ctx b')"
proof (cases "d = []")
  case True
  then show ?thesis using assms by (auto simp: rb_Write.simps)
next
  case d: False
  show ?thesis
  proof (cases "rb_room b = 0")
    case True
    then show ?thesis
      using assms d rb_Write_pass_open [OF assms d, of False ctx] by (auto simp: rb_Write.simps)
  next
    case False
    let ?b = "rb_ringWrite (take (rb_room b) d) b"
    have "length (take (rb_room b) d) \<le> rb_room b" by simp
    note w = rb_ringWrite_inv [OF assms(1) this]
    have p: "rb_Write_pass ctx False b d = WWrote (min (length d) (rb_room b)) ?b"
      using rb_Write_pass_open [OF assms d, of False ctx] False by simp
    have n: "min (length d) (rb_room b) \<noteq> 0" using d False by simp
    have unf: "rb_Write ctx False b d = rb_Write ctx False ?b (drop (rb_room b) d)"
    proof (cases "length d \<le> rb_room b")
      case True
      then show ?thesis using p n d by (simp add: rb_Write.simps [of ctx False b])
    next
      case False
      then show ?thesis using p n d by (simp add: rb_Write.simps [of ctx False b] min_def)
    qed
    show ?thesis
    proof (cases "length d \<le> rb_room b")
      case True
      with unf w assms(2) show ?thesis by (simp add: rb_Write.simps)
    next
      case len: False
      then have r: "drop (rb_room b) d \<noteq> []" "rb_room ?b = 0"
        using w(3,4) by (simp_all add: rb_room_def)
      have "rb_Write ctx False ?b (drop (rb_room b) d) =
        (if ctx = None then WOBlocked (drop (rb_room b) d) ?b else WODone ctx ?b)"
        using rb_Write_pass_open [OF w(1) _ r(1), of False ctx] r w(5) assms(2)
        by (simp add: rb_Write.simps)
      with len w assms(2) unf show ?thesis by auto
    qed
  qed
qed

section \<open>Histories across reconnects\<close>

text \<open>
  What the read loop, the consumer and the connection's handlers do to one buffer, in the
  order in which they take its mutex. The state carries the bytes that were stored and the
  bytes that were returned.
\<close>

datatype rb_op =
    OpWrite "go_error option" bool "byte list"
  | OpRead nat
  | OpClose "go_error option"
  | OpReopen

record rb_history =
  rh_buf :: recv_buffer
  rh_in :: "byte list"
  rh_out :: "byte list"

fun rb_step :: "rb_op \<Rightarrow> rb_history \<Rightarrow> rb_history" where
  "rb_step (OpWrite ctx waited d) h =
     (case rb_Write_pass ctx waited (rh_buf h) d of
        WWrote n b \<Rightarrow> h\<lparr>rh_buf := b, rh_in := rh_in h @ take n d\<rparr>
      | _ \<Rightarrow> h)"
| "rb_step (OpRead m) h =
     (case rb_Read (rh_buf h) m of
        RRet bs e b \<Rightarrow> h\<lparr>rh_buf := b, rh_out := rh_out h @ bs\<rparr>
      | RBlocked \<Rightarrow> h)"
| "rb_step (OpClose e) h = h\<lparr>rh_buf := rb_Close e (rh_buf h)\<rparr>"
| "rb_step OpReopen h = h\<lparr>rh_buf := rb_Reopen (rh_buf h)\<rparr>"

definition rb_hist_inv :: "rb_history \<Rightarrow> bool" where
  "rb_hist_inv h \<longleftrightarrow> rb_inv (rh_buf h) \<and> rh_in h = rh_out h @ rb_content (rh_buf h)"

lemma rb_Write_pass_stores:
  assumes "rb_inv b" and "rb_Write_pass ctx waited b d = WWrote n b'"
  shows "rb_inv b' \<and> rb_content b' = rb_content b @ take n d \<and> n \<le> length d \<and> \<not> rb_closed b'"
proof -
  from assms(2) have n: "n = (if length d > rb_room b then rb_room b else length d)" "\<not> rb_closed b"
    "b' = rb_ringWrite (take n d) b"
    by (auto simp: rb_Write_pass_def rb_room_def Let_def split: if_splits)
  then have "length (take n d) \<le> rb_room b" by auto
  from rb_ringWrite_inv [OF assms(1) this] n show ?thesis by auto
qed

lemma rb_step_inv:
  assumes "rb_hist_inv h"
  shows "rb_hist_inv (rb_step a h)"
proof (cases a)
  case (OpWrite ctx waited d)
  then show ?thesis
    using assms rb_Write_pass_stores [of "rh_buf h" ctx waited d]
    by (auto simp: rb_hist_inv_def split: write_res.splits)
next
  case (OpRead m)
  then show ?thesis
    using assms rb_Read_cases [of "rh_buf h" m] by (auto simp: rb_hist_inv_def split: if_splits)
qed (use assms in \<open>auto simp: rb_hist_inv_def\<close>)

lemma rb_steps_inv: "rb_hist_inv h \<Longrightarrow> rb_hist_inv (fold rb_step as h)"
  by (induction as arbitrary: h) (simp_all add: rb_step_inv)

section \<open>Properties\<close>

text \<open>Over any history of \<open>Write\<close> passes, \<open>Read\<close>s, \<open>Close\<close>s and \<open>Reopen\<close>s, in any order
  and with any contexts, the bytes handed to the consumer followed by the bytes still buffered
  are exactly the bytes that were stored: closing and reopening the buffer for a reconnect
  neither loses nor repeats a byte, and the ring never holds more than its capacity.\<close>

theorem recv_buffer_history:
  assumes "0 < capacity"
  shows "let h = fold rb_step ops \<lparr>rh_buf = NewRecvBuffer capacity, rh_in = [], rh_out = []\<rparr>
    in rh_out h @ rb_content (rh_buf h) = rh_in h \<and> rb_size (rh_buf h) \<le> rb_cap (rh_buf h)"
proof -
  have "rb_hist_inv \<lparr>rh_buf = NewRecvBuffer capacity, rh_in = [], rh_out = []\<rparr>"
    using assms by (simp add: rb_hist_inv_def)
  from rb_steps_inv [OF this, of ops] show ?thesis
    by (simp add: rb_hist_inv_def Let_def rb_inv_size)
qed

definition reconnect_example :: "rb_op list" where
  "reconnect_example = [OpWrite None False [1, 2, 3], OpClose None, OpReopen, OpRead 1, OpWrite None False [4], OpRead 5]"

lemma reconnect_example_result:
  "rb_size (rh_buf (fold rb_step reconnect_example \<lparr>rh_buf = NewRecvBuffer 3, rh_in = [], rh_out = []\<rparr>)) = 0
   \<and> rh_in (fold rb_step reconnect_example \<lparr>rh_buf = NewRecvBuffer 3, rh_in = [], rh_out = []\<rparr>) = [1, 2, 3, 4]"
  by code_simp

theorem recv_buffer_history_witness:
  "rh_out (fold rb_step reconnect_example \<lparr>rh_buf = NewRecvBuffer 3, rh_in = [], rh_out = []\<rparr>) = [1, 2, 3, 4]"
  using recv_buffer_history [of 3 reconnect_example] reconnect_example_result
  by (simp add: Let_def flip: rb_content_Nil)

text \<open>The whole \<open>Write\<close> loop on an open buffer: it stores the longest prefix that fits; it
  returns \<open>nil\<close> exactly when everything fitted, otherwise it waits for room with the rest, or
  gives up with the context's error when the context is done. In particular it never spins.\<close>

theorem recv_buffer_write:
  assumes "rb_inv b" and "\<not> rb_closed b"
  shows "\<exists>b'. rb_inv b' \<and> rb_content b' = rb_content b @ take (rb_cap b - rb_size b) d \<and>
    rb_Write ctx False b d =
      (if length d \<le> rb_cap b - rb_size b then WODone None b'
       else if ctx = None then WOBlocked (drop (rb_cap b - rb_size b) d) b' else WODone ctx b')"
  using rb_Write_open [OF assms, of d ctx] unfolding rb_room_def by blast

theorem recv_buffer_write_witness:
  "\<exists>b'. rb_content b' = [1, 2] \<and> rb_Write None False (NewRecvBuffer 2) [1, 2, 3] = WOBlocked [3] b'"
  using recv_buffer_write [of "NewRecvBuffer 2" "[1, 2, 3]" None] rb_inv_new [of 2]
  by (auto simp: NewRecvBuffer_def eval_nat_numeral)

end
