(* ===== verification/MuxClient.thy ===== *)
theory MuxClient
  imports MuxServer RecvBuffer
begin

text \<open>
  \<^verbatim>\<open>internal/mux/client/session.go\<close>, \<^verbatim>\<open>http_request_stream.go\<close> and the handler of
  \<^verbatim>\<open>localhttp.go\<close>: the edge's session with its push streams (receive buffers, resume and
  acknowledgement offsets), its request streams, the frame dispatch, the registration and the
  reconnect loop. Offsets are \<open>int64\<close> counters of bytes received, far from overflow; they are
  integers here.
\<close>

section \<open>State\<close>

definition recvBufCap :: nat where "recvBufCap = 64 * 1024 * 1024"
definition ackEveryBytes :: int where "ackEveryBytes = 1 * 1024 * 1024"

record push_recv =
  pr_name :: string
  pr_id :: u32
  pr_recvOffset :: int
  pr_ackedOffset :: int
  pr_buf :: recv_buffer

record client_session =
  cl_nodeID :: string
  cl_accessAddr :: string
  cl_pushSubs :: "string list"
  cl_hasHandler :: bool
  cl_pushStreams :: "(string \<times> push_recv) list"
  cl_pushByID :: "(u32 \<times> string) list"
  cl_store :: "mstream list"
  cl_reqStreams :: "(u32 \<times> nat) list"
  cl_conn :: "mux_conn option"
  cl_pongs :: nat
  cl_closed :: bool
  cl_ctx :: "go_error option"

definition NewEdgeClientSession :: "string \<Rightarrow> string \<Rightarrow> string list \<Rightarrow> bool \<Rightarrow> client_session" where
  "NewEdgeClientSession nodeID accessAddr pushSubs hasHandler =
     \<lparr>cl_nodeID = nodeID, cl_accessAddr = accessAddr, cl_pushSubs = pushSubs, cl_hasHandler = hasHandler,
      cl_pushStreams = fold (\<lambda>name m. AList.update name
        \<lparr>pr_name = name, pr_id = 0, pr_recvOffset = 0, pr_ackedOffset = 0, pr_buf = NewRecvBuffer recvBufCap\<rparr> m)
        pushSubs [],
      cl_pushByID = [], cl_store = [], cl_reqStreams = [], cl_conn = None, cl_pongs = 0,
      cl_closed = False, cl_ctx = None\<rparr>"

definition cl_closeConn :: "client_session \<Rightarrow> client_session" where
  "cl_closeConn s = s\<lparr>cl_conn := None\<rparr>"

definition cl_Close :: "client_session \<Rightarrow> client_session" where
  "cl_Close s = cl_closeConn (s\<lparr>cl_closed := True, cl_ctx := Some ErrContext\<rparr>)"

definition cl_StreamReader :: "string \<Rightarrow> client_session \<Rightarrow> recv_buffer option" where
  "cl_StreamReader name s = map_option pr_buf (map_of (cl_pushStreams s) name)"

definition cl_ResumeOffset :: "string \<Rightarrow> client_session \<Rightarrow> int" where
  "cl_ResumeOffset name s =
     (case map_of (cl_pushStreams s) name of Some st \<Rightarrow> pr_recvOffset st | None \<Rightarrow> 0)"

definition cl_push :: "string \<Rightarrow> (push_recv \<Rightarrow> push_recv) \<Rightarrow> client_session \<Rightarrow> client_session" where
  "cl_push name h s =
     s\<lparr>cl_pushStreams := map (\<lambda>(n, st). (n, if n = name then h st else st)) (cl_pushStreams s)\<rparr>"

text \<open>
  \<open>WriteFrame\<close> on the current connection. On a nil connection it would panic: a turn that starts without a
  connection is the panic of \<open>cl_dispatchLoop_turn\<close>.
\<close>

definition cl_send :: "frame \<Rightarrow> client_session \<Rightarrow> go_error option \<times> client_session" where
  "cl_send f s =
     (case cl_conn s of
        None \<Rightarrow> (Some (ErrNet ''nil connection''), s)
      | Some c \<Rightarrow> (case mc_WriteFrame c f of (r, c') \<Rightarrow> (r, s\<lparr>cl_conn := Some c'\<rparr>)))"

section \<open>Reconnecting\<close>

definition reconnectBase :: int where "reconnectBase = 1"
definition reconnectMax :: int where "reconnectMax = 30"

text \<open>The backoff (in seconds) after a run that ended in an error, or without one.\<close>

definition next_backoff :: "bool \<Rightarrow> int \<Rightarrow> int" where
  "next_backoff failed backoff =
     (if failed then (if backoff < reconnectMax then backoff * 2 else backoff) else reconnectBase)"

text \<open>The backoffs that \<open>Run\<close> sleeps, for the outcomes of successive runs.\<close>

fun run_backoffs :: "bool list \<Rightarrow> int \<Rightarrow> int list" where
  "run_backoffs [] backoff = []"
| "run_backoffs (failed # rest) backoff =
     (if failed then backoff # run_backoffs rest (next_backoff True backoff)
      else run_backoffs rest (next_backoff False backoff))"

text \<open>\<open>runOnce\<close>: reopening the buffers, the \<open>REGISTER\<close> frame, and the answer to it.\<close>

definition cl_reopen :: "client_session \<Rightarrow> client_session" where
  "cl_reopen s = s\<lparr>cl_pushStreams := map (\<lambda>(n, st).
     (n, if rb_IsClosed (pr_buf st) then st\<lparr>pr_buf := rb_Reopen (pr_buf st)\<rparr> else st)) (cl_pushStreams s)\<rparr>"

definition cl_caps :: "client_session \<Rightarrow> string list" where
  "cl_caps s = (if cl_hasHandler s then [''reverse-http''] else []) @
     (if cl_pushSubs s \<noteq> [] then [''push''] else [])"

definition cl_resume :: "client_session \<Rightarrow> string \<rightharpoonup> int" where
  "cl_resume s = map_of (map (\<lambda>(n, st). (n, pr_recvOffset st))
     (filter (\<lambda>(n, st). pr_recvOffset st > 0) (cl_pushStreams s)))"

definition cl_register :: "codec \<Rightarrow> mux_conn \<Rightarrow> client_session \<Rightarrow> go_error option \<times> client_session" where
  "cl_register J conn s =
     (let s1 = (cl_reopen s)\<lparr>cl_conn := Some conn\<rparr>
      in case cl_send \<lparr>StreamID = ControlStreamID, FType = TypeRegister, FFlags = 0,
           Payload = enc_register J \<lparr>rm_NodeID = cl_nodeID s1, rm_PushSubs = cl_pushSubs s1,
             rm_PushResume = cl_resume s1, rm_Capabilities = cl_caps s1, rm_Metadata = Map.empty\<rparr>\<rparr> s1 of
           (Some e, s2) \<Rightarrow> (Some (Wrapf ''write REGISTER: %w'' [] e), cl_closeConn s2)
         | (None, s2) \<Rightarrow> (None, s2))"

text \<open>\<open>runOnce\<close> up to the registration: \<open>dial\<close> is what \<open>net.DialTimeout\<close> gives.\<close>

definition cl_connect :: "codec \<Rightarrow> go_error + mux_conn \<Rightarrow> client_session \<Rightarrow> go_error option \<times> client_session" where
  "cl_connect J dial s =
     (case dial of
        Inl e \<Rightarrow> (Some (Wrapf ''dial %s: %w'' [ArgStr (cl_accessAddr s)] e), cl_reopen s)
      | Inr conn \<Rightarrow> cl_register J conn s)"

definition cl_registered :: "codec \<Rightarrow> (go_error + frame) \<Rightarrow> client_session \<Rightarrow> go_error option \<times> client_session" where
  "cl_registered J answer s =
     (case answer of
        Inl e \<Rightarrow> (Some (Wrapf ''read REGISTER_ACK: %w'' [] e), cl_closeConn s)
      | Inr f \<Rightarrow>
          if FType f \<noteq> TypeRegisterAck
          then (Some (Errorf ''expected REGISTER_ACK, got type %d'' [ArgInt (uint (FType f))]), cl_closeConn s)
          else case dec_register_ack J (Payload f) of
                 (err, ack) \<Rightarrow>
                   if err \<noteq> None \<or> \<not> ra_OK ack
                   then (Some (Errorf ''registration rejected: %s'' [ArgStr (ra_Message ack)]), cl_closeConn s)
                   else let ids = ra_PushStreamIDs ack
                        in (None, s\<lparr>cl_pushStreams := map (\<lambda>(n, st).
                               (n, case ids n of Some i \<Rightarrow> st\<lparr>pr_id := i\<rparr> | None \<Rightarrow> st)) (cl_pushStreams s),
                             cl_pushByID := fold (\<lambda>(n, st) m. case ids n of Some i \<Rightarrow> AList.update i n m | None \<Rightarrow> m)
                               (cl_pushStreams s) [], cl_pongs := 0\<rparr>))"

section \<open>Push streams\<close>

definition cl_byID :: "u32 \<Rightarrow> client_session \<Rightarrow> push_recv option" where
  "cl_byID sid s = (case map_of (cl_pushByID s) sid of Some n \<Rightarrow> map_of (cl_pushStreams s) n | None \<Rightarrow> None)"

definition sendPushAck :: "codec \<Rightarrow> string \<Rightarrow> client_session \<Rightarrow> client_session" where
  "sendPushAck J name s =
     (case (cl_conn s, map_of (cl_pushStreams s) name) of
        (Some c, Some st) \<Rightarrow>
          cl_push name (\<lambda>st. st\<lparr>pr_ackedOffset := pr_recvOffset st\<rparr>)
            (snd (cl_send \<lparr>StreamID = ControlStreamID, FType = TypePushAck, FFlags = 0,
               Payload = enc_push_ack J \<lparr>pa_StreamID = pr_id st, pa_Offset = pr_recvOffset st\<rparr>\<rparr> s))
      | _ \<Rightarrow> s)"

text \<open>
  \<open>buf.Write\<close> followed by the bookkeeping of \<open>handlePushData\<close>, for a payload of \<open>len\<close> bytes of
  which \<open>rest\<close> is still to be stored. While the write waits for room the read loop waits too;
  it goes on here with what was left.
\<close>

datatype push_out = PushStored push_recv | PushFailed push_recv | PushWaits "byte list" push_recv

definition push_write :: "go_error option \<Rightarrow> bool \<Rightarrow> nat \<Rightarrow> byte list \<Rightarrow> push_recv \<Rightarrow> push_out" where
  "push_write ctx waited len rest st =
     (case rb_Write ctx waited (pr_buf st) rest of
        WOBlocked rest' b \<Rightarrow> PushWaits rest' (st\<lparr>pr_buf := b\<rparr>)
      | WODone (Some e) b \<Rightarrow> PushFailed (st\<lparr>pr_buf := b\<rparr>)
      | WODone None b \<Rightarrow> PushStored (st\<lparr>pr_buf := b, pr_recvOffset := pr_recvOffset st + int len\<rparr>)
      | WOSpin \<Rightarrow> PushWaits rest st)"

definition ack_due :: "push_recv \<Rightarrow> bool" where
  "ack_due st \<longleftrightarrow> pr_recvOffset st - pr_ackedOffset st \<ge> ackEveryBytes"

text \<open>The result is what is left of the payload when the write waits.\<close>

definition handlePushData :: "codec \<Rightarrow> frame \<Rightarrow> client_session \<Rightarrow> byte list option \<times> client_session" where
  "handlePushData J f s =
     (case cl_byID (StreamID f) s of
        None \<Rightarrow> (None, s)
      | Some st \<Rightarrow>
          (case push_write (cl_ctx s) False (length (Payload f)) (Payload f) st of
             PushWaits rest st' \<Rightarrow> (Some rest, cl_push (pr_name st) (\<lambda>_. st') s)
           | PushFailed st' \<Rightarrow> (None, cl_push (pr_name st) (\<lambda>_. st') s)
           | PushStored st' \<Rightarrow>
               let s1 = cl_push (pr_name st) (\<lambda>_. st') s
               in (None, if ack_due st' then sendPushAck J (pr_name st) s1 else s1)))"

definition push_close_err :: "codec \<Rightarrow> frame \<Rightarrow> go_error option" where
  "push_close_err J f =
     (let reason = rst_Reason (snd (dec_rst J (Payload f)))
      in if reason \<noteq> ''EOF'' then Some (Errorf ''push RST: %s'' [ArgStr reason]) else None)"

definition handlePushRST :: "codec \<Rightarrow> frame \<Rightarrow> client_session \<Rightarrow> client_session" where
  "handlePushRST J f s =
     (case cl_byID (StreamID f) s of
        None \<Rightarrow> s
      | Some st \<Rightarrow> cl_push (pr_name st) (\<lambda>st. st\<lparr>pr_buf := rb_Close (push_close_err J f) (pr_buf st)\<rparr>) s)"

definition ackLoop_tick :: "codec \<Rightarrow> client_session \<Rightarrow> client_session" where
  "ackLoop_tick J s =
     fold (\<lambda>(sid, n) s1. case map_of (cl_pushStreams s1) n of
         Some st \<Rightarrow> if pr_recvOffset st > pr_ackedOffset st then sendPushAck J n s1 else s1
       | None \<Rightarrow> s1) (cl_pushByID s) s"

section \<open>Request streams\<close>

definition cl_on :: "(mstream \<Rightarrow> mstream) \<Rightarrow> nat \<Rightarrow> client_session \<Rightarrow> client_session" where
  "cl_on h i s = s\<lparr>cl_store := (cl_store s)[i := h (cl_store s ! i)]\<rparr>"

definition hasReqStream :: "u32 \<Rightarrow> client_session \<Rightarrow> bool" where
  "hasReqStream sid s \<longleftrightarrow> map_of (cl_reqStreams s) sid \<noteq> None"

definition removeReqStream :: "u32 \<Rightarrow> client_session \<Rightarrow> client_session" where
  "removeReqStream sid s = s\<lparr>cl_reqStreams := AList.delete sid (cl_reqStreams s)\<rparr>"

definition cl_handleControl :: "codec \<Rightarrow> frame \<Rightarrow> client_session \<Rightarrow> go_error option \<times> client_session" where
  "cl_handleControl J f s =
     (if FType f = TypePing
      then (case cl_send \<lparr>StreamID = 0, FType = TypePong, FFlags = 0, Payload = []\<rparr> s of
              (Some e, s1) \<Rightarrow> (Some (Wrapf ''ping error: %w'' [] e), s1)
            | (None, s1) \<Rightarrow> (None, s1))
      else if FType f = TypePong then (None, if cl_pongs s < 4 then s\<lparr>cl_pongs := cl_pongs s + 1\<rparr> else s)
      else if FType f = TypeGoAway
      then (case dec_goaway J (Payload f) of
              (Some e, _) \<Rightarrow> (Some (Wrapf ''goaway error: %w'' [] e), s)
            | (None, _) \<Rightarrow> (None, s))
      else (None, s))"

definition dispatchReqStream :: "codec \<Rightarrow> frame \<Rightarrow> client_session \<Rightarrow> go_error option \<times> client_session" where
  "dispatchReqStream J f s =
     (case map_of (cl_reqStreams s) (StreamID f) of
        None \<Rightarrow> (None, s)
      | Some i \<Rightarrow>
          if FType f = TypeHeaders
          then (case st_OnHeaders J f (cl_store s ! i) of
                  (None, st) \<Rightarrow> (None, cl_on (\<lambda>_. st) i s)
                | (Some e, st) \<Rightarrow>
                    (None, cl_on st_Close i (snd (cl_send \<lparr>StreamID = StreamID f, FType = TypeRST, FFlags = 0,
                       Payload = enc_rst J \<lparr>rst_Reason = ''bad headers''\<rparr>\<rparr> (cl_on (\<lambda>_. st) i s)))))
          else if FType f = TypeData
          then (case st_OnData f (cl_store s ! i) of
                  (None, st) \<Rightarrow> (None, cl_on (\<lambda>_. st) i s)
                | (Some e, st) \<Rightarrow>
                    let s1 = cl_on (\<lambda>_. st) i s
                    in if cl_conn s1 = None then (None, s1)
                       else case cl_send \<lparr>StreamID = 0, FType = TypeGoAway, FFlags = 0,
                              Payload = enc_goaway J \<lparr>ga_Reason = violation_reason f\<rparr>\<rparr> s1 of
                              (Some e', s2) \<Rightarrow>
                                (Some (Errorf ''flow control violation on stream %d'' [ArgInt (uint (StreamID f))]), s2)
                            | (None, s2) \<Rightarrow> (None, s2))
          else if FType f = TypeWindowUpdate then (None, cl_on (st_OnWindowUpdate (Payload f)) i s)
          else if FType f = TypeRST
          then (None, removeReqStream (StreamID f)
                  (cl_on (st_OnRST (rst_Reason (snd (dec_rst J (Payload f))))) i s))
          else (None, s))"

text \<open>\<open>handleNewRequest\<close>: the new stream's index when \<open>serveRequest\<close> is started for it.\<close>

definition handleNewRequest ::
  "codec \<Rightarrow> frame \<Rightarrow> client_session \<Rightarrow> (go_error option \<times> nat option) \<times> client_session" where
  "handleNewRequest J f s =
     (if \<not> cl_hasHandler s
      then (case cl_send \<lparr>StreamID = StreamID f, FType = TypeRST, FFlags = 0,
               Payload = enc_rst J \<lparr>rst_Reason = ''no handler''\<rparr>\<rparr> s of
              (Some e, s1) \<Rightarrow> ((Some e, None), s1)
            | (None, s1) \<Rightarrow> ((Some (Errorf ''received request but no handler'' []), None), s1))
      else let i = length (cl_store s);
               s1 = s\<lparr>cl_store := cl_store s @ [NewStream (StreamID f)],
                      cl_reqStreams := AList.update (StreamID f) i (cl_reqStreams s)\<rparr>
           in case st_OnHeaders J f (cl_store s1 ! i) of
                (None, st) \<Rightarrow> ((None, Some i), cl_on (\<lambda>_. st) i s1)
              | (Some e, st) \<Rightarrow>
                  ((Some e, None), removeReqStream (StreamID f)
                     (snd (cl_send \<lparr>StreamID = StreamID f, FType = TypeRST, FFlags = 0,
                        Payload = enc_rst J \<lparr>rst_Reason = ''bad headers''\<rparr>\<rparr> (cl_on (\<lambda>_. st) i s1)))))"

text \<open>
  \<open>serveRequest\<close> after the handler returned, and its deferred clean-up. \<open>show_err\<close> renders an
  error for \<open>%v\<close>. The body is sent up to its end or to a wait for credit.
\<close>

datatype serve_out = ServeDone | ServeCredit read_script

definition serve_finish :: "nat \<Rightarrow> client_session \<Rightarrow> client_session" where
  "serve_finish i s = cl_on st_Close i (removeReqStream (st_ID (cl_store s ! i)) s)"

definition serve_rst :: "codec \<Rightarrow> string \<Rightarrow> nat \<Rightarrow> client_session \<Rightarrow> client_session" where
  "serve_rst J reason i s = snd (cl_send \<lparr>StreamID = st_ID (cl_store s ! i), FType = TypeRST, FFlags = 0,
     Payload = enc_rst J \<lparr>rst_Reason = reason\<rparr>\<rparr> s)"

definition serve_body ::
  "codec \<Rightarrow> (go_error \<Rightarrow> string) \<Rightarrow> read_script option \<Rightarrow> nat \<Rightarrow> mux_conn \<Rightarrow> client_session
     \<Rightarrow> serve_out \<times> client_session" where
  "serve_body J show_err body i c s =
     (case st_SendBody mc_WriteFrame (cl_ctx s) WinDirResponse body (cl_store s ! i) c of
        SendDone r st c1 \<Rightarrow>
          let s1 = cl_on (\<lambda>_. st) i (s\<lparr>cl_conn := Some c1\<rparr>);
              s2 = (case (body, r) of
                      (Some _, Some e) \<Rightarrow> serve_rst J (''send data error: '' @ show_err e) i s1
                    | _ \<Rightarrow> s1)
          in (ServeDone, serve_finish i s2)
      | SendBlocked sc st c1 \<Rightarrow> (ServeCredit sc, cl_on (\<lambda>_. st) i (s\<lparr>cl_conn := Some c1\<rparr>)))"

definition serve_response ::
  "codec \<Rightarrow> (go_error \<Rightarrow> string) \<Rightarrow> (go_error + response_meta \<times> read_script option) \<Rightarrow> nat \<Rightarrow> client_session
     \<Rightarrow> serve_out \<times> client_session" where
  "serve_response J show_err handled i s =
     (case handled of
        Inl e \<Rightarrow> (ServeDone, serve_finish i (serve_rst J (''handler error: '' @ show_err e) i s))
      | Inr (meta, body) \<Rightarrow>
          (case cl_send \<lparr>StreamID = st_ID (cl_store s ! i), FType = TypeHeaders, FFlags = 0,
             Payload = enc_response J meta\<rparr> s of
             (Some e, s1) \<Rightarrow> (ServeDone, serve_finish i s1)
           | (None, s1) \<Rightarrow>
               (case cl_conn s1 of
                  None \<Rightarrow> (ServeDone, serve_finish i s1)
                | Some c \<Rightarrow> serve_body J show_err body i c s1)))"

text \<open>
  One turn of \<open>dispatchLoop\<close> on what \<open>ReadFrame\<close> returned: the loop goes on, the read loop
  waits in a push buffer, or \<open>runOnce\<close> returns.
\<close>

datatype dispatch_turn =
    TurnNext "nat option"
  | TurnWaits "byte list"
  | TurnReturns "go_error option"

definition cl_dispatch ::
  "codec \<Rightarrow> (go_error + frame) \<Rightarrow> client_session \<Rightarrow> dispatch_turn \<times> client_session" where
  "cl_dispatch J res s =
     (case res of
        Inl e \<Rightarrow> (TurnReturns (if cl_ctx s \<noteq> None then None else Some (Wrapf ''read frame: %w'' [] e)), s)
      | Inr f \<Rightarrow>
          if StreamID f = ControlStreamID
          then (case cl_handleControl J f s of
                  (Some e, s1) \<Rightarrow> (TurnReturns (Some (Wrapf ''handle control: %w'' [] e)), s1)
                | (None, s1) \<Rightarrow> (TurnNext None, s1))
          else if FType f = TypePushData
          then (case handlePushData J f s of
                  (Some rest, s1) \<Rightarrow> (TurnWaits rest, s1)
                | (None, s1) \<Rightarrow> (TurnNext None, s1))
          else if FType f = TypePushRST then (TurnNext None, handlePushRST J f s)
          else if FType f = TypeHeaders \<and> \<not> hasReqStream (StreamID f) s
          then (case handleNewRequest J f s of
                  ((Some e, _), s1) \<Rightarrow> (TurnReturns (Some (Wrapf ''handle new request: %w'' [] e)), s1)
                | ((None, i), s1) \<Rightarrow> (TurnNext i, s1))
          else if FType f = TypeHeaders \<or> FType f = TypeData \<or> FType f = TypeRST \<or> FType f = TypeWindowUpdate
          then (case dispatchReqStream J f s of
                  (Some e, s1) \<Rightarrow> (TurnReturns (Some (Wrapf ''dispatch req stream: %w'' [] e)), s1)
                | (None, s1) \<Rightarrow> (TurnNext None, s1))
          else (TurnNext None, s))"

text \<open>
  A whole turn of \<open>dispatchLoop\<close>: the context, the connection, then the frame. \<open>None\<close> is a panic: there is no
  connection to read from.
\<close>

definition cl_dispatchLoop_turn ::
  "codec \<Rightarrow> (go_error + frame) \<Rightarrow> client_session \<Rightarrow> (dispatch_turn \<times> client_session) option" where
  "cl_dispatchLoop_turn J res s =
     (if cl_ctx s \<noteq> None then Some (TurnReturns None, s)
      else case cl_conn s of
             None \<Rightarrow> None
           | Some c \<Rightarrow> Some (cl_dispatch J res s))"

text \<open>The read loop waits in \<open>handlePushData\<close> for room in the buffer of a stream, and is woken up.\<close>

definition cl_push_wake ::
  "codec \<Rightarrow> string \<Rightarrow> nat \<Rightarrow> byte list \<Rightarrow> client_session \<Rightarrow> byte list option \<times> client_session" where
  "cl_push_wake J name len rest s =
     (case map_of (cl_pushStreams s) name of
        None \<Rightarrow> (None, s)
      | Some st \<Rightarrow>
          (case push_write (cl_ctx s) True len rest st of
             PushWaits rest' st' \<Rightarrow> (Some rest', cl_push name (\<lambda>_. st') s)
           | PushFailed st' \<Rightarrow> (None, cl_push name (\<lambda>_. st') s)
           | PushStored st' \<Rightarrow>
               let s1 = cl_push name (\<lambda>_. st') s
               in (None, if ack_due st' then sendPushAck J name s1 else s1)))"

section \<open>A push stream over time\<close>

text \<open>
  The read loop, the consumer and the reconnects of one push stream. While a payload waits for
  room (\<open>pw_rest\<close>), the read loop handles nothing else.
\<close>

record push_world =
  pw_st :: push_recv
  pw_rest :: "byte list option"
  pw_cur :: "byte list"
  pw_acc :: "byte list"
  pw_got :: "byte list"

datatype push_ev = PeFrame "byte list" | PeWake | PeRead nat | PeRST "go_error option" | PeReopen

definition pw_write :: "bool \<Rightarrow> byte list \<Rightarrow> byte list \<Rightarrow> push_world \<Rightarrow> push_world" where
  "pw_write waited payload rest w =
     (case push_write None waited (length payload) rest (pw_st w) of
        PushStored st \<Rightarrow> w\<lparr>pw_st := st, pw_rest := None, pw_cur := [], pw_acc := pw_acc w @ payload\<rparr>
      | PushFailed st \<Rightarrow> w\<lparr>pw_st := st, pw_rest := None, pw_cur := []\<rparr>
      | PushWaits rest' st \<Rightarrow> w\<lparr>pw_st := st, pw_rest := Some rest', pw_cur := payload\<rparr>)"

definition pw_buf :: "(recv_buffer \<Rightarrow> recv_buffer) \<Rightarrow> push_world \<Rightarrow> push_world" where
  "pw_buf h w = w\<lparr>pw_st := (pw_st w)\<lparr>pr_buf := h (pr_buf (pw_st w))\<rparr>\<rparr>"

fun push_event :: "push_ev \<Rightarrow> push_world \<Rightarrow> push_world" where
  "push_event (PeFrame p) w = (if pw_rest w = None then pw_write False p p w else w)"
| "push_event PeWake w = (case pw_rest w of None \<Rightarrow> w | Some rest \<Rightarrow> pw_write True (pw_cur w) rest w)"
| "push_event (PeRead m) w =
     (case rb_Read (pr_buf (pw_st w)) m of
        RRet bs e b \<Rightarrow> (pw_buf (\<lambda>_. b) w)\<lparr>pw_got := pw_got w @ bs\<rparr>
      | RBlocked \<Rightarrow> w)"
| "push_event (PeRST e) w = (if pw_rest w = None then pw_buf (rb_Close e) w else w)"
| "push_event PeReopen w = (if pw_rest w = None then pw_buf rb_Reopen w else w)"

definition pw_stored :: "push_world \<Rightarrow> byte list" where
  "pw_stored w = pw_acc w @ (case pw_rest w of None \<Rightarrow> [] | Some rest \<Rightarrow> take (length (pw_cur w) - length rest) (pw_cur w))"

definition pw_inv :: "push_world \<Rightarrow> bool" where
  "pw_inv w \<longleftrightarrow> rb_inv (pr_buf (pw_st w)) \<and>
     pr_recvOffset (pw_st w) = int (length (pw_acc w)) \<and>
     pw_got w @ rb_content (pr_buf (pw_st w)) = pw_stored w \<and>
     (\<forall>rest. pw_rest w = Some rest \<longrightarrow> \<not> rb_closed (pr_buf (pw_st w)) \<and> length rest \<le> length (pw_cur w) \<and>
        rest = drop (length (pw_cur w) - length rest) (pw_cur w))"

lemma rb_Write_waited: "rb_Write None waited b d = rb_Write None False b d"
proof -
  have "rb_Write_pass None waited b d = rb_Write_pass None False b d" by (simp add: rb_Write_pass_def)
  then show ?thesis by (simp add: rb_Write.simps [of None waited] rb_Write.simps [of None False])
qed

lemma rb_Write_closed:
  "rb_closed b \<Longrightarrow> d \<noteq> [] \<Longrightarrow> rb_Write None False b d = WODone (rb_closeErr b) b"
  by (simp add: rb_Write.simps [of None False b d] rb_Write_pass_def)

lemma pw_write_inv:
  assumes i: "pw_inv w" and c: "rest = drop (length p - length rest) p" "length rest \<le> length p"
    and cur: "pw_rest w = None \<and> rest = p \<or> pw_rest w = Some rest \<and> pw_cur w = p"
  shows "pw_inv (pw_write waited p rest w)"
proof -
  let ?b = "pr_buf (pw_st w)"
  have b: "rb_inv ?b" using i by (simp add: pw_inv_def)
  have stored: "pw_got w @ rb_content ?b = pw_acc w @ take (length p - length rest) p"
    using i cur by (auto simp: pw_inv_def pw_stored_def)
  show ?thesis
  proof (cases "rb_closed ?b")
    case True
    with i cur have r: "pw_rest w = None" "rest = p" by (auto simp: pw_inv_def)
    show ?thesis
    proof (cases "p = []")
      case True
      with i r show ?thesis
        by (simp add: pw_write_def push_write_def rb_Write.simps pw_inv_def pw_stored_def)
    next
      case False
      from True b have "rb_closeErr ?b \<noteq> None" by (simp add: rb_inv_def)
      with i r rb_Write_closed [OF True False] show ?thesis
        by (auto simp: pw_write_def push_write_def rb_Write_waited [of waited] pw_inv_def pw_stored_def)
    qed
  next
    case False
    from rb_Write_open [OF b False, of rest None] obtain b' where w: "rb_inv b'" "\<not> rb_closed b'"
      "rb_content b' = rb_content ?b @ take (rb_room ?b) rest"
      "rb_Write None False ?b rest = (if length rest \<le> rb_room ?b then WODone None b'
        else WOBlocked (drop (rb_room ?b) rest) b')" by auto
    have all: "take (length p - length rest) p @ rest = p"
      using c(1) by (metis append_take_drop_id)
    show ?thesis
    proof (cases "length rest \<le> rb_room ?b")
      case True
      with i w stored all show ?thesis
        by (simp add: pw_write_def push_write_def rb_Write_waited [of waited] pw_inv_def pw_stored_def) (metis append.assoc)
    next
      case False
      let ?k = "length p - length rest + rb_room ?b"
      have d: "drop (rb_room ?b) rest = drop ?k p" by (subst c(1)) (simp add: add.commute)
      have t: "take (length p - length rest) p @ take (rb_room ?b) rest = take ?k p"
        by (subst c(1)) (simp add: take_add)
      have len: "length p - length (drop (rb_room ?b) rest) = ?k" using False c(2) by simp
      with i w False stored t d show ?thesis
        by (simp add: pw_write_def push_write_def rb_Write_waited [of waited] pw_inv_def pw_stored_def) (metis append.assoc)
    qed
  qed
qed

lemma pw_buf_inv:
  assumes "pw_inv w" and "pw_rest w = None" and "rb_inv (h (pr_buf (pw_st w)))"
    and "rb_content (h (pr_buf (pw_st w))) = rb_content (pr_buf (pw_st w))"
  shows "pw_inv (pw_buf h w)"
  using assms by (simp add: pw_inv_def pw_buf_def pw_stored_def)

lemma pw_read_inv:
  assumes "pw_inv w"
  shows "pw_inv (push_event (PeRead m) w)"
proof -
  let ?b = "pr_buf (pw_st w)"
  have b: "rb_inv ?b" using assms by (simp add: pw_inv_def)
  show ?thesis
  proof (cases "rb_size ?b = 0")
    case True
    show ?thesis
    proof (cases "rb_closed ?b")
      case c: True
      with True rb_Read_cases [OF b, of m] have "rb_Read ?b m = RRet [] (rb_closeErr ?b) ?b" by simp
      with assms show ?thesis by (simp add: pw_inv_def pw_buf_def pw_stored_def split: option.split)
    next
      case False
      with True rb_Read_cases [OF b, of m] have "push_event (PeRead m) w = w" by simp
      with assms show ?thesis by simp
    qed
  next
    case False
    with rb_Read_cases [OF b, of m] obtain b' where
      "rb_Read ?b m = RRet (take m (rb_content ?b)) None b'" "rb_inv b'"
      "rb_content b' = drop m (rb_content ?b)" "rb_closed b' = rb_closed ?b" by auto
    with assms show ?thesis
      by (simp add: pw_inv_def pw_buf_def pw_stored_def split: option.split)
  qed
qed

lemma push_event_inv: "pw_inv w \<Longrightarrow> pw_inv (push_event ev w)"
proof (cases ev)
  case PeWake
  assume i: "pw_inv w"
  show ?thesis
  proof (cases "pw_rest w")
    case (Some rest)
    with i have "rest = drop (length (pw_cur w) - length rest) (pw_cur w)" "length rest \<le> length (pw_cur w)"
      unfolding pw_inv_def by blast+
    from pw_write_inv [OF i this] Some PeWake show ?thesis by simp
  qed (use i PeWake in simp)
next
  case (PeFrame p)
  assume i: "pw_inv w"
  from pw_write_inv [OF i, of p p False] i PeFrame show ?thesis by simp
next
  case (PeRead m)
  assume "pw_inv w"
  with PeRead pw_read_inv [of w m] show ?thesis by simp
next
  case (PeRST e)
  assume "pw_inv w"
  with PeRST pw_buf_inv [of w "rb_Close e"] show ?thesis by (simp add: pw_inv_def [of w])
next
  case PeReopen
  assume "pw_inv w"
  with PeReopen pw_buf_inv [of w rb_Reopen] show ?thesis by (simp add: pw_inv_def [of w])
qed

lemma push_events_inv: "pw_inv w \<Longrightarrow> pw_inv (fold push_event evs w)"
  by (induction evs arbitrary: w) (simp_all add: push_event_inv)

definition push_fresh :: "nat \<Rightarrow> push_world" where
  "push_fresh capacity =
     \<lparr>pw_st = \<lparr>pr_name = [], pr_id = 1, pr_recvOffset = 0, pr_ackedOffset = 0, pr_buf = NewRecvBuffer capacity\<rparr>,
      pw_rest = None, pw_cur = [], pw_acc = [], pw_got = []\<rparr>"

lemma push_fresh_inv: "0 < capacity \<Longrightarrow> pw_inv (push_fresh capacity)"
  by (simp add: pw_inv_def push_fresh_def pw_stored_def)

section \<open>Properties\<close>


definition push_example :: "push_ev list" where
  "push_example = [PeFrame [1, 2, 3], PeFrame [4], PeRead 2, PeWake, PeRST None, PeReopen, PeFrame [5], PeRead 1]"

lemma push_example_rest: "pw_rest (fold push_event push_example (push_fresh 3)) = None
    \<and> pw_got (fold push_event push_example (push_fresh 3)) = [1, 2, 3]
    \<and> rb_Available (pr_buf (pw_st (fold push_event push_example (push_fresh 3)))) = 2"
  by code_simp


text \<open>The reconnect delay doubles from one second and then stays: after \<open>n\<close> failed runs in a
  row the delays were \<open>min (2 ^ i) 32\<close>. The cap is applied before doubling, so the delay
  settles at 32 seconds, above \<open>reconnectMax\<close>, and never goes beyond it.\<close>

theorem backoff_sequence:
  "run_backoffs (replicate n True) reconnectBase = map (\<lambda>i. min (2 ^ i) 32) [0..<n] \<and>
   reconnectMax < 32"
proof -
  have run: "run_backoffs (replicate n True) (min (2 ^ k) 32) = map (\<lambda>i. min (2 ^ (k + i)) 32) [0..<n]" for k
  proof (induction n arbitrary: k)
    case (Suc n)
    have "next_backoff True (min (2 ^ k) 32) = min (2 ^ Suc k) 32"
    proof (cases "k < 5")
      case True
      then consider "k = 0" | "k = 1" | "k = 2" | "k = 3" | "k = 4" by linarith
      then show ?thesis by cases (simp_all add: next_backoff_def reconnectMax_def)
    next
      case False
      then have "(2::int) ^ 5 \<le> 2 ^ k" by (intro power_increasing) simp_all
      then show ?thesis by (simp add: next_backoff_def reconnectMax_def min_def)
    qed
    with Suc.IH [of "Suc k"] show ?case by (simp add: map_upt_Suc del: upt_Suc power_Suc)
  qed simp
  from run [of 0] show ?thesis by (simp add: reconnectBase_def reconnectMax_def)
qed

end
