(* ===== verification/Request.thy ===== *)
theory Request
  imports MuxClient
begin

text \<open>
  A reverse request from the server's \<open>DoRequest\<close> to the client's stream: what one end puts on
  the connection, dispatched by the other end's \<open>dispatchLoop\<close>.
\<close>

section \<open>The sender stays within its credit\<close>

lemma wt_Acquire_acquired:
  assumes "wt_Acquire ctx cl n wt = Acquired wt'" and "0 \<le> n" and "wt_avail wt \<le> pipeBufSize"
  shows "n \<le> wt_avail wt \<and> wt' = \<lparr>wt_avail = wt_avail wt - n\<rparr>"
proof -
  from assms(1) have n: "n \<le> wt_avail wt" "wt' = wt\<lparr>wt_avail := go_int64 (wt_avail wt - n)\<rparr>"
    by (auto simp: wt_Acquire_def wt_Acquire_fast_def wt_Acquire_slow_def split: if_splits)
  moreover have "go_int64 (wt_avail wt - n) = wt_avail wt - n"
    using n(1) assms(2,3) by (intro go_int64_small) (simp_all add: pipeBufSize_def)
  ultimately show ?thesis by (cases wt) simp
qed

lemma iter_credit:
  assumes "req_avail s \<le> pipeBufSize" and "0 \<le> req_avail s" and "script_next sc = (b, e)"
  shows "st_SendBody_iter wfr ctx WinDirRequest sc s c = SendLoops sc' s' c' \<Longrightarrow>
      int (length b) \<le> req_avail s \<and> req_avail s' = req_avail s - int (length b)"
    and "st_SendBody_iter wfr ctx WinDirRequest sc s c = SendReturns None s' c' \<Longrightarrow>
      int (length b) \<le> req_avail s"
proof -
  note acq = wt_Acquire_acquired [of ctx "st_closed s" "int (length b)" "st_sendWindowReq s", OF _ _ assms(1)]
  show "int (length b) \<le> req_avail s \<and> req_avail s' = req_avail s - int (length b)"
    if "st_SendBody_iter wfr ctx WinDirRequest sc s c = SendLoops sc' s' c'"
    using that assms(2,3) acq
    by (cases "b = []") (auto simp: st_SendBody_iter_def Let_def st_AcquireReqWindow_def
        split: if_splits acquire_res.splits option.splits prod.splits)
  show "int (length b) \<le> req_avail s"
    if "st_SendBody_iter wfr ctx WinDirRequest sc s c = SendReturns None s' c'"
    using that assms(2,3) acq
    by (cases "b = []") (auto simp: st_SendBody_iter_def Let_def st_AcquireReqWindow_def
        split: if_splits acquire_res.splits option.splits prod.splits)
qed

lemma send_body_credit:
  "st_SendBodyWithFlowControl wfr ctx WinDirRequest sc s c = SendDone None s' c' \<Longrightarrow>
     req_avail s \<le> pipeBufSize \<Longrightarrow> 0 \<le> req_avail s \<Longrightarrow> int (length (script_bytes sc)) \<le> req_avail s"
proof (induction "length sc" arbitrary: sc s c rule: less_induct)
  case less
  obtain b e where n: "script_next sc = (b, e)" by fastforce
  show ?case
  proof (cases "st_SendBody_iter wfr ctx WinDirRequest sc s c")
    case SendWaits
    with less.prems(1) show ?thesis by (simp add: st_SendBodyWithFlowControl.simps [of wfr ctx WinDirRequest sc])
  next
    case (SendReturns r s1 c1)
    with less.prems(1) have it: "st_SendBody_iter wfr ctx WinDirRequest sc s c = SendReturns None s' c'"
      by (simp add: st_SendBodyWithFlowControl.simps [of wfr ctx WinDirRequest sc])
    from st_SendBody_iter_returns_cases [OF it n] have "script_bytes sc = b"
      using n by (cases sc) (auto simp: script_next_def)
    with iter_credit(2) [OF less.prems(2,3) n it] show ?thesis by simp
  next
    case (SendLoops sc1 s1 c1)
    with less.prems(1) have nx: "st_SendBodyWithFlowControl wfr ctx WinDirRequest sc1 s1 c1 = SendDone None s' c'"
      by (simp add: st_SendBodyWithFlowControl.simps [of wfr ctx WinDirRequest sc])
    note cr = iter_credit(1) [OF less.prems(2,3) n SendLoops]
    from st_SendBody_iter_loops [OF SendLoops] have sc: "sc \<noteq> []" "sc1 = tl sc" by simp_all
    then have "length sc1 < length sc" by simp
    from less.hyps [OF this nx] cr less.prems(2) have "int (length (script_bytes sc1)) \<le> req_avail s1" by simp
    moreover have "script_bytes sc = b @ script_bytes sc1"
      using st_SendBody_iter_loops_cases [OF SendLoops n] sc n by (cases sc) (auto simp: script_next_def)
    ultimately show ?thesis using cr by simp
  qed
qed

section \<open>What \<open>DoRequest\<close> sends\<close>

definition header_frame :: "codec \<Rightarrow> u32 \<Rightarrow> request_meta \<Rightarrow> frame" where
  "header_frame J sid meta = \<lparr>StreamID = sid, FType = TypeHeaders, FFlags = 0, Payload = enc_request J meta\<rparr>"

lemma DoRequest_sends:
  assumes "DoRequest_send J ctx sid meta (Some sc) s = (DRWaiting i, s')" and "mc_synced (es_conn s)"
  shows "length (script_bytes sc) \<le> nat pipeBufSize \<and> (\<exists>ps. [] \<notin> set ps \<and> concat ps = script_bytes sc \<and>
    mc_sent (es_conn s') = mc_sent (es_conn s) @ header_frame J sid meta # map (chunk_frame sid) ps @ [end_frame sid])"
proof -
  let ?n = "length (es_store s)"
  let ?s1 = "s\<lparr>es_store := es_store s @ [NewStream sid], es_streams := AList.update sid ?n (es_streams s)\<rparr>"
  have new: "st_ID (NewStream sid) = sid" "req_avail (NewStream sid) = pipeBufSize"
    by (simp_all add: NewStream_def newWindowTracker_def)
  from assms(1) obtain c1 where h: "mc_WriteFrame (es_conn s) (header_frame J sid meta) = (None, c1)"
    and b: "dr_send_body ctx sid ?n (Some sc) (?s1\<lparr>es_conn := c1\<rparr>) = (DRWaiting i, s')"
    by (auto simp: DoRequest_send_def st_SendHeaders_def header_frame_def new Let_def split: prod.splits option.splits)
  from mux_conn_sent.wf_ok [OF assms(2) h] have s1: "mc_synced c1"
    "mc_sent c1 = mc_sent (es_conn s) @ [header_frame J sid meta]" by simp_all
  from b obtain st c2 where sb: "st_SendBodyWithFlowControl mc_WriteFrame ctx WinDirRequest sc (NewStream sid) c1 = SendDone None st c2"
    and c2: "es_conn s' = c2"
    by (auto simp: dr_send_body_def st_SendBody_def split: send_out.splits option.splits)
  from mux_conn_sent.send_body_sent [OF s1(1) sb] send_body_credit [OF sb] new s1(2) c2 show ?thesis
    by (auto simp: mux_conn_sent.chunks_sent_def pipeBufSize_def)
qed

section \<open>What the client makes of it\<close>

definition cl_run :: "codec \<Rightarrow> frame list \<Rightarrow> client_session \<Rightarrow> client_session" where
  "cl_run J fs c = fold (\<lambda>f s. snd (cl_dispatch J (Inr f) s)) fs c"

lemma cl_run_simps [simp]:
  "cl_run J [] c = c" "cl_run J (f # fs) c = cl_run J fs (snd (cl_dispatch J (Inr f) c))"
  "cl_run J (fs @ gs) c = cl_run J gs (cl_run J fs c)"
  by (simp_all add: cl_run_def)

definition receiving :: "u32 \<Rightarrow> nat \<Rightarrow> request_meta \<Rightarrow> byte list \<Rightarrow> client_session \<Rightarrow> bool" where
  "receiving sid i meta d c \<longleftrightarrow> map_of (cl_reqStreams c) sid = Some i \<and> i < length (cl_store c) \<and>
     rcv_ok (cl_store c ! i) \<and> \<not> sp_closed (st_reqBody (cl_store c ! i)) \<and>
     st_reqHeaders (cl_store c ! i) = Some meta \<and> sp_content (st_reqBody (cl_store c ! i)) = d"

lemma rcv_ok_new: "rcv_ok (NewStream sid)"
  by (simp add: rcv_ok_def NewStream_def phaseRequest_def) (simp add: NewStreamPipe_def pipeBufSize_def)

lemma receiving_header:
  assumes "cl_hasHandler c" and "map_of (cl_reqStreams c) sid = None" and "sid \<noteq> ControlStreamID"
    and "dec_request J (enc_request J meta) = (None, meta)"
  shows "receiving sid (length (cl_store c)) meta [] (snd (cl_dispatch J (Inr (header_frame J sid meta)) c))"
proof -
  let ?st = "(NewStream sid)\<lparr>st_reqHeaders := Some meta\<rparr>"
  have "st_OnHeaders J (header_frame J sid meta) (NewStream sid) = (None, ?st)"
    using assms(4) by (simp add: st_OnHeaders_def header_frame_def NewStream_def st_Phase_def phaseRequest_def)
  moreover have "rcv_ok ?st" using rcv_ok_new [of sid] by (simp add: rcv_ok_def)
  moreover have "\<not> sp_closed (st_reqBody (NewStream sid))" "sp_content (st_reqBody (NewStream sid)) = []"
    by (simp_all add: NewStream_def) (simp add: NewStreamPipe_def)
  ultimately show ?thesis
    using assms(1-3)
    by (simp add: cl_dispatch_def hasReqStream_def handleNewRequest_def header_frame_def receiving_def Let_def cl_on_def
        AList.update_conv' wire_simps)
qed

lemma receiving_chunk:
  assumes "receiving sid i meta d c" and "b \<noteq> []" and "length (d @ b) \<le> nat pipeBufSize" and "sid \<noteq> ControlStreamID"
  shows "receiving sid i meta (d @ b) (snd (cl_dispatch J (Inr (chunk_frame sid b)) c))"
proof -
  let ?st = "cl_store c ! i"
  have r: "map_of (cl_reqStreams c) sid = Some i" "i < length (cl_store c)" "rcv_ok ?st"
    "\<not> sp_closed (st_reqBody ?st)" "st_reqHeaders ?st = Some meta" "sp_content (st_reqBody ?st) = d"
    using assms(1) by (simp_all add: receiving_def)
  have "int (length b) + int (sp_size (st_reqBody ?st)) \<le> pipeBufSize"
    using assms(3) r(6) by (auto simp: pipeBufSize_def)
  from st_OnData_chunk [OF r(3,4) assms(2) this, of sid] obtain p where
    "st_OnData (chunk_frame sid b) ?st = (None, ?st\<lparr>st_reqBody := p\<rparr>)" "rcv_ok (?st\<lparr>st_reqBody := p\<rparr>)"
    "sp_content p = sp_content (st_reqBody ?st) @ b" "\<not> sp_closed p" by auto
  with r assms(4) show ?thesis
    by (simp add: cl_dispatch_def hasReqStream_def dispatchReqStream_def receiving_def cl_on_def wire_simps)
qed

lemma receiving_chunks:
  "receiving sid i meta d c \<Longrightarrow> [] \<notin> set ps \<Longrightarrow> length (d @ concat ps) \<le> nat pipeBufSize \<Longrightarrow> sid \<noteq> ControlStreamID
    \<Longrightarrow> receiving sid i meta (d @ concat ps) (cl_run J (map (chunk_frame sid) ps) c)"
proof (induction ps arbitrary: d c)
  case (Cons b ps)
  from Cons.prems have "receiving sid i meta (d @ b) (snd (cl_dispatch J (Inr (chunk_frame sid b)) c))"
    by (intro receiving_chunk) auto
  from Cons.IH [OF this] Cons.prems show ?case by simp
qed simp

definition received :: "u32 \<Rightarrow> nat \<Rightarrow> request_meta \<Rightarrow> byte list \<Rightarrow> client_session \<Rightarrow> bool" where
  "received sid i meta d c \<longleftrightarrow> map_of (cl_reqStreams c) sid = Some i \<and>
     st_reqHeaders (cl_store c ! i) = Some meta \<and> sp_content (st_reqBody (cl_store c ! i)) = d \<and>
     sp_closed (st_reqBody (cl_store c ! i)) \<and> sp_closeErr (st_reqBody (cl_store c ! i)) = None"

lemma receiving_end:
  assumes "receiving sid i meta d c" and "sid \<noteq> ControlStreamID"
  shows "received sid i meta d (snd (cl_dispatch J (Inr (end_frame sid)) c))"
proof -
  have r: "map_of (cl_reqStreams c) sid = Some i" "i < length (cl_store c)" "rcv_ok (cl_store c ! i)"
    using assms(1) by (simp_all add: receiving_def)
  from st_OnData_end [OF r(3), of sid] r assms show ?thesis
    by (simp add: cl_dispatch_def hasReqStream_def dispatchReqStream_def receiving_def received_def cl_on_def
        wire_simps rcv_ok_def)
qed

section \<open>The request crosses\<close>


text \<open>When \<open>DoRequest\<close> has sent a request and waits
  for the answer, the frames it put on the connection (whatever the connection carried before)
  make the client's \<open>dispatchLoop\<close> open a stream with exactly the request's metadata and body,
  ended cleanly. The JSON codec must decode what it encoded.\<close>

lemma request_crosses:
  assumes "DoRequest_send J ctx sid meta (Some sc) s = (DRWaiting i, s')" and "mc_synced (es_conn s)"
    and "dec_request J (enc_request J meta) = (None, meta)"
    and "cl_hasHandler c" and "map_of (cl_reqStreams c) sid = None" and "sid \<noteq> ControlStreamID"
  shows "\<exists>fs. mc_sent (es_conn s') = mc_sent (es_conn s) @ fs \<and>
    received sid (length (cl_store c)) meta (script_bytes sc) (cl_run J fs c)"
proof -
  from DoRequest_sends [OF assms(1,2)] obtain ps where ps: "[] \<notin> set ps" "concat ps = script_bytes sc"
    "length (script_bytes sc) \<le> nat pipeBufSize"
    "mc_sent (es_conn s') = mc_sent (es_conn s) @ header_frame J sid meta # map (chunk_frame sid) ps @ [end_frame sid]"
    by blast
  from receiving_chunks [OF receiving_header [OF assms(4-6,3)] ps(1)] ps(2,3) assms(6)
  have "receiving sid (length (cl_store c)) meta (script_bytes sc)
      (cl_run J (header_frame J sid meta # map (chunk_frame sid) ps) c)" by simp
  from receiving_end [OF this assms(6)] ps(4) show ?thesis
    by (intro exI [of _ "header_frame J sid meta # map (chunk_frame sid) ps @ [end_frame sid]"]) simp
qed

text \<open>An example: a GET without a body on a fresh connection.\<close>

definition get_example :: "codec \<Rightarrow> request_meta \<Rightarrow> edge_session \<Rightarrow> bool" where
  "get_example J meta s \<longleftrightarrow> enc_request J = enc_request phase_example_codec \<and> rq_Method meta = ''GET'' \<and>
     es_conn s = fresh_conn \<and> es_store s = [] \<and> es_streams s = []"

lemma send_get_example:
  assumes "get_example J meta s"
  shows "\<exists>s'. DoRequest_send J None 1 meta (Some []) s = (DRWaiting 0, s')"
proof -
  let ?h = "header_frame J 1 meta"
  note g = assms [unfolded get_example_def]
  have "conn_ready 100 fresh_conn" by (simp add: fresh_conn_def conn_ready_new)
  moreover have l: "length (encode_frame ?h) = 16" "length (encode_frame (end_frame 1)) = 13"
    using g by (simp_all add: header_frame_def encode_frame_def phase_example_codec_def to_bytes_def wire_simps)
  ultimately obtain c1 where c1: "mc_WriteFrame fresh_conn ?h = (None, c1)" "conn_ready (100 - 16) c1"
    using mc_WriteFrame_ready [of 100 fresh_conn ?h] by (auto simp: bw_size_def)
  from mc_WriteFrame_ready [OF c1(2), of "end_frame 1"] l obtain c2 where
    c2: "mc_WriteFrame c1 (end_frame 1) = (None, c2)" by (auto simp: bw_size_def)
  have id: "st_ID (NewStream 1) = 1" by (simp add: NewStream_def)
  have "st_SendBody_iter mc_WriteFrame None WinDirRequest [] (NewStream 1) c1 = SendReturns None (NewStream 1) c2"
    by (simp add: st_SendBody_iter_def script_next_def st_SendData_def id c2)
  then have "st_SendBodyWithFlowControl mc_WriteFrame None WinDirRequest [] (NewStream 1) c1 = SendDone None (NewStream 1) c2"
    unfolding st_SendBodyWithFlowControl.simps [of mc_WriteFrame None WinDirRequest "[]" "NewStream 1" c1] by simp
  with c1(1) g show ?thesis
    by (simp add: DoRequest_send_def st_SendHeaders_def id header_frame_def dr_send_body_def st_SendBody_def)
qed

lemma fresh_conn_synced: "mc_synced fresh_conn"
  using mc_synced_new by (simp add: fresh_conn_def)

end
