(* ===== verification/Config.thy ===== *)
theory Config
  imports Prelude "HOL-Library.Multiset"
begin

text \<open>
  \<^verbatim>\<open>internal/config/config.go\<close>: hop addresses and their derived names, the route hierarchy with
  its ordering by priority, and validation. Reading and parsing the YAML file is not modelled:
  a configuration is what the parser returned. Durations are integers (nanoseconds), maps are
  association lists; \<open>nil\<close> sections are \<open>None\<close>.
\<close>

section \<open>Hop addresses\<close>

record hop_addr =
  ha_Type :: string
  ha_Addr :: string
  ha_Port :: int
  ha_Host :: string
  ha_TLS :: bool
  ha_TunnelPath :: string

definition HopAddrTypeDomain :: string where "HopAddrTypeDomain = ''domain''"
definition HopAddrTypeIP :: string where "HopAddrTypeIP = ''ip''"

text \<open>\<open>net.JoinHostPort\<close>.\<close>

definition JoinHostPort :: "string \<Rightarrow> string \<Rightarrow> string" where
  "JoinHostPort host port =
     (if CHR '':'' \<in> set host then ''['' @ host @ '']:'' @ port else host @ '':'' @ port)"

definition DialAddr :: "hop_addr \<Rightarrow> string" where
  "DialAddr a = JoinHostPort (ha_Addr a) (show_int (ha_Port a))"

definition SNIHost :: "hop_addr \<Rightarrow> string" where
  "SNIHost a = (if ha_Type a = HopAddrTypeIP then ha_Host a else ha_Addr a)"

definition tunnel_path :: "hop_addr \<Rightarrow> string" where
  "tunnel_path a = (if ha_TunnelPath a = '''' then ''/tunnel'' else ha_TunnelPath a)"

definition WsURL :: "hop_addr \<Rightarrow> string" where
  "WsURL a = (if ha_TLS a then ''wss'' else ''ws'') @ ''://'' @
     JoinHostPort (SNIHost a) (show_int (ha_Port a)) @ tunnel_path a"

definition Identity :: "hop_addr \<Rightarrow> string" where
  "Identity a = ha_Type a @ '':'' @ ha_Addr a @ '':'' @ show_int (ha_Port a) @ tunnel_path a"

definition HopAddr_Equal :: "hop_addr \<Rightarrow> hop_addr \<Rightarrow> bool" where
  "HopAddr_Equal a b \<longleftrightarrow> ha_Type a = ha_Type b \<and> ha_Addr a = ha_Addr b \<and> ha_Port a = ha_Port b \<and>
     ha_Host a = ha_Host b \<and> ha_TLS a = ha_TLS b \<and> ha_TunnelPath a = ha_TunnelPath b"

definition EqualHopAddrs :: "hop_addr list \<Rightarrow> hop_addr list \<Rightarrow> bool" where
  "EqualHopAddrs a b \<longleftrightarrow> length a = length b \<and> list_all (\<lambda>i. HopAddr_Equal (a ! i) (b ! i)) [0..<length a]"

lemma HopAddr_Equal_eq [simp]: "HopAddr_Equal a b \<longleftrightarrow> a = b"
  by (cases a; cases b; simp only: HopAddr_Equal_def hop_addr.select_convs hop_addr.ext_inject simp_thms)

lemma EqualHopAddrs_eq [simp]: "EqualHopAddrs a b \<longleftrightarrow> a = b"
  unfolding EqualHopAddrs_def list_all_iff HopAddr_Equal_eq list_eq_iff_nth_eq [of a b]
  by (simp only: set_upt Ball_def atLeastLessThan_iff le0 simp_thms)

section \<open>Routes\<close>

record route_group =
  rg_Name :: string
  rg_Priority :: int
  rg_Weight :: int
  rg_Hops :: "hop_addr list"

record idc_route =
  ir_IDC :: string
  ir_Groups :: "route_group list"

definition GroupName :: "route_group \<Rightarrow> string" where
  "GroupName g = (if rg_Name g = '''' then ''default'' else rg_Name g)"

text \<open>
  \<open>SortGroups\<close>: an insertion sort in place. The inner loop carries element \<open>j\<close> to the left while its
  priority is higher than its neighbour's.
\<close>

definition swap_left :: "nat \<Rightarrow> 'a list \<Rightarrow> 'a list" where
  "swap_left j xs = xs[j := xs ! (j - 1), j - 1 := xs ! j]"

fun sift_left :: "('a \<Rightarrow> 'a \<Rightarrow> bool) \<Rightarrow> nat \<Rightarrow> 'a list \<Rightarrow> 'a list" where
  "sift_left before 0 xs = xs"
| "sift_left before (Suc j) xs =
     (if before (xs ! Suc j) (xs ! j) then sift_left before j (swap_left (Suc j) xs) else xs)"

definition insertion_sort :: "('a \<Rightarrow> 'a \<Rightarrow> bool) \<Rightarrow> 'a list \<Rightarrow> 'a list" where
  "insertion_sort before xs = fold (sift_left before) [1..<length xs] xs"

definition SortGroups :: "route_group list \<Rightarrow> hop_addr list" where
  "SortGroups groups =
     (if length groups = 0 then []
      else concat (map rg_Hops (insertion_sort (\<lambda>a b. rg_Priority a > rg_Priority b) groups)))"

definition IDCRoute_SortedHops :: "idc_route \<Rightarrow> hop_addr list" where
  "IDCRoute_SortedHops r = SortGroups (ir_Groups r)"

fun HopsForIDC :: "idc_route list \<Rightarrow> string \<Rightarrow> hop_addr list" where
  "HopsForIDC [] idc = []"
| "HopsForIDC (r # rs) idc = (if ir_IDC r = idc then IDCRoute_SortedHops r else HopsForIDC rs idc)"

section \<open>The insertion sort\<close>

text \<open>The sort is stable: it is \<open>sort_key\<close>, for any key that the comparison reads.\<close>

lemma length_swap_left [simp]: "length (swap_left j xs) = length xs"
  by (simp add: swap_left_def)

lemma swap_left_append:
  "length as = j \<Longrightarrow> swap_left (Suc j) (as @ y # x # bs) = as @ x # y # bs"
  by (simp add: swap_left_def list_update_append nth_append)

lemma sift_left_sorted:
  fixes f :: "'a \<Rightarrow> 'k::linorder"
  assumes "sorted (map f as)"
  shows "sift_left (\<lambda>a b. f a < f b) (length as) (as @ x # bs) =
    filter (\<lambda>y. f y \<le> f x) as @ x # filter (\<lambda>y. f x < f y) as @ bs"
  using assms
proof (induction as arbitrary: bs rule: rev_induct)
  case (snoc y as)
  then have s: "sorted (map f as)" "\<forall>z \<in> set as. f z \<le> f y" by (simp_all add: sorted_append)
  show ?case
  proof (cases "f x < f y")
    case True
    with snoc.IH [OF s(1), of "y # bs"] show ?thesis
      by (simp add: nth_append swap_left_append)
  next
    case False
    with s(2) have le: "\<forall>z \<in> set (as @ [y]). f z \<le> f x" by force
    then have "filter (\<lambda>z. f z \<le> f x) (as @ [y]) = as @ [y]" "filter (\<lambda>z. f x < f z) (as @ [y]) = []"
      by (auto simp: filter_empty_conv filter_id_conv not_less)
    with False show ?thesis by (simp add: nth_append)
  qed
qed simp

lemma sort_key_snoc:
  fixes f :: "'a \<Rightarrow> 'k::linorder"
  shows "sort_key f (xs @ [x]) =
    filter (\<lambda>y. f y \<le> f x) (sort_key f xs) @ x # filter (\<lambda>y. f x < f y) (sort_key f xs)" (is "_ = ?l @ x # ?r")
proof (rule properties_for_sort_key)
  have "mset ?l + mset ?r = mset xs"
    using multiset_partition [of "mset (sort_key f xs)" "\<lambda>y. f y \<le> f x"] by (simp add: not_le)
  then show "mset (?l @ x # ?r) = mset (xs @ [x])" by simp
  have stable: "filter (\<lambda>y. f k = f y) (sort_key f xs) = filter (\<lambda>y. f k = f y) xs" for k
    using sort_key_stable [where f = f and k = "f k" and xs = xs] by (simp add: eq_commute [of "f k"])
  show "filter (\<lambda>y. f k = f y) (?l @ x # ?r) = filter (\<lambda>y. f k = f y) (xs @ [x])" for k
  proof -
    consider "f k < f x" | "f k = f x" | "f x < f k" by fastforce
    then show ?thesis
    proof cases
      case 1
      then have "filter (\<lambda>y. f k = f y) ?r = []" "filter (\<lambda>y. f k = f y) ?l = filter (\<lambda>y. f k = f y) (sort_key f xs)"
        by (auto simp: filter_empty_conv intro!: filter_cong)
      with 1 show ?thesis by (auto simp: stable)
    next
      case 2
      then have "filter (\<lambda>y. f k = f y) ?r = []" "filter (\<lambda>y. f k = f y) ?l = filter (\<lambda>y. f k = f y) (sort_key f xs)"
        by (auto simp: filter_empty_conv intro!: filter_cong)
      with 2 show ?thesis by (simp add: stable)
    next
      case 3
      then have "filter (\<lambda>y. f k = f y) ?l = []" "filter (\<lambda>y. f k = f y) ?r = filter (\<lambda>y. f k = f y) (sort_key f xs)"
        by (auto simp: filter_empty_conv intro!: filter_cong)
      with 3 show ?thesis by (auto simp: stable)
    qed
  qed
  have "sorted (map f (sort_key f xs))" by simp
  then have "sorted (map f ?l)" "sorted (map f ?r)" by (rule sorted_filter)+
  then show "sorted (map f (?l @ x # ?r))" by (auto simp: sorted_append intro: less_imp_le order_trans)
qed

lemma insertion_sort_is_sort_key:
  fixes f :: "'a \<Rightarrow> 'k::linorder"
  shows "insertion_sort (\<lambda>a b. f a < f b) xs = sort_key f xs"
proof -
  have "fold (sift_left (\<lambda>a b. f a < f b)) [1..<Suc i] xs = sort_key f (take (Suc i) xs) @ drop (Suc i) xs"
    if "i < length xs" for i
    using that
  proof (induction i)
    case 0
    then show ?case by (cases xs) simp_all
  next
    case (Suc i)
    let ?as = "sort_key f (take (Suc i) xs)"
    have d: "drop (Suc i) xs = xs ! Suc i # drop (Suc (Suc i)) xs" using Suc.prems by (simp add: Cons_nth_drop_Suc)
    have len: "length ?as = Suc i" using Suc.prems by simp
    have "fold (sift_left (\<lambda>a b. f a < f b)) [1..<Suc (Suc i)] xs =
        sift_left (\<lambda>a b. f a < f b) (length ?as) (?as @ xs ! Suc i # drop (Suc (Suc i)) xs)"
      using Suc by (simp only: len d [symmetric] upt_Suc_append le_simps) (simp add: Suc.IH)
    also have "\<dots> = sort_key f (take (Suc i) xs @ [xs ! Suc i]) @ drop (Suc (Suc i)) xs"
      using sift_left_sorted [of f ?as "xs ! Suc i"] by (simp add: sort_key_snoc)
    finally show ?case using Suc.prems by (simp add: take_Suc_conv_app_nth)
  qed
  from this [of "length xs - 1"] show ?thesis
    by (cases xs) (simp_all add: insertion_sort_def)
qed

lemma SortGroups_sort_key: "SortGroups gs = concat (map rg_Hops (sort_key (\<lambda>g. - rg_Priority g) gs))"
proof -
  have "insertion_sort (\<lambda>a b. rg_Priority a > rg_Priority b) gs = sort_key (\<lambda>g. - rg_Priority g) gs"
    by (simp flip: insertion_sort_is_sort_key)
  then show ?thesis by (cases gs) (simp_all add: SortGroups_def)
qed

lemma set_SortGroups: "set (SortGroups gs) = (\<Union>g \<in> set gs. set (rg_Hops g))"
  by (simp add: SortGroups_sort_key)

text \<open>C22: \<open>SortGroups\<close> concatenates the hops of the groups in descending order of priority, groups of
  equal priority in the order of the file: the in-place insertion sort equals the stable library
  sort by the negated priority, and it returns a permutation of the groups' hops.\<close>

theorem sort_groups_stable:
  "SortGroups gs = concat (map rg_Hops (sort_key (\<lambda>g. - rg_Priority g) gs)) \<and>
   mset (SortGroups gs) = sum_list (map (\<lambda>g. mset (rg_Hops g)) gs)"
proof
  show "SortGroups gs = concat (map rg_Hops (sort_key (\<lambda>g. - rg_Priority g) gs))"
    by (rule SortGroups_sort_key)
  have "mset (concat (map rg_Hops xs)) = sum_mset (image_mset (\<lambda>g. mset (rg_Hops g)) (mset xs))" for xs
    by (induction xs) simp_all
  from this [of "sort_key (\<lambda>g. - rg_Priority g) gs"]
  show "mset (SortGroups gs) = sum_list (map (\<lambda>g. mset (rg_Hops g)) gs)"
    unfolding SortGroups_sort_key by (simp flip: sum_mset_sum_list)
qed

section \<open>The configuration\<close>

definition ProtocolTCP :: string where "ProtocolTCP = ''tcp''"
definition ProtocolHTTP :: string where "ProtocolHTTP = ''http''"
definition ProtocolHTTPS :: string where "ProtocolHTTPS = ''https''"

record origin_config =
  oc_Host :: string
  oc_Port :: int
  oc_TLS :: bool
  oc_DialTimeout :: int
  oc_ConnectTimeout :: int

record http_config =
  hc_AddRequestHeaders :: "(string \<times> string) list"
  hc_RemoveRequestHeaders :: "string list"
  hc_RewriteHost :: bool
  hc_RewriteHostValue :: string

record service_config =
  sc_ID :: string
  sc_Port :: int
  sc_Protocol :: string
  sc_TargetIDC :: string
  sc_Groups :: "route_group list"
  sc_Routes :: "idc_route list"
  sc_Origin :: origin_config
  sc_HTTP :: http_config

definition ServiceConfig_SortedHops :: "service_config \<Rightarrow> hop_addr list" where
  "ServiceConfig_SortedHops s = SortGroups (sc_Groups s)"

record tls_config =
  tc_Enabled :: bool
  tc_CertFile :: string
  tc_KeyFile :: string

record tunnel_config =
  tn_ListenAddr :: string
  tn_Path :: string
  tn_TLS :: tls_config
  tn_ReadTimeout :: int
  tn_WriteTimeout :: int
  tn_MaxFrameSize :: int
  tn_PSK :: string

record access_config =
  ac_MaxFrameSize :: int
  ac_Services :: "service_config list"

text \<open>\<open>RelayConfig\<close> and \<open>EgressConfig\<close> have the same fields; each keeps its own type.\<close>

record relay_config =
  rc_Tunnel :: tunnel_config
  rc_Services :: "service_config list"

record egress_config =
  ec_Tunnel :: tunnel_config
  ec_Services :: "service_config list"

record node_config =
  nc_ID :: string
  nc_IDC :: string

record proxy_config =
  cf_Node :: node_config
  cf_Access :: "access_config option"
  cf_Relay :: "relay_config option"
  cf_Egress :: "egress_config option"

section \<open>Validation\<close>

definition maxAllowedFrameSize :: int where "maxAllowedFrameSize = 16 * 1024 * 1024"
definition defaultReadTimeout :: int where "defaultReadTimeout = 60 * 1000000000"
definition defaultWriteTimeout :: int where "defaultWriteTimeout = 60 * 1000000000"

definition validateHop :: "hop_addr \<Rightarrow> go_error option" where
  "validateHop h =
     (if ha_Type h = '''' then Some (Errorf ''type is required (\"domain\" or \"ip\")'' [])
      else if ha_Addr h = '''' then Some (Errorf ''addr is required'' [])
      else if ha_Port h = 0 then Some (Errorf ''port is required'' [])
      else if ha_Type h = HopAddrTypeIP then
        (if ha_TLS h \<and> ha_Host h = ''''
         then Some (Errorf ''type=ip with tls=true requires host (TLS SNI cannot be derived from an IP)'' []) else None)
      else if ha_Type h = HopAddrTypeDomain then
        (if ha_Host h \<noteq> ''''
         then Some (Errorf ''type=domain must not set host (addr %q is already the SNI)'' [ArgStr (ha_Addr h)]) else None)
      else Some (Errorf ''unknown type %q (want \"domain\" or \"ip\")'' [ArgStr (ha_Type h)]))"

text \<open>A \<open>for i, x := range xs\<close> loop that returns the first error of its body.\<close>

fun range_errs :: "(nat \<Rightarrow> 'a \<Rightarrow> go_error option) \<Rightarrow> nat \<Rightarrow> 'a list \<Rightarrow> go_error option" where
  "range_errs body i [] = None"
| "range_errs body i (x # xs) =
     (case body i x of Some e \<Rightarrow> Some e | None \<Rightarrow> range_errs body (Suc i) xs)"

definition validate_group :: "string \<Rightarrow> fmt_arg list \<Rightarrow> nat \<Rightarrow> route_group \<Rightarrow> go_error option" where
  "validate_group at pos j g =
     (if length (rg_Hops g) = 0
      then Some (Errorf (at @ ''groups[%d] (%s): at least one hop required'')
             (pos @ [ArgInt (int j), ArgStr (GroupName g)]))
      else range_errs (\<lambda>k h. map_option (Wrapf (at @ ''groups[%d].hops[%d]: %w'')
             (pos @ [ArgInt (int j), ArgInt (int k)])) (validateHop h)) 0 (rg_Hops g))"

definition validate_access_service :: "nat \<Rightarrow> int set \<Rightarrow> service_config \<Rightarrow> go_error option" where
  "validate_access_service i ports svc =
     (if sc_Port svc = 0 then Some (Errorf ''service[%d].port is required'' [ArgInt (int i)])
      else if sc_Port svc \<in> ports then Some (Errorf ''duplicate service port %d'' [ArgInt (sc_Port svc)])
      else if sc_TargetIDC svc = ''''
        then Some (Errorf ''service %q: target_idc is required'' [ArgStr (sc_ID svc)])
      else if length (sc_Groups svc) = 0
        then Some (Errorf ''service %q: at least one group required'' [ArgStr (sc_ID svc)])
      else if hc_RewriteHost (sc_HTTP svc) \<and> hc_RewriteHostValue (sc_HTTP svc) = ''''
        then Some (Errorf ''service %q: http.rewrite_host is true but http.rewrite_host_value is empty''
               [ArgStr (sc_ID svc)])
      else range_errs (validate_group ''service %q '' [ArgStr (sc_ID svc)]) 0 (sc_Groups svc))"

fun validate_access_services :: "nat \<Rightarrow> int set \<Rightarrow> service_config list \<Rightarrow> go_error option" where
  "validate_access_services i ports [] = None"
| "validate_access_services i ports (svc # rest) =
     (case validate_access_service i ports svc of
        Some e \<Rightarrow> Some e
      | None \<Rightarrow> validate_access_services (Suc i) (insert (sc_Port svc) ports) rest)"

definition validateAccess :: "access_config \<Rightarrow> go_error option" where
  "validateAccess a =
     (if ac_MaxFrameSize a > maxAllowedFrameSize
      then Some (Errorf ''max_frame_size %d exceeds maximum %d''
             [ArgInt (ac_MaxFrameSize a), ArgInt maxAllowedFrameSize])
      else validate_access_services 0 {} (ac_Services a))"

definition validate_route :: "string \<Rightarrow> nat \<Rightarrow> idc_route \<Rightarrow> go_error option" where
  "validate_route sid j rt =
     (if ir_IDC rt = ''''
      then Some (Errorf ''service %q routes[%d]: idc is required'' [ArgStr sid, ArgInt (int j)])
      else if length (ir_Groups rt) = 0
      then Some (Errorf ''service %q routes[%d] (idc=%s): at least one group required''
             [ArgStr sid, ArgInt (int j), ArgStr (ir_IDC rt)])
      else range_errs (validate_group ''service %q routes[%d].'' [ArgStr sid, ArgInt (int j)]) 0 (ir_Groups rt))"

definition validate_relay_service :: "nat \<Rightarrow> service_config \<Rightarrow> go_error option" where
  "validate_relay_service i svc =
     (if length (sc_Routes svc) = 0
      then Some (Errorf ''service[%d] %q has no routes'' [ArgInt (int i), ArgStr (sc_ID svc)])
      else range_errs (validate_route (sc_ID svc)) 0 (sc_Routes svc))"

text \<open>The tunnel section is completed in place once its own fields are checked.\<close>

definition default_timeouts :: "tunnel_config \<Rightarrow> tunnel_config" where
  "default_timeouts t =
     t\<lparr>tn_ReadTimeout := (if tn_ReadTimeout t = 0 then defaultReadTimeout else tn_ReadTimeout t),
       tn_WriteTimeout := (if tn_WriteTimeout t = 0 then defaultWriteTimeout else tn_WriteTimeout t)\<rparr>"

definition frame_size_error :: "int \<Rightarrow> go_error" where
  "frame_size_error n = Errorf ''tunnel.max_frame_size %d exceeds maximum %d''
     [ArgInt n, ArgInt maxAllowedFrameSize]"

definition validateRelay :: "relay_config \<Rightarrow> go_error option \<times> relay_config" where
  "validateRelay r =
     (if tn_ListenAddr (rc_Tunnel r) = '''' then (Some (Errorf ''tunnel.listen_addr is required'' []), r)
      else if tn_MaxFrameSize (rc_Tunnel r) > maxAllowedFrameSize
      then (Some (frame_size_error (tn_MaxFrameSize (rc_Tunnel r))), r)
      else (range_errs validate_relay_service 0 (rc_Services r),
            r\<lparr>rc_Tunnel := default_timeouts (rc_Tunnel r)\<rparr>))"

definition validate_egress_service :: "nat \<Rightarrow> service_config \<Rightarrow> go_error option" where
  "validate_egress_service i svc =
     (if oc_Host (sc_Origin svc) = ''''
      then Some (Errorf ''service[%d] %q: origin.host is required'' [ArgInt (int i), ArgStr (sc_ID svc)])
      else if oc_Port (sc_Origin svc) = 0
      then Some (Errorf ''service[%d] %q: origin.port is required'' [ArgInt (int i), ArgStr (sc_ID svc)])
      else None)"

definition validateEgress :: "node_config \<Rightarrow> egress_config \<Rightarrow> go_error option \<times> egress_config" where
  "validateEgress node e =
     (if tn_ListenAddr (ec_Tunnel e) = '''' then (Some (Errorf ''tunnel.listen_addr is required'' []), e)
      else if nc_IDC node = ''''
      then (Some (Errorf ''node.idc is required when egress is configured'' []), e)
      else if tn_MaxFrameSize (ec_Tunnel e) > maxAllowedFrameSize
      then (Some (frame_size_error (tn_MaxFrameSize (ec_Tunnel e))), e)
      else (range_errs validate_egress_service 0 (ec_Services e),
            e\<lparr>ec_Tunnel := default_timeouts (ec_Tunnel e)\<rparr>))"

text \<open>The three role sections are checked in turn; the relay and egress sections may be completed.\<close>

definition validate :: "proxy_config \<Rightarrow> go_error option \<times> proxy_config" where
  "validate c =
     (if nc_ID (cf_Node c) = '''' then (Some (Errorf ''node.id is required'' []), c)
      else if cf_Access c = None \<and> cf_Relay c = None \<and> cf_Egress c = None
      then (Some (Errorf ''at least one role section (access/relay/egress) must be configured'' []), c)
      else case Option.bind (cf_Access c) validateAccess of
        Some err \<Rightarrow> (Some (Wrapf ''access: %w'' [] err), c)
      | None \<Rightarrow>
        (let rr = map_option validateRelay (cf_Relay c); c1 = c\<lparr>cf_Relay := map_option snd rr\<rparr> in
         case Option.bind rr fst of
           Some err \<Rightarrow> (Some (Wrapf ''relay: %w'' [] err), c1)
         | None \<Rightarrow>
           (let re = map_option (validateEgress (cf_Node c)) (cf_Egress c);
                c2 = c1\<lparr>cf_Egress := map_option snd re\<rparr> in
            case Option.bind re fst of
              Some err \<Rightarrow> (Some (Wrapf ''egress: %w'' [] err), c2)
            | None \<Rightarrow> (None, c2))))"

text \<open>\<open>Load\<close> after reading and parsing: the parsed file or the parser's error.\<close>

definition Load :: "go_error + proxy_config \<Rightarrow> go_error + proxy_config" where
  "Load parsed = (case parsed of
     Inl e \<Rightarrow> Inl (Wrapf ''parse config: %w'' [] e)
   | Inr c \<Rightarrow> (case validate c of
       (Some e, _) \<Rightarrow> Inl (Wrapf ''invalid config: %w'' [] e)
     | (None, c') \<Rightarrow> Inr c'))"

section \<open>What a validated configuration guarantees\<close>

definition hop_ok :: "hop_addr \<Rightarrow> bool" where
  "hop_ok h \<longleftrightarrow> ha_Addr h \<noteq> '''' \<and> ha_Port h \<noteq> 0 \<and>
     (ha_Type h = HopAddrTypeIP \<and> (ha_TLS h \<longrightarrow> ha_Host h \<noteq> '''') \<or>
      ha_Type h = HopAddrTypeDomain \<and> ha_Host h = '''')"

definition group_ok :: "route_group \<Rightarrow> bool" where
  "group_ok g \<longleftrightarrow> rg_Hops g \<noteq> [] \<and> list_all hop_ok (rg_Hops g)"

definition groups_ok :: "route_group list \<Rightarrow> bool" where
  "groups_ok gs \<longleftrightarrow> gs \<noteq> [] \<and> list_all group_ok gs"

definition access_service_ok :: "service_config \<Rightarrow> bool" where
  "access_service_ok s \<longleftrightarrow> sc_Port s \<noteq> 0 \<and> sc_TargetIDC s \<noteq> '''' \<and> groups_ok (sc_Groups s) \<and>
     (hc_RewriteHost (sc_HTTP s) \<longrightarrow> hc_RewriteHostValue (sc_HTTP s) \<noteq> '''')"

definition relay_service_ok :: "service_config \<Rightarrow> bool" where
  "relay_service_ok s \<longleftrightarrow> sc_Routes s \<noteq> [] \<and>
     list_all (\<lambda>r. ir_IDC r \<noteq> '''' \<and> groups_ok (ir_Groups r)) (sc_Routes s)"

definition egress_service_ok :: "service_config \<Rightarrow> bool" where
  "egress_service_ok s \<longleftrightarrow> oc_Host (sc_Origin s) \<noteq> '''' \<and> oc_Port (sc_Origin s) \<noteq> 0"

definition tunnel_ok :: "tunnel_config \<Rightarrow> bool" where
  "tunnel_ok t \<longleftrightarrow> tn_ListenAddr t \<noteq> '''' \<and> tn_MaxFrameSize t \<le> maxAllowedFrameSize"

definition config_ok :: "proxy_config \<Rightarrow> bool" where
  "config_ok c \<longleftrightarrow> nc_ID (cf_Node c) \<noteq> '''' \<and>
     (cf_Access c \<noteq> None \<or> cf_Relay c \<noteq> None \<or> cf_Egress c \<noteq> None) \<and>
     pred_option (\<lambda>a. ac_MaxFrameSize a \<le> maxAllowedFrameSize \<and> list_all access_service_ok (ac_Services a) \<and>
       distinct (map sc_Port (ac_Services a))) (cf_Access c) \<and>
     pred_option (\<lambda>r. tunnel_ok (rc_Tunnel r) \<and> list_all relay_service_ok (rc_Services r)) (cf_Relay c) \<and>
     pred_option (\<lambda>e. tunnel_ok (ec_Tunnel e) \<and> nc_IDC (cf_Node c) \<noteq> '''' \<and>
       list_all egress_service_ok (ec_Services e)) (cf_Egress c)"

lemma range_errs_None: "range_errs body i xs = None \<longleftrightarrow> (\<forall>j < length xs. body (i + j) (xs ! j) = None)"
proof (induction xs arbitrary: i)
  case (Cons x xs)
  show ?case
    by (cases "body i x") (auto simp: Cons.IH less_Suc_eq_0_disj)
qed simp

lemma range_errs_None_all:
  assumes "\<And>j x. body j x = None \<longleftrightarrow> P x"
  shows "range_errs body i xs = None \<longleftrightarrow> list_all P xs"
  by (simp add: range_errs_None assms list_all_length)

lemma validateHop_None: "validateHop h = None \<longleftrightarrow> hop_ok h"
  by (auto simp: validateHop_def hop_ok_def HopAddrTypeIP_def HopAddrTypeDomain_def)

lemma validate_group_None: "validate_group at w j g = None \<longleftrightarrow> group_ok g"
  by (simp add: validate_group_def group_ok_def validateHop_None range_errs_None_all [where P = hop_ok])

lemma validate_groups_None: "range_errs (validate_group at w) i gs = None \<longleftrightarrow> list_all group_ok gs"
  by (simp add: range_errs_None_all [where P = group_ok] validate_group_None)

lemma validate_access_service_None:
  "validate_access_service i ports s = None \<longleftrightarrow> access_service_ok s \<and> sc_Port s \<notin> ports"
  by (auto simp: validate_access_service_def access_service_ok_def groups_ok_def validate_groups_None)

lemma validate_access_services_None:
  "validate_access_services i ports ss = None \<longleftrightarrow>
     list_all access_service_ok ss \<and> distinct (map sc_Port ss) \<and> sc_Port ` set ss \<inter> ports = {}"
proof (induction ss arbitrary: i ports)
  case (Cons s ss)
  show ?case
    by (cases "validate_access_service i ports s")
      (use validate_access_service_None [of i ports s] in \<open>auto simp: Cons.IH\<close>)
qed simp

lemma validateAccess_None:
  "validateAccess a = None \<longleftrightarrow> ac_MaxFrameSize a \<le> maxAllowedFrameSize \<and>
     list_all access_service_ok (ac_Services a) \<and> distinct (map sc_Port (ac_Services a))"
  by (auto simp: validateAccess_def validate_access_services_None)

lemma validate_relay_services_None:
  "range_errs validate_relay_service i ss = None \<longleftrightarrow> list_all relay_service_ok ss"
proof (rule range_errs_None_all)
  have route: "range_errs (validate_route sid) k rs = None \<longleftrightarrow>
      list_all (\<lambda>r. ir_IDC r \<noteq> '''' \<and> groups_ok (ir_Groups r)) rs" for sid k rs
    by (rule range_errs_None_all) (simp add: validate_route_def groups_ok_def validate_groups_None)
  show "validate_relay_service j s = None \<longleftrightarrow> relay_service_ok s" for j s
    by (simp add: validate_relay_service_def relay_service_ok_def route)
qed

lemma validateRelay_None:
  "fst (validateRelay r) = None \<longleftrightarrow> tunnel_ok (rc_Tunnel r) \<and> list_all relay_service_ok (rc_Services r)"
  by (auto simp: validateRelay_def tunnel_ok_def validate_relay_services_None)

lemma validateEgress_None:
  "fst (validateEgress node e) = None \<longleftrightarrow> tunnel_ok (ec_Tunnel e) \<and> nc_IDC node \<noteq> '''' \<and>
     list_all egress_service_ok (ec_Services e)"
proof -
  have "range_errs validate_egress_service i ss = None \<longleftrightarrow> list_all egress_service_ok ss" for i ss
    by (rule range_errs_None_all) (simp add: validate_egress_service_def egress_service_ok_def)
  then show ?thesis by (auto simp: validateEgress_def tunnel_ok_def)
qed

lemma validate_None: "fst (validate c) = None \<longleftrightarrow> config_ok c"
proof (cases "nc_ID (cf_Node c) = '''' \<or> cf_Access c = None \<and> cf_Relay c = None \<and> cf_Egress c = None")
  case True
  then show ?thesis by (auto simp: validate_def config_ok_def)
next
  case False
  have a: "Option.bind (cf_Access c) validateAccess = None \<longleftrightarrow> pred_option (\<lambda>a. validateAccess a = None) (cf_Access c)"
    by (cases "cf_Access c") simp_all
  have r: "Option.bind (map_option validateRelay (cf_Relay c)) fst = None \<longleftrightarrow>
      pred_option (\<lambda>r. fst (validateRelay r) = None) (cf_Relay c)"
    by (cases "cf_Relay c") simp_all
  have e: "Option.bind (map_option (validateEgress (cf_Node c)) (cf_Egress c)) fst = None \<longleftrightarrow>
      pred_option (\<lambda>e. fst (validateEgress (cf_Node c) e) = None) (cf_Egress c)"
    by (cases "cf_Egress c") simp_all
  have "fst (validate c) = None \<longleftrightarrow>
      pred_option (\<lambda>a. validateAccess a = None) (cf_Access c) \<and>
      pred_option (\<lambda>r. fst (validateRelay r) = None) (cf_Relay c) \<and>
      pred_option (\<lambda>e. fst (validateEgress (cf_Node c) e) = None) (cf_Egress c)"
    unfolding a [symmetric] r [symmetric] e [symmetric]
    using False by (auto simp: validate_def Let_def split: option.splits)
  with False show ?thesis
    by (auto simp: config_ok_def validateAccess_None validateRelay_None validateEgress_None)
qed

lemma groups_ok_sorted:
  assumes "groups_ok gs"
  shows "SortGroups gs \<noteq> [] \<and> list_all hop_ok (SortGroups gs)"
proof -
  from assms obtain g where "g \<in> set gs" "rg_Hops g \<noteq> []"
    by (cases gs) (auto simp: groups_ok_def group_ok_def)
  then have "SortGroups gs \<noteq> []" by (auto simp: set_SortGroups simp flip: set_empty)
  with assms show ?thesis by (auto simp: set_SortGroups groups_ok_def group_ok_def list_all_iff)
qed

lemma HopsForIDC_in:
  "idc \<in> ir_IDC ` set rs \<Longrightarrow> \<exists>r \<in> set rs. HopsForIDC rs idc = SortGroups (ir_Groups r)"
  by (induction rs) (auto simp: IDCRoute_SortedHops_def)

lemma validate_accepted:
  assumes "validate c = (None, c')"
  shows "config_ok c \<and> c' = c\<lparr>cf_Relay := map_option (rc_Tunnel_update default_timeouts) (cf_Relay c),
    cf_Egress := map_option (ec_Tunnel_update default_timeouts) (cf_Egress c)\<rparr>"
proof
  show ok: "config_ok c" using assms validate_None [of c] by simp
  have r: "snd (validateRelay r) = rc_Tunnel_update default_timeouts r" if "cf_Relay c = Some r" for r
    using ok that by (auto simp: config_ok_def validateRelay_def tunnel_ok_def)
  have e: "snd (validateEgress (cf_Node c) e) = ec_Tunnel_update default_timeouts e" if "cf_Egress c = Some e" for e
    using ok that by (auto simp: config_ok_def validateEgress_def tunnel_ok_def)
  from assms r e show "c' = c\<lparr>cf_Relay := map_option (rc_Tunnel_update default_timeouts) (cf_Relay c),
      cf_Egress := map_option (ec_Tunnel_update default_timeouts) (cf_Egress c)\<rparr>"
    by (cases "cf_Relay c"; cases "cf_Egress c")
      (auto simp: validate_def Let_def split: if_splits option.splits)
qed


lemma SNIHost_ok: "hop_ok h \<Longrightarrow> ha_TLS h \<Longrightarrow> SNIHost h \<noteq> ''''"
  by (auto simp: hop_ok_def SNIHost_def HopAddrTypeIP_def HopAddrTypeDomain_def)

lemma tn_default_timeouts [simp]:
  "tn_ListenAddr (default_timeouts t) = tn_ListenAddr t"
  "tn_MaxFrameSize (default_timeouts t) = tn_MaxFrameSize t"
  "tn_ReadTimeout (default_timeouts t) \<noteq> 0" "tn_WriteTimeout (default_timeouts t) \<noteq> 0"
  "default_timeouts (default_timeouts t) = default_timeouts t"
  by (simp_all add: default_timeouts_def defaultReadTimeout_def defaultWriteTimeout_def)

lemma validate_again:
  assumes "validate c = (None, c')"
  shows "validate c' = (None, c')"
proof -
  from validate_accepted [OF assms] have c': "config_ok c"
    "c' = c\<lparr>cf_Relay := map_option (rc_Tunnel_update default_timeouts) (cf_Relay c),
      cf_Egress := map_option (ec_Tunnel_update default_timeouts) (cf_Egress c)\<rparr>" by simp_all
  then have "config_ok c'"
    by (cases "cf_Relay c"; cases "cf_Egress c") (auto simp: config_ok_def tunnel_ok_def)
  then obtain c'' where c'': "validate c' = (None, c'')"
    using validate_None [of c'] by (cases "validate c'") simp
  from validate_accepted [OF this] c'(2) have "c'' = c'"
    by (cases "cf_Relay c"; cases "cf_Egress c") (simp_all add: comp_def)
  with c'' show ?thesis by simp
qed

lemma Load_ok:
  assumes "Load parsed = Inr c"
  shows "config_ok c"
proof -
  from assms obtain c0 where "validate c0 = (None, c)"
    by (auto simp: Load_def split: sum.splits prod.splits option.splits)
  then have "validate c = (None, c)" by (rule validate_again)
  then show ?thesis using validate_None [of c] by simp
qed

text \<open>A relay that starts from a validated configuration can serve every route it names: the
  hop list for each configured data centre is not empty, every hop is well formed and has a name
  to present when it uses TLS, the tunnel's timeouts are set; and validating again changes nothing.\<close>

theorem validated_routes_usable:
  assumes "validate c = (None, c')" and "cf_Relay c' = Some r"
    and "s \<in> set (rc_Services r)" and "idc \<in> ir_IDC ` set (sc_Routes s)"
  shows "HopsForIDC (sc_Routes s) idc \<noteq> []"
    and "list_all (\<lambda>h. hop_ok h \<and> (ha_TLS h \<longrightarrow> SNIHost h \<noteq> '''')) (HopsForIDC (sc_Routes s) idc)"
    and "tn_ReadTimeout (rc_Tunnel r) \<noteq> 0 \<and> tn_WriteTimeout (rc_Tunnel r) \<noteq> 0"
    and "validate c' = (None, c')"
proof -
  from validate_accepted [OF assms(1)] assms(2) obtain r0 where ok: "config_ok c" and r0: "cf_Relay c = Some r0"
    "r = rc_Tunnel_update default_timeouts r0" by auto
  then have "relay_service_ok s" using assms(3) by (auto simp: config_ok_def list_all_iff)
  then have all: "\<forall>rt \<in> set (sc_Routes s). groups_ok (ir_Groups rt)"
    by (simp add: relay_service_ok_def list_all_iff)
  from HopsForIDC_in [OF assms(4)] obtain rt where rt: "rt \<in> set (sc_Routes s)"
    "HopsForIDC (sc_Routes s) idc = SortGroups (ir_Groups rt)" by blast
  with all have "groups_ok (ir_Groups rt)" by blast
  from groups_ok_sorted [OF this] rt(2) SNIHost_ok
  show "HopsForIDC (sc_Routes s) idc \<noteq> []"
    "list_all (\<lambda>h. hop_ok h \<and> (ha_TLS h \<longrightarrow> SNIHost h \<noteq> '''')) (HopsForIDC (sc_Routes s) idc)"
    by (auto simp: list_all_iff)
  show "tn_ReadTimeout (rc_Tunnel r) \<noteq> 0 \<and> tn_WriteTimeout (rc_Tunnel r) \<noteq> 0" using r0 by simp
  show "validate c' = (None, c')" by (rule validate_again [OF assms(1)])
qed

definition example_hop :: hop_addr where
  "example_hop = \<lparr>ha_Type = HopAddrTypeIP, ha_Addr = ''10.0.0.2'', ha_Port = 443, ha_Host = ''r2.example'',
     ha_TLS = True, ha_TunnelPath = ''''\<rparr>"

definition example_service :: service_config where
  "example_service = \<lparr>sc_ID = ''web'', sc_Port = 0, sc_Protocol = ProtocolTCP, sc_TargetIDC = '''',
     sc_Groups = [],
     sc_Routes = [\<lparr>ir_IDC = ''sh'', ir_Groups =
       [\<lparr>rg_Name = '''', rg_Priority = 1, rg_Weight = 0, rg_Hops = [example_hop]\<rparr>]\<rparr>],
     sc_Origin = \<lparr>oc_Host = '''', oc_Port = 0, oc_TLS = False, oc_DialTimeout = 0, oc_ConnectTimeout = 0\<rparr>,
     sc_HTTP = \<lparr>hc_AddRequestHeaders = [], hc_RemoveRequestHeaders = [], hc_RewriteHost = False,
       hc_RewriteHostValue = ''''\<rparr>\<rparr>"

definition example_tunnel :: tunnel_config where
  "example_tunnel = \<lparr>tn_ListenAddr = '':7000'', tn_Path = ''/tunnel'',
     tn_TLS = \<lparr>tc_Enabled = False, tc_CertFile = '''', tc_KeyFile = ''''\<rparr>,
     tn_ReadTimeout = 0, tn_WriteTimeout = 5, tn_MaxFrameSize = 65536, tn_PSK = ''k''\<rparr>"

definition example_config :: proxy_config where
  "example_config = \<lparr>cf_Node = \<lparr>nc_ID = ''n1'', nc_IDC = ''bj''\<rparr>, cf_Access = None,
     cf_Relay = Some \<lparr>rc_Tunnel = example_tunnel, rc_Services = [example_service]\<rparr>, cf_Egress = None\<rparr>"

lemma example_config_valid:
  "validate example_config = (None, example_config\<lparr>cf_Relay :=
     Some \<lparr>rc_Tunnel = default_timeouts example_tunnel, rc_Services = [example_service]\<rparr>\<rparr>)"
  by code_simp

theorem validated_routes_usable_witness:
  "HopsForIDC (sc_Routes example_service) ''sh'' \<noteq> [] \<and>
   tn_ReadTimeout (default_timeouts example_tunnel) \<noteq> 0"
  using validated_routes_usable(1,3) [OF example_config_valid, of _ example_service "''sh''"]
  by (simp add: example_service_def)

end
