(* ===== verification/HopPool.thy ===== *)
theory HopPool
  imports Config "HOL-Library.Signed_Division"
begin

text \<open>
  \<^verbatim>\<open>internal/tunnel/hop_pool.go\<close>: endpoints with health and latency, the two selection
  strategies, the pool with its hot reload, and the prober's step. Endpoints are shared pointers:
  the pool holds indices into a store of endpoints, so that two entries of the list may be the same
  endpoint. \<open>float64\<close> latencies are a linear order with the operations of \<open>float_ops\<close>; the time that a
  dial took and its outcome come from the network and are arguments.
\<close>

section \<open>Endpoints\<close>

text \<open>The arithmetic on \<open>float64\<close>: \<open>math.MaxFloat64\<close>, the conversion from integer milliseconds, and
  \<open>ewmaAlpha*ms + (1-ewmaAlpha)*old\<close>.\<close>

record 'l float_ops =
  fo_Max :: 'l
  fo_of_ms :: "int \<Rightarrow> 'l"
  fo_ewma :: "'l \<Rightarrow> 'l \<Rightarrow> 'l"

record 'l hop_endpoint =
  ep_addr :: hop_addr
  ep_alive :: bool
  ep_latency :: 'l
  ep_samples :: int

type_synonym ep_ref = nat

definition newHopEndpoint :: "'l float_ops \<Rightarrow> hop_addr \<Rightarrow> 'l hop_endpoint" where
  "newHopEndpoint fo addr = \<lparr>ep_addr = addr, ep_alive = True, ep_latency = fo_Max fo, ep_samples = 0\<rparr>"

definition recordLatency :: "'l float_ops \<Rightarrow> int \<Rightarrow> 'l hop_endpoint \<Rightarrow> 'l hop_endpoint" where
  "recordLatency fo ms e =
     e\<lparr>ep_latency := (if ep_samples e = 0 then fo_of_ms fo ms else fo_ewma fo (fo_of_ms fo ms) (ep_latency e)),
       ep_samples := ep_samples e + 1\<rparr>"

type_synonym 'l ep_store = "'l hop_endpoint list"

definition aliveOnly :: "'l ep_store \<Rightarrow> ep_ref list \<Rightarrow> ep_ref list" where
  "aliveOnly st eps = filter (\<lambda>e. ep_alive (st ! e)) eps"

text \<open>Both strategies start with the alive endpoints, or with all of them when none is alive.\<close>

definition candidates :: "'l ep_store \<Rightarrow> ep_ref list \<Rightarrow> ep_ref list" where
  "candidates st eps = (let alive = aliveOnly st eps in if length alive = 0 then eps else alive)"

section \<open>Selection strategies\<close>

text \<open>
  \<open>RoundRobinSelector.Pick\<close>: the old value of the counter, read as a signed integer, modulo the number
  of candidates. Go's \<open>%\<close> truncates towards zero and panics on a zero divisor; indexing with a negative
  number panics. \<open>None\<close> is a panic.
\<close>

definition rr_index :: "int \<Rightarrow> nat \<Rightarrow> nat \<Rightarrow> nat option" where
  "rr_index start n i =
     (let k = (start + int i) smod int n in if 0 \<le> k \<and> k < int n then Some (nat k) else None)"

fun rr_fill :: "int \<Rightarrow> ep_ref list \<Rightarrow> nat list \<Rightarrow> ep_ref list option" where
  "rr_fill start alive [] = Some []"
| "rr_fill start alive (i # is) =
     (case rr_index start (length alive) i of
        None \<Rightarrow> None
      | Some k \<Rightarrow> map_option ((#) (alive ! k)) (rr_fill start alive is))"

definition RoundRobin_Pick ::
  "64 word \<Rightarrow> 'l ep_store \<Rightarrow> ep_ref list \<Rightarrow> (64 word \<times> ep_ref list) option" where
  "RoundRobin_Pick counter st endpoints =
     (let alive = candidates st endpoints; n = length alive in
      if n = 0 then None
      else (let start = sint counter smod int n in
            map_option (\<lambda>r. (counter + 1, r)) (rr_fill start alive [0..<n])))"

definition Latency_Pick :: "'l::linorder ep_store \<Rightarrow> ep_ref list \<Rightarrow> ep_ref list" where
  "Latency_Pick st endpoints =
     insertion_sort (\<lambda>a b. ep_latency (st ! a) < ep_latency (st ! b)) (candidates st endpoints)"

datatype selector = RoundRobinSelector "64 word" | LatencySelector

definition selector_Pick ::
  "selector \<Rightarrow> 'l::linorder ep_store \<Rightarrow> ep_ref list \<Rightarrow> (selector \<times> ep_ref list) option" where
  "selector_Pick s st eps = (case s of
     RoundRobinSelector c \<Rightarrow> map_option (\<lambda>(c', r). (RoundRobinSelector c', r)) (RoundRobin_Pick c st eps)
   | LatencySelector \<Rightarrow> Some (LatencySelector, Latency_Pick st eps))"

section \<open>The pool\<close>

record 'l hop_pool =
  hp_store :: "'l hop_endpoint list"
  hp_endpoints :: "ep_ref list"
  hp_selector :: selector

definition makeEndpoints :: "'l float_ops \<Rightarrow> hop_addr list \<Rightarrow> 'l hop_endpoint list" where
  "makeEndpoints fo addrs = map (newHopEndpoint fo) addrs"

text \<open>A \<open>nil\<close> selector becomes a fresh round-robin one.\<close>

definition NewHopPool :: "'l float_ops \<Rightarrow> hop_addr list \<Rightarrow> selector option \<Rightarrow> 'l hop_pool" where
  "NewHopPool fo addrs sel =
     \<lparr>hp_store = makeEndpoints fo addrs, hp_endpoints = [0..<length addrs],
      hp_selector = (case sel of None \<Rightarrow> RoundRobinSelector 0 | Some s \<Rightarrow> s)\<rparr>"

definition Addrs :: "'l hop_pool \<Rightarrow> hop_addr list" where
  "Addrs p = map (\<lambda>e. ep_addr (hp_store p ! e)) (hp_endpoints p)"

definition pool_size :: "'l hop_pool \<Rightarrow> nat" where
  "pool_size p = length (hp_endpoints p)"

text \<open>The map from identities to endpoints: a later endpoint overwrites an earlier one.\<close>

definition existing_endpoints :: "'l hop_pool \<Rightarrow> string \<Rightarrow> ep_ref option" where
  "existing_endpoints p = map_of (rev (map (\<lambda>e. (Identity (ep_addr (hp_store p ! e)), e)) (hp_endpoints p)))"

fun update_loop ::
  "'l float_ops \<Rightarrow> (string \<Rightarrow> ep_ref option) \<Rightarrow> hop_addr list \<Rightarrow> 'l ep_store \<Rightarrow> 'l ep_store \<times> ep_ref list" where
  "update_loop fo existing [] st = (st, [])"
| "update_loop fo existing (a # as) st =
     (case existing (Identity a) of
        Some e \<Rightarrow>
          (let st' = (if HopAddr_Equal (ep_addr (st ! e)) a then st else st[e := (st ! e)\<lparr>ep_addr := a\<rparr>]);
               (st'', next') = update_loop fo existing as st' in (st'', e # next'))
      | None \<Rightarrow>
          (let (st'', next') = update_loop fo existing as (st @ [newHopEndpoint fo a])
           in (st'', length st # next')))"

definition UpdateEndpoints :: "'l float_ops \<Rightarrow> hop_addr list \<Rightarrow> 'l hop_pool \<Rightarrow> 'l hop_pool" where
  "UpdateEndpoints fo newAddrs p =
     (let (st, next') = update_loop fo (existing_endpoints p) newAddrs (hp_store p)
      in p\<lparr>hp_store := st, hp_endpoints := next'\<rparr>)"

definition pick :: "'l::linorder hop_pool \<Rightarrow> ('l hop_pool \<times> ep_ref list) option" where
  "pick p = map_option (\<lambda>(s, eps). (p\<lparr>hp_selector := s\<rparr>, eps))
     (selector_Pick (hp_selector p) (hp_store p) (hp_endpoints p))"

definition reportResult :: "'l float_ops \<Rightarrow> ep_ref \<Rightarrow> bool \<Rightarrow> int \<Rightarrow> 'l hop_pool \<Rightarrow> 'l hop_pool" where
  "reportResult fo e success latency p =
     (if success then p\<lparr>hp_store := (hp_store p)[e := recordLatency fo latency ((hp_store p ! e)\<lparr>ep_alive := True\<rparr>)]\<rparr>
      else p\<lparr>hp_store := (hp_store p)[e := (hp_store p ! e)\<lparr>ep_alive := False\<rparr>]\<rparr>)"

text \<open>
  One round of the prober. \<open>probe a\<close> is what \<open>net.DialTimeout\<close> answers for the address, with the
  elapsed milliseconds. The goroutines of a round act on one endpoint each; they are run in list order.
\<close>

definition probeOne ::
  "'l float_ops \<Rightarrow> (string \<Rightarrow> go_error + int) \<Rightarrow> ep_ref \<Rightarrow> 'l hop_pool \<Rightarrow> 'l hop_pool" where
  "probeOne fo probe e p =
     (case probe (DialAddr (ep_addr (hp_store p ! e))) of
        Inl err \<Rightarrow> reportResult fo e False 0 p
      | Inr elapsed \<Rightarrow> reportResult fo e True elapsed p)"

definition probeAll :: "'l float_ops \<Rightarrow> (string \<Rightarrow> go_error + int) \<Rightarrow> 'l hop_pool \<Rightarrow> 'l hop_pool" where
  "probeAll fo probe p = fold (probeOne fo probe) (hp_endpoints p) p"

definition pool_ok :: "'l hop_pool \<Rightarrow> bool" where
  "pool_ok p \<longleftrightarrow> list_all (\<lambda>e. e < length (hp_store p)) (hp_endpoints p)"

lemma NewHopPool_ok: "pool_ok (NewHopPool fo addrs sel)"
  by (simp add: pool_ok_def NewHopPool_def makeEndpoints_def list_all_iff)

lemma Addrs_NewHopPool [simp]: "Addrs (NewHopPool fo addrs sel) = addrs"
  by (simp add: Addrs_def NewHopPool_def makeEndpoints_def newHopEndpoint_def list_eq_iff_nth_eq [of _ addrs])

section \<open>Selection\<close>

lemma candidates_Nil [simp]: "candidates st eps = [] \<longleftrightarrow> eps = []"
  by (auto simp: candidates_def aliveOnly_def Let_def)

lemma set_candidates: "set (candidates st eps) \<subseteq> set eps"
  by (auto simp: candidates_def aliveOnly_def Let_def)

lemma smod_nonneg: "0 \<le> a \<Longrightarrow> 0 < n \<Longrightarrow> a smod n = a mod n" for a n :: int
  by (cases "a = 0") (simp_all add: signed_modulo_int_def)

lemma rr_index_rotate:
  assumes "0 \<le> start" and "0 < n"
  shows "rr_index start n i = Some ((nat start + i) mod n)"
proof -
  have "(start + int i) smod int n = int ((nat start + i) mod n)"
    using assms by (simp add: smod_nonneg zmod_int)
  then show ?thesis using assms by (simp add: rr_index_def)
qed

lemma rr_fill_rotate:
  assumes "0 \<le> start" and "alive \<noteq> []"
  shows "rr_fill start alive is = Some (map (\<lambda>i. alive ! ((nat start + i) mod length alive)) is)"
  using assms by (induction "is") (simp_all add: rr_index_rotate)

lemma map_nth_rotate: "xs \<noteq> [] \<Longrightarrow> map (\<lambda>i. xs ! ((k + i) mod length xs)) [0..<length xs] = rotate k xs"
  by (rule nth_equalityI) (simp_all add: nth_rotate add.commute)

lemma sint_small: "unat c < 2 ^ 63 \<Longrightarrow> sint c = int (unat c)" for c :: "64 word"
proof -
  assume "unat c < 2 ^ 63"
  then have "int (unat c) < int (2 ^ 63)" by (simp only: of_nat_less_iff)
  moreover have u: "uint c = int (unat c)" by simp
  ultimately have "uint c < 2 ^ 63" by (simp only: u) simp
  moreover have "0 \<le> uint c" by simp
  ultimately have "- (2 ^ 63) \<le> uint c" "uint c < 2 ^ 63" by linarith+
  then have "sint c = uint c" by (simp only: sint_uint) (simp add: signed_take_bit_int_eq_self)
  with u show ?thesis by (simp only:)
qed

text \<open>As long as the counter is below \<^term>\<open>2 ^ 63 :: nat\<close>, a round-robin pick is a rotation of the candidates.\<close>

lemma RoundRobin_Pick_rotate:
  assumes "unat c < 2 ^ 63" and "eps \<noteq> []"
  shows "RoundRobin_Pick c st eps = Some (c + 1, rotate (unat c) (candidates st eps))"
proof -
  let ?al = "candidates st eps"
  have ne: "?al \<noteq> []" using assms(2) by simp
  then have n: "0 < int (length ?al)" by simp
  have "sint c smod int (length ?al) = int (unat c mod length ?al)"
    using assms(1) n by (simp add: sint_small smod_nonneg zmod_int)
  with ne show ?thesis
    by (simp add: RoundRobin_Pick_def Let_def rr_fill_rotate map_nth_rotate rotate_conv_mod [of "unat c"])
qed

lemma Latency_Pick_sorts: "Latency_Pick st eps = sort_key (\<lambda>e. ep_latency (st ! e)) (candidates st eps)"
  by (simp add: Latency_Pick_def insertion_sort_is_sort_key)

text \<open>
  What the dialer relies on: a strategy that is in order answers, keeps in order as long as its
  own bound allows, and returns exactly the candidates.
\<close>

locale hop_selector =
  fixes ready :: "selector \<Rightarrow> bool"
  assumes picks: "ready s \<Longrightarrow> eps \<noteq> [] \<Longrightarrow>
    \<exists>s' r. selector_Pick s (st :: 'l::linorder ep_store) eps = Some (s', r) \<and> mset r = mset (candidates st eps)"
begin

lemma pick_candidates:
  assumes "ready (hp_selector p)" and "hp_endpoints p \<noteq> []"
  obtains s' r where "pick (p :: 'l hop_pool) = Some (p\<lparr>hp_selector := s'\<rparr>, r)"
    and "mset r = mset (candidates (hp_store p) (hp_endpoints p))"
proof -
  from picks [OF assms, of "hp_store p"] obtain s' r where
    "selector_Pick (hp_selector p) (hp_store p) (hp_endpoints p) = Some (s', r)"
    "mset r = mset (candidates (hp_store p) (hp_endpoints p))" by blast
  then show thesis by (intro that [of s' r]) (simp_all add: pick_def)
qed

lemma pick_within:
  assumes "ready (hp_selector p)" and "hp_endpoints p \<noteq> []"
    and "pick (p :: 'l hop_pool) = Some (p', r)"
  shows "set r \<subseteq> set (hp_endpoints p) \<and> r \<noteq> [] \<and> hp_store p' = hp_store p \<and> hp_endpoints p' = hp_endpoints p"
proof -
  from pick_candidates [OF assms(1,2)] obtain s' where
    s': "p' = p\<lparr>hp_selector := s'\<rparr>" "mset r = mset (candidates (hp_store p) (hp_endpoints p))"
    using assms(3) by force
  then have "set r = set (candidates (hp_store p) (hp_endpoints p))" by (metis set_mset_mset)
  with set_candidates [of "hp_store p" "hp_endpoints p"] assms(2) s'(1) show ?thesis
    by (metis candidates_Nil hop_pool.select_convs(1,2) hop_pool.surjective hop_pool.update_convs(3) set_empty)
qed

end

definition rr_ready :: "selector \<Rightarrow> bool" where
  "rr_ready s \<longleftrightarrow> (case s of RoundRobinSelector c \<Rightarrow> unat c < 2 ^ 63 | LatencySelector \<Rightarrow> False)"

definition latency_ready :: "selector \<Rightarrow> bool" where
  "latency_ready s \<longleftrightarrow> s = LatencySelector"

interpretation rr: hop_selector rr_ready
proof
  fix s and eps :: "ep_ref list" and st :: "'l::linorder ep_store"
  assume "rr_ready s" and ne: "eps \<noteq> []"
  then obtain c where c: "s = RoundRobinSelector c" "unat c < 2 ^ 63"
    by (auto simp: rr_ready_def split: selector.splits)
  have "mset (rotate k xs) = mset xs" for k and xs :: "ep_ref list"
    by (metis append_take_drop_id mset_append rotate_drop_take union_commute)
  with c ne show "\<exists>s' r. selector_Pick s st eps = Some (s', r) \<and> mset r = mset (candidates st eps)"
    by (simp add: selector_Pick_def RoundRobin_Pick_rotate)
qed

interpretation lat: hop_selector latency_ready
  by unfold_locales (simp add: latency_ready_def selector_Pick_def Latency_Pick_sorts)

text \<open>The endpoints that come first in \<open>k\<close> consecutive picks.\<close>

fun first_picks :: "nat \<Rightarrow> 'l::linorder hop_pool \<Rightarrow> ep_ref list option" where
  "first_picks 0 p = Some []"
| "first_picks (Suc k) p =
     (case pick p of Some (p', e # es) \<Rightarrow> map_option ((#) e) (first_picks k p') | _ \<Rightarrow> None)"

lemma first_picks_Suc:
  "pick p = Some (p', r) \<Longrightarrow> r \<noteq> [] \<Longrightarrow>
   first_picks (Suc k) p = map_option ((#) (hd r)) (first_picks k p')"
  by (cases r) simp_all

lemma first_picks_nth:
  fixes p :: "'l::linorder hop_pool"
  assumes "hp_selector p = RoundRobinSelector c" and "unat c + k < 2 ^ 63" and "hp_endpoints p \<noteq> []"
  shows "first_picks k p = Some (map (\<lambda>i. candidates (hp_store p) (hp_endpoints p) !
    ((unat c + i) mod length (candidates (hp_store p) (hp_endpoints p)))) [0..<k])"
  using assms
proof (induction k arbitrary: p c)
  case (Suc k)
  let ?al = "candidates (hp_store p) (hp_endpoints p)" and ?p' = "p\<lparr>hp_selector := RoundRobinSelector (c + 1)\<rparr>"
  have ne: "?al \<noteq> []" using Suc.prems(3) by simp
  have c1: "unat (c + 1) = Suc (unat c)"
    using Suc.prems(2) by (simp add: unat_word_ariths)
  have "pick p = Some (?p', rotate (unat c) ?al)"
    using Suc.prems by (simp add: pick_def selector_Pick_def RoundRobin_Pick_rotate)
  from first_picks_Suc [OF this] have "first_picks (Suc k) p =
      map_option ((#) (?al ! (unat c mod length ?al))) (first_picks k ?p')"
    using ne by (simp only: rotate_is_Nil_conv hd_rotate_conv_nth simp_thms True_implies_equals)
  moreover have "first_picks k ?p' = Some (map (\<lambda>i. ?al ! ((Suc (unat c) + i) mod length ?al)) [0..<k])"
    using Suc.IH [of ?p' "c + 1"] Suc.prems c1 by simp
  moreover have "map (\<lambda>i. ?al ! ((unat c + i) mod length ?al)) [0..<Suc k] =
      ?al ! (unat c mod length ?al) # map (\<lambda>i. ?al ! ((Suc (unat c) + i) mod length ?al)) [0..<k]"
    by (simp del: upt_Suc add: upt_conv_Cons [of 0 "Suc k"] map_Suc_upt [symmetric] comp_def)
  ultimately show ?case by (simp only: option.map)
qed simp

text \<open>C36: Round robin is fair. While the set of live endpoints stays the same and the counter is far from
  its top, as many consecutive picks as there are candidates put every candidate first exactly once,
  in the cyclic order of the list.\<close>

theorem round_robin_fair:
  fixes p :: "'l::linorder hop_pool"
  assumes "hp_selector p = RoundRobinSelector c" and "hp_endpoints p \<noteq> []"
    and "n = length (candidates (hp_store p) (hp_endpoints p))" and "unat c + n < 2 ^ 63"
  shows "first_picks n p = Some (rotate (unat c) (candidates (hp_store p) (hp_endpoints p)))"
proof -
  have ne: "candidates (hp_store p) (hp_endpoints p) \<noteq> []" using assms(2) by simp
  show ?thesis
    using first_picks_nth [OF assms(1) assms(4) assms(2)] map_nth_rotate [OF ne] assms(3) by simp
qed

definition example_floats :: "int float_ops" where
  "example_floats = \<lparr>fo_Max = 10 ^ 18, fo_of_ms = (\<lambda>ms. ms), fo_ewma = (\<lambda>ms old. (ms + 4 * old) div 5)\<rparr>"

definition example_addr :: "int \<Rightarrow> hop_addr" where
  "example_addr port = \<lparr>ha_Type = HopAddrTypeDomain, ha_Addr = ''r.example'', ha_Port = port, ha_Host = '''',
     ha_TLS = False, ha_TunnelPath = ''''\<rparr>"

definition example_pool :: "int hop_pool" where
  "example_pool = NewHopPool example_floats [example_addr 1, example_addr 2, example_addr 3] None"

theorem round_robin_fair_witness: "first_picks 3 example_pool = Some [0, 1, 2]"
proof -
  have "hp_selector example_pool = RoundRobinSelector 0"
    "candidates (hp_store example_pool) (hp_endpoints example_pool) = [0, 1, 2]"
    "hp_endpoints example_pool \<noteq> []" by code_simp+
  with round_robin_fair [of example_pool 0 3] show ?thesis by simp
qed

text \<open>The two limits of round robin. A pool without endpoints makes \<open>Pick\<close> divide by zero, and once
  the counter has passed \<^term>\<open>2 ^ 63 :: nat\<close> its signed reading is negative, so that a pool of three live
  endpoints is indexed out of range: both are panics.\<close>

theorem round_robin_panics:
  "pick (NewHopPool fo [] None) = None \<and>
   pick (example_pool\<lparr>hp_selector := RoundRobinSelector (2 ^ 63)\<rparr>) = None"
proof
  show "pick (NewHopPool fo [] None) = None"
    by (simp add: pick_def NewHopPool_def selector_Pick_def RoundRobin_Pick_def candidates_def aliveOnly_def)
  show "pick (example_pool\<lparr>hp_selector := RoundRobinSelector (2 ^ 63)\<rparr>) = None" by code_simp
qed

text \<open>The latency strategy orders the candidates by their latency estimate, endpoints with equal
  estimates in list order, and skips dead endpoints unless every endpoint is dead.\<close>

theorem latency_pick_sorted:
  fixes st :: "'l::linorder ep_store"
  shows "Latency_Pick st eps = sort_key (\<lambda>e. ep_latency (st ! e))
    (if list_ex (\<lambda>e. ep_alive (st ! e)) eps then filter (\<lambda>e. ep_alive (st ! e)) eps else eps)"
  by (auto simp: Latency_Pick_sorts candidates_def aliveOnly_def Let_def list_ex_iff filter_empty_conv)

section \<open>Hot reload\<close>

definition ep_health :: "'l hop_endpoint \<Rightarrow> bool \<times> 'l \<times> int" where
  "ep_health e = (ep_alive e, ep_latency e, ep_samples e)"

definition pool_health :: "'l hop_pool \<Rightarrow> string \<Rightarrow> (bool \<times> 'l \<times> int) option" where
  "pool_health p ident = map_option (\<lambda>e. ep_health (hp_store p ! e)) (existing_endpoints p ident)"

definition refs_ok :: "(string \<Rightarrow> ep_ref option) \<Rightarrow> 'l ep_store \<Rightarrow> bool" where
  "refs_ok existing st \<longleftrightarrow> (\<forall>i e. existing i = Some e \<longrightarrow> e < length st \<and> Identity (ep_addr (st ! e)) = i)"

lemma refs_ok_existing: "pool_ok p \<Longrightarrow> refs_ok (existing_endpoints p) (hp_store p)"
  by (auto simp: refs_ok_def existing_endpoints_def pool_ok_def list_all_iff dest!: map_of_SomeD)

lemma refs_ok_update: "refs_ok ex st \<Longrightarrow> ex (Identity a) = Some e \<Longrightarrow> refs_ok ex (st[e := (st ! e)\<lparr>ep_addr := a\<rparr>])"
  by (simp add: refs_ok_def nth_list_update) (metis option.inject)

lemma refs_ok_append: "refs_ok ex st \<Longrightarrow> refs_ok ex (st @ [e])"
  by (auto simp: refs_ok_def nth_append dest: less_SucI)

text \<open>What a step does to the store, in one form for a known and for a new identity.\<close>

definition update_step ::
  "'l float_ops \<Rightarrow> (string \<Rightarrow> ep_ref option) \<Rightarrow> hop_addr \<Rightarrow> 'l ep_store \<Rightarrow> 'l ep_store \<times> ep_ref" where
  "update_step fo ex a st = (case ex (Identity a) of
     Some e \<Rightarrow> (st[e := (st ! e)\<lparr>ep_addr := a\<rparr>], e)
   | None \<Rightarrow> (st @ [newHopEndpoint fo a], length st))"

lemma update_same: "ep_addr e = a \<Longrightarrow> e\<lparr>ep_addr := a\<rparr> = e"
  by (cases e) simp

lemma update_loop_Cons:
  "update_loop fo ex (a # as) st =
     (let (st1, e) = update_step fo ex a st; (st2, es) = update_loop fo ex as st1 in (st2, e # es))"
  by (simp add: update_step_def Let_def update_same split: option.split prod.split)

declare update_loop.simps(2) [simp del]

lemma update_step_facts:
  assumes "refs_ok ex st" and "update_step fo ex a st = (st1, e)"
  shows "refs_ok ex st1" "length st \<le> length st1" "e < length st1" "ep_addr (st1 ! e) = a"
    "x < length st \<Longrightarrow> ep_health (st1 ! x) = ep_health (st ! x)"
    "x < length st \<Longrightarrow> st1 ! x = st ! x \<or> x = e"
    "x < length st \<Longrightarrow> Identity (ep_addr (st ! x)) \<noteq> Identity a \<Longrightarrow> st1 ! x = st ! x"
    "ep_health (st1 ! e) = (case ex (Identity a) of
       Some e \<Rightarrow> ep_health (st ! e) | None \<Rightarrow> ep_health (newHopEndpoint fo a))"
proof -
  have "refs_ok ex st1 \<and> length st \<le> length st1 \<and> e < length st1 \<and> ep_addr (st1 ! e) = a \<and>
    (\<forall>x < length st. ep_health (st1 ! x) = ep_health (st ! x) \<and> (st1 ! x = st ! x \<or> x = e) \<and>
      (Identity (ep_addr (st ! x)) \<noteq> Identity a \<longrightarrow> st1 ! x = st ! x)) \<and>
    ep_health (st1 ! e) = (case ex (Identity a) of
       Some e \<Rightarrow> ep_health (st ! e) | None \<Rightarrow> ep_health (newHopEndpoint fo a))"
  proof (cases "ex (Identity a)")
    case None
    with assms(2) have "st1 = st @ [newHopEndpoint fo a]" "e = length st" by (simp_all add: update_step_def)
    with None refs_ok_append [OF assms(1)] show ?thesis
      by (simp add: nth_append newHopEndpoint_def)
  next
    case (Some e')
    with assms(2) have st1: "st1 = st[e := (st ! e)\<lparr>ep_addr := a\<rparr>]" "e' = e" by (auto simp: update_step_def)
    with Some assms(1) have "e < length st" "Identity (ep_addr (st ! e)) = Identity a"
      by (simp_all add: refs_ok_def)
    with st1 Some refs_ok_update [OF assms(1)] show ?thesis
      by (simp add: nth_list_update ep_health_def)
  qed
  then show "refs_ok ex st1" "length st \<le> length st1" "e < length st1" "ep_addr (st1 ! e) = a"
    "x < length st \<Longrightarrow> ep_health (st1 ! x) = ep_health (st ! x)"
    "x < length st \<Longrightarrow> st1 ! x = st ! x \<or> x = e"
    "x < length st \<Longrightarrow> Identity (ep_addr (st ! x)) \<noteq> Identity a \<Longrightarrow> st1 ! x = st ! x"
    "ep_health (st1 ! e) = (case ex (Identity a) of
       Some e \<Rightarrow> ep_health (st ! e) | None \<Rightarrow> ep_health (newHopEndpoint fo a))"
    by blast+
qed

lemma update_loop_within:
  assumes "refs_ok ex st" and "update_loop fo ex as st = (st', es)"
  shows "length st \<le> length st' \<and> list_all (\<lambda>e. e < length st' \<and> ep_addr (st' ! e) \<in> set as) es \<and>
    (\<forall>x < length st. st' ! x = st ! x \<or> ep_addr (st' ! x) \<in> set as)"
  using assms
proof (induction as arbitrary: st st' es)
  case (Cons a as)
  obtain st1 e where s: "update_step fo ex a st = (st1, e)" by fastforce
  obtain es' where l: "update_loop fo ex as st1 = (st', es')" and es: "es = e # es'"
    using Cons.prems(2) s by (auto simp: update_loop_Cons Let_def split: prod.splits)
  note f = update_step_facts [OF Cons.prems(1) s]
  note ih = Cons.IH [OF f(1) l]
  from ih have ih1: "length st1 \<le> length st'" and ih2: "list_all (\<lambda>e. e < length st' \<and> ep_addr (st' ! e) \<in> set as) es'"
    and ih3: "x < length st1 \<Longrightarrow> st' ! x = st1 ! x \<or> ep_addr (st' ! x) \<in> set as" for x by blast+
  have at: "ep_addr (st' ! x) \<in> set (a # as)" if "x < length st1" "ep_addr (st1 ! x) = a" for x
    using ih3 [OF that(1)] that(2) by auto
  have "st' ! x = st ! x \<or> ep_addr (st' ! x) \<in> set (a # as)" if "x < length st" for x
  proof (cases "x = e")
    case True
    then show ?thesis using at [of e] f(3,4) by blast
  next
    case False
    with f(6) [OF that] have "st1 ! x = st ! x" by blast
    with ih3 [of x] that f(2) show ?thesis by auto
  qed
  moreover have "list_all (\<lambda>e. e < length st' \<and> ep_addr (st' ! e) \<in> set (a # as)) es"
    using ih2 at [OF f(3,4)] ih1 f(3) unfolding es by (auto simp: list_all_iff)
  ultimately show ?case using ih1 f(2) by auto
qed simp

lemma update_loop_exact:
  assumes "refs_ok ex st" and "update_loop fo ex as st = (st', es)" and "distinct (map Identity as)"
  shows "map (\<lambda>e. ep_addr (st' ! e)) es = as \<and>
    map (\<lambda>e. ep_health (st' ! e)) es = map (\<lambda>a. case ex (Identity a) of
       Some e \<Rightarrow> ep_health (st ! e) | None \<Rightarrow> ep_health (newHopEndpoint fo a)) as \<and>
    (\<forall>x < length st. ep_health (st' ! x) = ep_health (st ! x) \<and>
       (Identity (ep_addr (st ! x)) \<notin> Identity ` set as \<longrightarrow> st' ! x = st ! x))"
  using assms
proof (induction as arbitrary: st st' es)
  case (Cons a as)
  obtain st1 e where s: "update_step fo ex a st = (st1, e)" by fastforce
  obtain es' where l: "update_loop fo ex as st1 = (st', es')" and es: "es = e # es'"
    using Cons.prems(2) s by (auto simp: update_loop_Cons Let_def split: prod.splits)
  note f = update_step_facts [OF Cons.prems(1) s]
  have d: "distinct (map Identity as)" and na: "Identity a \<notin> Identity ` set as" using Cons.prems(3) by auto
  note ih = Cons.IH [OF f(1) l d]
  have e: "st' ! e = st1 ! e" using ih f(3,4) na by simp
  have keep: "ep_health (st1 ! x) = ep_health (st ! x)" if "ex i = Some x" for i x
    using f(5) that Cons.prems(1) unfolding refs_ok_def by blast
  have eq: "(case ex i of Some e \<Rightarrow> ep_health (st1 ! e) | None \<Rightarrow> z) =
      (case ex i of Some e \<Rightarrow> ep_health (st ! e) | None \<Rightarrow> z)" for i z
    by (cases "ex i") (simp_all only: option.case keep)
  have tail: "map (\<lambda>e. ep_health (st' ! e)) es' = map (\<lambda>a. case ex (Identity a) of
       Some e \<Rightarrow> ep_health (st ! e) | None \<Rightarrow> ep_health (newHopEndpoint fo a)) as"
    using ih unfolding eq by blast
  have rest: "ep_health (st' ! x) = ep_health (st ! x) \<and>
       (Identity (ep_addr (st ! x)) \<notin> Identity ` set (a # as) \<longrightarrow> st' ! x = st ! x)" if "x < length st" for x
    using ih f(2,5,7) that by auto
  show ?case unfolding es list.map e f(4,8) tail
    using ih rest by (intro conjI refl allI impI) simp_all
qed simp

lemma update_loop_health:
  assumes "refs_ok ex st" and "update_loop fo ex as st = (st', es)" and "distinct (map Identity as)"
  shows "map (\<lambda>e. (Identity (ep_addr (st' ! e)), ep_health (st' ! e))) es =
    map (\<lambda>a. (Identity a, case ex (Identity a) of
       Some e \<Rightarrow> ep_health (st ! e) | None \<Rightarrow> ep_health (newHopEndpoint fo a))) as"
proof -
  note x = update_loop_exact [OF assms]
  have l: "length es = length as" using x by (metis length_map)
  show ?thesis
  proof (rule nth_equalityI)
    fix i assume "i < length (map (\<lambda>e. (Identity (ep_addr (st' ! e)), ep_health (st' ! e))) es)"
    then have i: "i < length es" "i < length as" using l by simp_all
    from x have "map (\<lambda>e. ep_addr (st' ! e)) es ! i = as ! i"
      "map (\<lambda>e. ep_health (st' ! e)) es ! i = map (\<lambda>a. case ex (Identity a) of
       Some e \<Rightarrow> ep_health (st ! e) | None \<Rightarrow> ep_health (newHopEndpoint fo a)) as ! i" by simp_all
    with i show "map (\<lambda>e. (Identity (ep_addr (st' ! e)), ep_health (st' ! e))) es ! i =
      map (\<lambda>a. (Identity a, case ex (Identity a) of
       Some e \<Rightarrow> ep_health (st ! e) | None \<Rightarrow> ep_health (newHopEndpoint fo a))) as ! i" by simp
  qed (simp add: l)
qed

lemma map_of_map_Identity:
  "map_of (map (\<lambda>a. (Identity a, g (Identity a))) as) i = (if i \<in> Identity ` set as then Some (g i) else None)"
  by (induction as) auto

lemma map_of_map_value: "map_of (map (\<lambda>e. (k e, h e)) es) i = map_option h (map_of (map (\<lambda>e. (k e, e)) es) i)"
  by (induction es) simp_all

lemma pool_health_map_of:
  "pool_health p = map_of (rev (map (\<lambda>e. (Identity (ep_addr (hp_store p ! e)), ep_health (hp_store p ! e))) (hp_endpoints p)))"
  by (simp add: fun_eq_iff pool_health_def existing_endpoints_def rev_map
      map_of_map_value [where h = "\<lambda>e. ep_health (hp_store p ! e)"])

text \<open>
  The abstract view of a pool: the list of addresses, and the health record of each identity. For
  addresses with pairwise distinct identities a reload is this function of the abstract view.
\<close>

definition reload_health ::
  "'l float_ops \<Rightarrow> hop_addr list \<Rightarrow> (string \<Rightarrow> (bool \<times> 'l \<times> int) option) \<Rightarrow> string \<Rightarrow> (bool \<times> 'l \<times> int) option" where
  "reload_health fo newAddrs h = (\<lambda>i. if i \<in> Identity ` set newAddrs
     then Some (case h i of Some v \<Rightarrow> v | None \<Rightarrow> (True, fo_Max fo, 0)) else None)"

lemma UpdateEndpoints_within:
  assumes "pool_ok p"
  shows "pool_ok (UpdateEndpoints fo newAddrs p) \<and> set (Addrs (UpdateEndpoints fo newAddrs p)) \<subseteq> set newAddrs"
proof -
  obtain st es where l: "update_loop fo (existing_endpoints p) newAddrs (hp_store p) = (st, es)" by fastforce
  from update_loop_within [OF refs_ok_existing [OF assms] l] l show ?thesis
    by (auto simp: UpdateEndpoints_def pool_ok_def Addrs_def list_all_iff)
qed

text \<open>C6: Hot reload refines its contract. When the new addresses have pairwise distinct identities, the
  pool holds exactly the new addresses in their order, an endpoint whose identity stays keeps its
  health and latency history, a new one starts alive without history, and the others are gone.\<close>

theorem update_endpoints_refines:
  assumes "pool_ok p" and "distinct (map Identity newAddrs)"
  shows "Addrs (UpdateEndpoints fo newAddrs p) = newAddrs \<and>
    pool_health (UpdateEndpoints fo newAddrs p) = reload_health fo newAddrs (pool_health p) \<and>
    pool_ok (UpdateEndpoints fo newAddrs p)"
proof -
  obtain st es where l: "update_loop fo (existing_endpoints p) newAddrs (hp_store p) = (st, es)" by fastforce
  note r = refs_ok_existing [OF assms(1)]
  have u: "UpdateEndpoints fo newAddrs p = p\<lparr>hp_store := st, hp_endpoints := es\<rparr>"
    by (simp add: UpdateEndpoints_def l)
  have addrs: "Addrs (UpdateEndpoints fo newAddrs p) = newAddrs"
    using update_loop_exact [OF r l assms(2)] by (simp add: u Addrs_def)
  have ok: "pool_ok (UpdateEndpoints fo newAddrs p)" using UpdateEndpoints_within [OF assms(1)] by blast
  let ?g = "\<lambda>i. case pool_health p i of Some v \<Rightarrow> v | None \<Rightarrow> (True, fo_Max fo, 0)"
  have "(case existing_endpoints p (Identity a) of
       Some e \<Rightarrow> ep_health (hp_store p ! e) | None \<Rightarrow> ep_health (newHopEndpoint fo a)) = ?g (Identity a)" for a
    by (simp add: pool_health_def ep_health_def newHopEndpoint_def split: option.split)
  then have "pool_health (UpdateEndpoints fo newAddrs p) = map_of (map (\<lambda>a. (Identity a, ?g (Identity a))) (rev newAddrs))"
    by (simp only: pool_health_map_of [of "UpdateEndpoints fo newAddrs p"])
      (simp add: u update_loop_health [OF r l assms(2)] rev_map)
  then have "pool_health (UpdateEndpoints fo newAddrs p) = reload_health fo newAddrs (pool_health p)"
    by (simp only: fun_eq_iff map_of_map_Identity [where g = ?g] reload_health_def set_rev simp_thms)
  with addrs ok show ?thesis by blast
qed

definition example_reported :: "int hop_pool" where
  "example_reported = reportResult example_floats 1 True 40 (reportResult example_floats 0 False 0 example_pool)"

theorem update_endpoints_refines_witness:
  "Addrs (UpdateEndpoints example_floats [example_addr 2, example_addr 9, example_addr 1] example_reported)
     = [example_addr 2, example_addr 9, example_addr 1] \<and>
   pool_health (UpdateEndpoints example_floats [example_addr 2, example_addr 9, example_addr 1] example_reported)
     (Identity (example_addr 2)) = Some (True, 40, 1)"
proof -
  have ok: "pool_ok example_reported" by code_simp
  have d: "distinct (map Identity [example_addr 2, example_addr 9, example_addr 1])" by code_simp
  have "pool_health example_reported (Identity (example_addr 2)) = Some (True, 40, 1)" by code_simp
  with update_endpoints_refines [OF ok d, of example_floats] show ?thesis
    by (simp add: reload_health_def)
qed

text \<open>Two addresses with one identity share an endpoint. The reload of a pool with a list whose
  entries differ only in the name they present leaves the pool with two entries of the last one:
  the list that it holds is not the list that was configured, for a reload as often as it is run.\<close>

definition twin :: "string \<Rightarrow> hop_addr" where
  "twin host = \<lparr>ha_Type = HopAddrTypeIP, ha_Addr = ''10.0.0.9'', ha_Port = 443, ha_Host = host,
     ha_TLS = True, ha_TunnelPath = ''''\<rparr>"

theorem update_endpoints_aliases:
  "let new = [twin ''a.example'', twin ''b.example''];
       p = UpdateEndpoints example_floats new (NewHopPool example_floats [twin ''a.example''] None)
   in list_all (\<lambda>a. validateHop a = None) new \<and>
      Addrs p = [twin ''b.example'', twin ''b.example''] \<and>
      Addrs (UpdateEndpoints example_floats new p) = Addrs p"
  by code_simp

section \<open>Health reports\<close>

lemma report_keeps [simp]:
  "hp_endpoints (reportResult fo e b d p) = hp_endpoints p"
  "hp_selector (reportResult fo e b d p) = hp_selector p"
  "length (hp_store (reportResult fo e b d p)) = length (hp_store p)"
  "pool_ok (reportResult fo e b d p) = pool_ok p"
  by (simp_all add: reportResult_def pool_ok_def)

lemma ep_addr_report [simp]: "ep_addr (hp_store (reportResult fo e b d p) ! x) = ep_addr (hp_store p ! x)"
  by (cases "e < length (hp_store p)") (auto simp: reportResult_def recordLatency_def nth_list_update list_update_beyond)

lemma Addrs_report [simp]: "Addrs (reportResult fo e b d p) = Addrs p"
  by (simp add: Addrs_def)

lemma ep_alive_report:
  "ep_alive (hp_store (reportResult fo e b d p) ! x) =
    (if x = e \<and> e < length (hp_store p) then b else ep_alive (hp_store p ! x))"
  by (cases "e < length (hp_store p)") (auto simp: reportResult_def recordLatency_def nth_list_update list_update_beyond)

lemma probeOne_cases:
  "\<exists>d. probeOne fo probe e p = reportResult fo e (\<not> isl (probe (DialAddr (ep_addr (hp_store p ! e))))) d p"
  by (auto simp: probeOne_def split: sum.split)

lemma fold_probeOne:
  "length (hp_store (fold (probeOne fo probe) es p)) = length (hp_store p) \<and>
   hp_endpoints (fold (probeOne fo probe) es p) = hp_endpoints p \<and>
   hp_selector (fold (probeOne fo probe) es p) = hp_selector p \<and>
   (\<forall>x. ep_addr (hp_store (fold (probeOne fo probe) es p) ! x) = ep_addr (hp_store p ! x)) \<and>
   (\<forall>x. ep_alive (hp_store (fold (probeOne fo probe) es p) ! x) =
     (if x \<in> set es \<and> x < length (hp_store p) then \<not> isl (probe (DialAddr (ep_addr (hp_store p ! x))))
      else ep_alive (hp_store p ! x)))"
proof (induction es arbitrary: p)
  case (Cons e es)
  obtain d where "probeOne fo probe e p = reportResult fo e (\<not> isl (probe (DialAddr (ep_addr (hp_store p ! e))))) d p"
    using probeOne_cases by blast
  with Cons.IH [of "probeOne fo probe e p"] show ?case by (simp add: ep_alive_report)
qed simp

text \<open>After a round of the prober every endpoint of the pool is alive exactly when its address
  answered, whatever it was before; the addresses and the strategy do not change.\<close>

theorem probe_all_marks:
  assumes "pool_ok p" and "e \<in> set (hp_endpoints p)"
  shows "ep_alive (hp_store (probeAll fo probe p) ! e) \<longleftrightarrow> \<not> isl (probe (DialAddr (ep_addr (hp_store p ! e))))"
    and "Addrs (probeAll fo probe p) = Addrs p"
  using assms fold_probeOne [of fo probe "hp_endpoints p" p]
  by (simp_all add: probeAll_def pool_ok_def list_all_iff Addrs_def)

theorem probe_all_marks_witness:
  "\<not> ep_alive (hp_store (probeAll example_floats (\<lambda>a. Inl ErrEOF) example_pool) ! 1) \<and>
   Addrs (probeAll example_floats (\<lambda>a. Inl ErrEOF) example_pool) = Addrs example_pool"
proof -
  have ok: "pool_ok example_pool" "1 \<in> set (hp_endpoints example_pool)" by code_simp+
  from probe_all_marks [OF ok, of example_floats "\<lambda>a. Inl ErrEOF"] show ?thesis by simp
qed

end
