(* ===== verification/Tunnel.thy ===== *)
theory Tunnel
  imports HopPool
begin

text \<open>
  \<^verbatim>\<open>internal/tunnel\<close>: the handshake of a tunnel (\<^verbatim>\<open>protocol.go\<close>), its authentication (\<^verbatim>\<open>auth.go\<close>),
  the dialer with its fallback (\<^verbatim>\<open>dialer.go\<close>, \<open>dialWebSocketAddr\<close>), the accepting server's handler
  (\<^verbatim>\<open>server.go\<close>) and the byte stream over binary messages (\<^verbatim>\<open>transport.go\<close>), with
  \<^verbatim>\<open>internal/netutil/errors.go\<close>. JSON, HMAC-SHA256, the text of an error and the network are
  parameters: the first three a record \<open>tunnel_env\<close>, the network the outcome of each attempt.
\<close>

section \<open>Expected errors\<close>

fun errors_Is :: "go_error \<Rightarrow> go_error \<Rightarrow> bool" where
  "errors_Is (Wrapf f args e) target \<longleftrightarrow> Wrapf f args e = target \<or> errors_Is e target"
| "errors_Is e target \<longleftrightarrow> e = target"

text \<open>\<open>errors.As\<close> with a \<open>*net.OpError\<close>: the text of the network error inside.\<close>

fun as_op_error :: "go_error \<Rightarrow> string option" where
  "as_op_error (Wrapf f args e) = as_op_error e"
| "as_op_error (ErrNet s) = Some s"
| "as_op_error _ = None"

fun has_prefix :: "string \<Rightarrow> string \<Rightarrow> bool" where
  "has_prefix [] s \<longleftrightarrow> True"
| "has_prefix (c # p) [] \<longleftrightarrow> False"
| "has_prefix (c # p) (d # s) \<longleftrightarrow> c = d \<and> has_prefix p s"

fun str_contains :: "string \<Rightarrow> string \<Rightarrow> bool" where
  "str_contains [] p \<longleftrightarrow> p = []"
| "str_contains (c # s) p \<longleftrightarrow> has_prefix p (c # s) \<or> str_contains s p"

definition IsExpectedCloseErr :: "go_error option \<Rightarrow> bool" where
  "IsExpectedCloseErr err = (case err of
     None \<Rightarrow> True
   | Some e \<Rightarrow>
       if errors_Is e ErrEOF then True
       else (case as_op_error e of
           Some s \<Rightarrow> str_contains s ''use of closed network connection'' \<or>
             str_contains s ''connection reset by peer'' \<or> str_contains s ''broken pipe''
         | None \<Rightarrow> False))"

definition isNetClosed :: "go_error \<Rightarrow> bool" where
  "isNetClosed e = (if errors_Is e ErrTransportDead then True else IsExpectedCloseErr (Some e))"

section \<open>Handshake messages\<close>

record handshake_request =
  hr_Version :: int
  hr_ServiceID :: string
  hr_TargetIDC :: string
  hr_Protocol :: string
  hr_ClientIP :: string
  hr_HopCount :: int
  hr_Metadata :: "(string \<times> string) list"
  hr_Timestamp :: int
  hr_Signature :: string

record handshake_response =
  rs_Status :: string
  rs_Message :: string
  rs_NodeID :: string

record tunnel_env =
  te_enc_req :: "handshake_request \<Rightarrow> byte list"
  te_dec_req :: "byte list \<Rightarrow> handshake_request option"
  te_enc_resp :: "handshake_response \<Rightarrow> byte list"
  te_dec_resp :: "byte list \<Rightarrow> handshake_response option"
  te_hmac :: "string \<Rightarrow> string \<Rightarrow> string"   \<comment> \<open>key and message to the hexadecimal HMAC\<close>
  te_error_text :: "go_error \<Rightarrow> string"   \<comment> \<open>\<open>err.Error()\<close>\<close>

definition tunnel_Version :: int where "tunnel_Version = 1"
definition MaxHopCount :: int where "MaxHopCount = 16"
definition maxClockSkew :: int where "maxClockSkew = 60"

definition OKResponse :: "string \<Rightarrow> handshake_response" where
  "OKResponse nodeID = \<lparr>rs_Status = ''ok'', rs_Message = '''', rs_NodeID = nodeID\<rparr>"

definition ErrResponse :: "string \<Rightarrow> string \<Rightarrow> handshake_response" where
  "ErrResponse nodeID msg = \<lparr>rs_Status = ''error'', rs_Message = msg, rs_NodeID = nodeID\<rparr>"

section \<open>Authentication\<close>

definition hmac_message :: "handshake_request \<Rightarrow> string" where
  "hmac_message req = show_int (hr_Version req) @ '':'' @ hr_ServiceID req @ '':'' @ hr_TargetIDC req @
     '':'' @ show_int (hr_Timestamp req)"

definition computeHMAC :: "tunnel_env \<Rightarrow> handshake_request \<Rightarrow> string \<Rightarrow> string" where
  "computeHMAC env req psk = te_hmac env psk (hmac_message req)"

definition SignRequest :: "tunnel_env \<Rightarrow> int \<Rightarrow> string \<Rightarrow> handshake_request \<Rightarrow> handshake_request" where
  "SignRequest env now psk req =
     (if psk = '''' then req
      else (let req' = req\<lparr>hr_Timestamp := now\<rparr> in req'\<lparr>hr_Signature := computeHMAC env req' psk\<rparr>))"

text \<open>The difference of the two times is an \<open>int64\<close>; its absolute value is taken as a float.\<close>

definition VerifyRequest :: "tunnel_env \<Rightarrow> int \<Rightarrow> string \<Rightarrow> handshake_request \<Rightarrow> go_error option" where
  "VerifyRequest env now psk req =
     (if psk = '''' then None
      else (let drift = \<bar>go_int64 (now - hr_Timestamp req)\<bar> in
        if drift > maxClockSkew
        then Some (Errorf ''timestamp drift %.0fs exceeds max %ds'' [ArgInt drift, ArgInt maxClockSkew])
        else if hr_Signature req \<noteq> computeHMAC env req psk
        then Some (Errorf ''HMAC signature mismatch'' []) else None))"

section \<open>Handshake\<close>

text \<open>The dialing side: what the two network operations answer is an argument.\<close>

definition writeHandshakeRequest :: "go_error option \<Rightarrow> go_error option" where
  "writeHandshakeRequest write_err = map_option (Wrapf ''write handshake request: %w'' []) write_err"

definition readHandshakeResponse :: "tunnel_env \<Rightarrow> go_error + byte list \<Rightarrow> go_error + handshake_response" where
  "readHandshakeResponse env reply = (case reply of
     Inl e \<Rightarrow> Inl (Wrapf ''read handshake response: %w'' [] e)
   | Inr msg \<Rightarrow> (case te_dec_resp env msg of
       None \<Rightarrow> Inl (Wrapf ''parse handshake response: %w'' [] ErrDecode)
     | Some resp \<Rightarrow> Inr resp))"

definition SendHandshake ::
  "tunnel_env \<Rightarrow> go_error option \<Rightarrow> go_error + byte list \<Rightarrow> go_error + handshake_response" where
  "SendHandshake env write_err reply = (case writeHandshakeRequest write_err of
     Some e \<Rightarrow> Inl e | None \<Rightarrow> readHandshakeResponse env reply)"

definition ReceiveHandshake :: "tunnel_env \<Rightarrow> go_error + byte list \<Rightarrow> go_error + handshake_request" where
  "ReceiveHandshake env input = (case input of
     Inl e \<Rightarrow> Inl (Wrapf ''read handshake request: %w'' [] e)
   | Inr msg \<Rightarrow> (case te_dec_req env msg of
       None \<Rightarrow> Inl (Wrapf ''parse handshake request: %w'' [] ErrDecode)
     | Some req \<Rightarrow>
         if hr_Version req \<noteq> tunnel_Version
         then Inl (Errorf ''unsupported tunnel version %d (want %d)'' [ArgInt (hr_Version req), ArgInt tunnel_Version])
         else if hr_HopCount req > MaxHopCount
         then Inl (Errorf ''hop count %d exceeds max %d (loop?)'' [ArgInt (hr_HopCount req), ArgInt MaxHopCount])
         else if hr_TargetIDC req = '''' then Inl (Errorf ''target_idc is empty'' [])
         else Inr req))"

text \<open>
  \<open>handleWebSocket\<close> after the upgrade: the responses written, and the request that the node's
  handler is called with, if it is. \<open>send_err\<close> is what writing the last response answers.
\<close>

definition handleWebSocket ::
  "tunnel_env \<Rightarrow> string \<Rightarrow> string \<Rightarrow> int \<Rightarrow> go_error option \<Rightarrow> go_error + byte list \<Rightarrow>
   handshake_response list \<times> handshake_request option" where
  "handleWebSocket env psk nodeID now send_err input = (case ReceiveHandshake env input of
     Inl err \<Rightarrow> ([ErrResponse nodeID (te_error_text env err)], None)
   | Inr req \<Rightarrow> (case VerifyRequest env now psk req of
       Some err \<Rightarrow> ([ErrResponse nodeID ''authentication failed''], None)
     | None \<Rightarrow> (case send_err of
         Some err \<Rightarrow> ([OKResponse nodeID], None)
       | None \<Rightarrow> ([OKResponse nodeID], Some req))))"

section \<open>Dialing\<close>

text \<open>What \<open>dialWebSocketAddr\<close> gives to the WebSocket library.\<close>

record dial_target =
  dt_URL :: string
  dt_NetDial :: "string option"
  dt_Host :: "string option"

definition dialWebSocketAddr :: "hop_addr \<Rightarrow> dial_target" where
  "dialWebSocketAddr a =
     (if ha_Type a = HopAddrTypeIP
      then \<lparr>dt_URL = WsURL a, dt_NetDial = Some (DialAddr a), dt_Host = Some (SNIHost a)\<rparr>
      else \<lparr>dt_URL = WsURL a, dt_NetDial = None, dt_Host = None\<rparr>)"

text \<open>How the network treats one attempt: the dial, the clock at signing, the write, the reply and
  the elapsed milliseconds.\<close>

record dial_net =
  dn_dial :: "go_error option"
  dn_now :: int
  dn_write :: "go_error option"
  dn_reply :: "go_error + byte list"
  dn_ms :: int

text \<open>A dialed tunnel: where it leads and the request that went over it.\<close>

record dialed =
  dd_target :: dial_target
  dd_sent :: handshake_request

definition tryEndpoint ::
  "tunnel_env \<Rightarrow> string \<Rightarrow> (dial_target \<Rightarrow> dial_net) \<Rightarrow> hop_addr \<Rightarrow> handshake_request \<Rightarrow>
   (go_error + dialed) \<times> int \<times> handshake_request" where
  "tryEndpoint env psk net a req =
     (let target = dialWebSocketAddr a; r = net target in
      case dn_dial r of
        Some err \<Rightarrow> (Inl err, dn_ms r, req)
      | None \<Rightarrow>
          (let req' = SignRequest env (dn_now r) psk req in
           case SendHandshake env (dn_write r) (dn_reply r) of
             Inl err \<Rightarrow> (Inl err, dn_ms r, req')
           | Inr resp \<Rightarrow> (Inr \<lparr>dd_target = target, dd_sent = req'\<rparr>, dn_ms r, req')))"

definition hopPoolError :: "string \<Rightarrow> string \<Rightarrow> nat \<Rightarrow> go_error" where
  "hopPoolError idc serviceID n = Errorf ''all %d next-hop(s) unavailable for idc=%q service=%q''
     [ArgInt (int n), ArgStr idc, ArgStr serviceID]"

text \<open>The loop of \<open>DialWithFallback\<close>; \<open>net k\<close> is the network at the \<open>k\<close>-th attempt.\<close>

fun dial_loop ::
  "tunnel_env \<Rightarrow> 'l float_ops \<Rightarrow> string \<Rightarrow> (nat \<Rightarrow> dial_target \<Rightarrow> dial_net) \<Rightarrow> nat \<Rightarrow> ep_ref list \<Rightarrow>
   'l hop_pool \<Rightarrow> handshake_request \<Rightarrow> (go_error + dialed) \<times> 'l hop_pool \<times> handshake_request" where
  "dial_loop env fo psk net k [] p req =
     (Inl (hopPoolError (hr_TargetIDC req) (hr_ServiceID req) (pool_size p)), p, req)"
| "dial_loop env fo psk net k (e # es) p req =
     (let (res, latency, req') = tryEndpoint env psk (net k) (ep_addr (hp_store p ! e)) req in
      case res of
        Inr tun \<Rightarrow> (Inr tun, reportResult fo e True latency p, req')
      | Inl err \<Rightarrow> dial_loop env fo psk net (Suc k) es (reportResult fo e False latency p) req')"

text \<open>\<open>None\<close>: \<open>Pick\<close> panics.\<close>

definition DialWithFallback ::
  "tunnel_env \<Rightarrow> 'l::linorder float_ops \<Rightarrow> string \<Rightarrow> (nat \<Rightarrow> dial_target \<Rightarrow> dial_net) \<Rightarrow>
   'l hop_pool \<Rightarrow> handshake_request \<Rightarrow> ((go_error + dialed) \<times> 'l hop_pool \<times> handshake_request) option" where
  "DialWithFallback env fo psk net p req = (case pick p of
     None \<Rightarrow> None
   | Some (p', eps) \<Rightarrow> Some (dial_loop env fo psk net 0 eps p' req))"

section \<open>The dialer tries every candidate\<close>

text \<open>When an attempt counts as a success: the dial, the write and the parsing of the reply succeed.\<close>

definition dial_ok :: "tunnel_env \<Rightarrow> dial_net \<Rightarrow> bool" where
  "dial_ok env r \<longleftrightarrow> dn_dial r = None \<and> dn_write r = None \<and>
     (case dn_reply r of Inl e \<Rightarrow> False | Inr m \<Rightarrow> te_dec_resp env m \<noteq> None)"

abbreviation ep_target :: "'l hop_pool \<Rightarrow> ep_ref \<Rightarrow> dial_target" where
  "ep_target p e \<equiv> dialWebSocketAddr (ep_addr (hp_store p ! e))"

lemma SignRequest_keeps [simp]:
  "hr_TargetIDC (SignRequest env now psk r) = hr_TargetIDC r"
  "hr_ServiceID (SignRequest env now psk r) = hr_ServiceID r"
  "hr_HopCount (SignRequest env now psk r) = hr_HopCount r"
  "hr_Version (SignRequest env now psk r) = hr_Version r"
  "hr_Protocol (SignRequest env now psk r) = hr_Protocol r"
  "hr_ClientIP (SignRequest env now psk r) = hr_ClientIP r"
  by (simp_all add: SignRequest_def Let_def)

text \<open>Two requests that differ at most in the fields that signing sets.\<close>

definition unsigned_request :: "handshake_request \<Rightarrow> handshake_request" where
  "unsigned_request r = r\<lparr>hr_Timestamp := 0, hr_Signature := ''''\<rparr>"

definition same_request :: "handshake_request \<Rightarrow> handshake_request \<Rightarrow> bool" where
  "same_request r r' \<longleftrightarrow> unsigned_request r' = unsigned_request r"

lemma same_request_refl [simp]: "same_request r r"
  by (simp add: same_request_def)

lemma same_request_trans: "same_request a b \<Longrightarrow> same_request b c \<Longrightarrow> same_request a c"
  by (simp add: same_request_def)

lemma same_request_Sign [simp]: "same_request r (SignRequest env now psk r)"
  by (simp add: SignRequest_def same_request_def unsigned_request_def Let_def)

lemma same_request_fields:
  assumes "same_request r r'"
  shows "hr_TargetIDC r' = hr_TargetIDC r \<and> hr_ServiceID r' = hr_ServiceID r \<and>
    hr_HopCount r' = hr_HopCount r \<and> hr_Version r' = hr_Version r"
proof -
  have *: "unsigned_request r' = unsigned_request r" using assms by (simp add: same_request_def)
  from arg_cong [OF *, of hr_TargetIDC] arg_cong [OF *, of hr_ServiceID]
    arg_cong [OF *, of hr_HopCount] arg_cong [OF *, of hr_Version] show ?thesis
    by (simp add: unsigned_request_def)
qed

lemma Addrs_selector [simp]: "Addrs (p\<lparr>hp_selector := s\<rparr>) = Addrs p"
  by (simp add: Addrs_def)

lemma tryEndpoint_cases:
  "\<exists>req'. same_request req req' \<and>
    (if dial_ok env (net (dialWebSocketAddr a))
     then tryEndpoint env psk net a req =
       (Inr \<lparr>dd_target = dialWebSocketAddr a, dd_sent = req'\<rparr>, dn_ms (net (dialWebSocketAddr a)), req')
     else \<exists>err. tryEndpoint env psk net a req = (Inl err, dn_ms (net (dialWebSocketAddr a)), req'))"
  (is "\<exists>req'. _ \<and> ?P req'")
proof (cases "dn_dial (net (dialWebSocketAddr a))")
  case None
  let ?r = "net (dialWebSocketAddr a)"
  let ?req = "SignRequest env (dn_now ?r) psk req"
  have "?P ?req"
    using None by (auto simp: tryEndpoint_def dial_ok_def Let_def SendHandshake_def writeHandshakeRequest_def
        readHandshakeResponse_def split: option.splits sum.splits)
  then show ?thesis using same_request_Sign by blast
next
  case (Some err)
  then have "?P req" by (simp add: tryEndpoint_def dial_ok_def Let_def)
  then show ?thesis using same_request_refl by blast
qed

lemma dial_loop_fails:
  assumes "\<And>i. i < length es \<Longrightarrow> \<not> dial_ok env (net (k + i) (ep_target p (es ! i)))"
    and "list_all (\<lambda>e. e < length (hp_store p)) es"
  shows "\<exists>p' req'. dial_loop env fo psk net k es p req =
      (Inl (hopPoolError (hr_TargetIDC req) (hr_ServiceID req) (pool_size p)), p', req') \<and>
    hp_endpoints p' = hp_endpoints p \<and> Addrs p' = Addrs p \<and> pool_ok p' = pool_ok p \<and>
    hp_selector p' = hp_selector p \<and>
    (\<forall>x. ep_alive (hp_store p' ! x) \<longleftrightarrow> x \<notin> set es \<and> ep_alive (hp_store p ! x))"
  using assms
proof (induction es arbitrary: k p req)
  case (Cons e es)
  have no: "\<not> dial_ok env (net k (ep_target p e))" using Cons.prems(1) [of 0] by simp
  then obtain req1 err ms where try1: "same_request req req1"
    "tryEndpoint env psk (net k) (ep_addr (hp_store p ! e)) req = (Inl err, ms, req1)"
    using tryEndpoint_cases [of req env "net k" "ep_addr (hp_store p ! e)" psk] by auto
  let ?p = "reportResult fo e False ms p"
  have "\<not> dial_ok env (net (Suc k + i) (ep_target ?p (es ! i)))" if "i < length es" for i
    using Cons.prems(1) [of "Suc i"] that by simp
  from Cons.IH [of "Suc k" ?p req1, OF this] Cons.prems(2) obtain p' req' where
    l: "dial_loop env fo psk net (Suc k) es ?p req1 =
      (Inl (hopPoolError (hr_TargetIDC req1) (hr_ServiceID req1) (pool_size ?p)), p', req')"
    and k: "hp_endpoints p' = hp_endpoints p" "Addrs p' = Addrs p" "pool_ok p' = pool_ok p"
      "hp_selector p' = hp_selector p"
      "\<forall>x. ep_alive (hp_store p' ! x) \<longleftrightarrow> x \<notin> set es \<and> ep_alive (hp_store ?p ! x)"
    by auto
  have "e < length (hp_store p)" using Cons.prems(2) by simp
  with l k try1 same_request_fields [OF try1(1)] show ?case
    by (auto simp: ep_alive_report pool_size_def)
qed simp

lemma dial_loop_first:
  assumes "j < length es" and "dial_ok env (net (k + j) (ep_target p (es ! j)))"
    and "\<And>i. i < j \<Longrightarrow> \<not> dial_ok env (net (k + i) (ep_target p (es ! i)))"
    and "list_all (\<lambda>e. e < length (hp_store p)) es"
  shows "\<exists>p' req'. dial_loop env fo psk net k es p req =
      (Inr \<lparr>dd_target = ep_target p (es ! j), dd_sent = req'\<rparr>, p', req') \<and> same_request req req' \<and>
    hp_endpoints p' = hp_endpoints p \<and> Addrs p' = Addrs p \<and> pool_ok p' = pool_ok p \<and>
    hp_selector p' = hp_selector p \<and>
    (\<forall>x. ep_alive (hp_store p' ! x) \<longleftrightarrow> x = es ! j \<or> x \<notin> set (take j es) \<and> ep_alive (hp_store p ! x))"
  using assms
proof (induction es arbitrary: k p req j)
  case (Cons e es)
  have len: "e < length (hp_store p)" using Cons.prems(4) by simp
  show ?case
  proof (cases j)
    case 0
    with Cons.prems(2) have "dial_ok env (net k (ep_target p e))" by simp
    then obtain req1 ms where "same_request req req1"
      "tryEndpoint env psk (net k) (ep_addr (hp_store p ! e)) req =
        (Inr \<lparr>dd_target = ep_target p e, dd_sent = req1\<rparr>, ms, req1)"
      using tryEndpoint_cases [of req env "net k" "ep_addr (hp_store p ! e)" psk] by auto
    with 0 len show ?thesis by (auto simp: ep_alive_report)
  next
    case (Suc i)
    have "\<not> dial_ok env (net k (ep_target p e))" using Cons.prems(3) [of 0] Suc by simp
    then obtain req1 err ms where try1: "same_request req req1"
      "tryEndpoint env psk (net k) (ep_addr (hp_store p ! e)) req = (Inl err, ms, req1)"
      using tryEndpoint_cases [of req env "net k" "ep_addr (hp_store p ! e)" psk] by auto
    let ?p = "reportResult fo e False ms p"
    have fail: "\<not> dial_ok env (net (Suc k + n) (ep_target ?p (es ! n)))" if "n < i" for n
      using Cons.prems(3) [of "Suc n"] that Suc by simp
    have i: "i < length es" "dial_ok env (net (Suc k + i) (ep_target ?p (es ! i)))"
      "list_all (\<lambda>e. e < length (hp_store ?p)) es"
      using Cons.prems Suc by simp_all
    from Cons.IH [OF i(1,2) fail i(3), of req1] obtain p' req' where
      l: "dial_loop env fo psk net (Suc k) es ?p req1 =
        (Inr \<lparr>dd_target = ep_target p (es ! i), dd_sent = req'\<rparr>, p', req')" and s: "same_request req1 req'"
      and k: "hp_endpoints p' = hp_endpoints p" "Addrs p' = Addrs p" "pool_ok p' = pool_ok p"
        "hp_selector p' = hp_selector p"
        "\<forall>x. ep_alive (hp_store p' ! x) \<longleftrightarrow> x = es ! i \<or> x \<notin> set (take i es) \<and> ep_alive (hp_store ?p ! x)"
      by auto
    from same_request_trans [OF try1(1) s] l k try1(2) len Suc show ?thesis
      by (auto simp: ep_alive_report)
  qed
qed simp

context hop_selector
begin

text \<open>Whatever the strategy, the dialer answers, and fails only after it has tried every candidate.\<close>

lemma dial_exhausts:
  fixes p :: "'l hop_pool"
  assumes "pool_ok p" and "ready (hp_selector p)" and "hp_endpoints p \<noteq> []"
    and fail: "\<And>k t. \<not> dial_ok env (net k t)"
  shows "\<exists>p' req'. DialWithFallback env fo psk net p req =
      Some (Inl (hopPoolError (hr_TargetIDC req) (hr_ServiceID req) (length (hp_endpoints p))), p', req') \<and>
    list_all (\<lambda>e. \<not> ep_alive (hp_store p' ! e)) (hp_endpoints p') \<and>
    candidates (hp_store p') (hp_endpoints p') = hp_endpoints p \<and> Addrs p' = Addrs p"
proof -
  obtain s' r where pk: "pick p = Some (p\<lparr>hp_selector := s'\<rparr>, r)"
    and r: "mset r = mset (candidates (hp_store p) (hp_endpoints p))"
    using pick_candidates [OF assms(2,3)] by metis
  have set_r: "set r = set (candidates (hp_store p) (hp_endpoints p))" using r by (metis set_mset_mset)
  with set_candidates [of "hp_store p" "hp_endpoints p"] assms(1)
  have "list_all (\<lambda>e. e < length (hp_store (p\<lparr>hp_selector := s'\<rparr>))) r"
    by (auto simp: pool_ok_def list_all_iff)
  from dial_loop_fails [of r env net 0, OF fail this, of fo psk req] obtain p' req' where
    l: "dial_loop env fo psk net 0 r (p\<lparr>hp_selector := s'\<rparr>) req =
      (Inl (hopPoolError (hr_TargetIDC req) (hr_ServiceID req) (length (hp_endpoints p))), p', req')"
    and k: "hp_endpoints p' = hp_endpoints p" "Addrs p' = Addrs p"
      "\<forall>x. ep_alive (hp_store p' ! x) \<longleftrightarrow> x \<notin> set r \<and> ep_alive (hp_store p ! x)"
    by (auto simp: pool_size_def)
  have "\<not> ep_alive (hp_store p' ! e)" if "e \<in> set (hp_endpoints p)" for e
    using k(3) that unfolding set_r by (auto simp: candidates_def aliveOnly_def Let_def split: if_splits)
  then have dead: "list_all (\<lambda>e. \<not> ep_alive (hp_store p' ! e)) (hp_endpoints p)" by (simp add: list_all_iff)
  then have "candidates (hp_store p') (hp_endpoints p) = hp_endpoints p"
    by (auto simp: candidates_def aliveOnly_def Let_def list_all_iff filter_empty_conv)
  with pk l k(1,2) dead show ?thesis by (simp add: DialWithFallback_def)
qed

lemma dial_reaches:
  fixes p :: "'l hop_pool"
  assumes "pool_ok p" and "ready (hp_selector p)"
    and e: "e \<in> set (candidates (hp_store p) (hp_endpoints p))" and ok: "\<And>k. dial_ok env (net k (ep_target p e))"
  shows "\<exists>d p' req'. DialWithFallback env fo psk net p req = Some (Inr d, p', req') \<and>
    same_request req (dd_sent d) \<and> dd_target d \<in> ep_target p ` set (candidates (hp_store p) (hp_endpoints p)) \<and>
    Addrs p' = Addrs p"
proof -
  have ne: "hp_endpoints p \<noteq> []" using e candidates_Nil by (metis list.set(1) empty_iff)
  obtain s' r where pk: "pick p = Some (p\<lparr>hp_selector := s'\<rparr>, r)"
    and r: "mset r = mset (candidates (hp_store p) (hp_endpoints p))"
    using pick_candidates [OF assms(2) ne] by metis
  have set_r: "set r = set (candidates (hp_store p) (hp_endpoints p))" using r by (metis set_mset_mset)
  with set_candidates [of "hp_store p" "hp_endpoints p"] assms(1)
  have len: "list_all (\<lambda>e. e < length (hp_store (p\<lparr>hp_selector := s'\<rparr>))) r"
    by (auto simp: pool_ok_def list_all_iff)
  let ?P = "\<lambda>j. j < length r \<and> dial_ok env (net j (ep_target p (r ! j)))"
  from e set_r obtain j0 where "j0 < length r" "r ! j0 = e" by (metis in_set_conv_nth)
  with ok have "\<exists>j. ?P j" by blast
  then have "\<exists>j. ?P j \<and> (\<forall>i < j. \<not> ?P i)" by (rule exists_least_iff [THEN iffD1])
  then obtain j where j: "?P j" and least: "\<And>i. i < j \<Longrightarrow> \<not> ?P i" by blast
  have f: "\<not> dial_ok env (net (0 + i) (ep_target (p\<lparr>hp_selector := s'\<rparr>) (r ! i)))" if "i < j" for i
    using least [OF that] j that by simp
  have "dial_ok env (net (0 + j) (ep_target (p\<lparr>hp_selector := s'\<rparr>) (r ! j)))" using j by simp
  from dial_loop_first [of j r env net 0, OF conjunct1 [OF j] this f len, of fo psk req] obtain p' req' where
    l: "dial_loop env fo psk net 0 r (p\<lparr>hp_selector := s'\<rparr>) req =
      (Inr \<lparr>dd_target = ep_target p (r ! j), dd_sent = req'\<rparr>, p', req')" and k: "same_request req req'"
    "Addrs p' = Addrs p" by auto
  have "r ! j \<in> set (candidates (hp_store p) (hp_endpoints p))" using j set_r nth_mem by blast
  then have "ep_target p (r ! j) \<in> ep_target p ` set (candidates (hp_store p) (hp_endpoints p))" by (rule imageI)
  with k show ?thesis
    by (intro exI [of _ "\<lparr>dd_target = ep_target p (r ! j), dd_sent = req'\<rparr>"] exI [of _ p'] exI [of _ req'])
      (simp add: DialWithFallback_def pk l)
qed

end

text \<open>C18: The dialer fails only after it has tried everything. When every attempt fails, it answers the
  pool's error with the number of hops, all endpoints are marked dead - and the next call tries them
  all again, since a pool without a live endpoint falls back to the whole list.\<close>

theorem dial_fallback_exhausts:
  fixes p :: "'l::linorder hop_pool"
  assumes "pool_ok p" and "rr_ready (hp_selector p)" and "hp_endpoints p \<noteq> []"
    and "\<And>k t. \<not> dial_ok env (net k t)"
  shows "\<exists>p' req'. DialWithFallback env fo psk net p req =
      Some (Inl (hopPoolError (hr_TargetIDC req) (hr_ServiceID req) (length (hp_endpoints p))), p', req') \<and>
    list_all (\<lambda>e. \<not> ep_alive (hp_store p' ! e)) (hp_endpoints p') \<and>
    candidates (hp_store p') (hp_endpoints p') = hp_endpoints p \<and> Addrs p' = Addrs p"
  by (rule rr.dial_exhausts [OF assms])

text \<open>C17: The dialer reaches a live hop. If one of the candidates answers whenever it is tried, a tunnel
  comes back: it leads to one of the candidates and carries the caller's request, changed at most
  in its timestamp and signature. The same holds for both selection strategies.\<close>

theorem dial_fallback_reaches:
  fixes p :: "'l::linorder hop_pool"
  assumes "pool_ok p" and "rr_ready (hp_selector p) \<or> latency_ready (hp_selector p)"
    and "e \<in> set (candidates (hp_store p) (hp_endpoints p))" and "\<And>k. dial_ok env (net k (ep_target p e))"
  shows "\<exists>d p' req'. DialWithFallback env fo psk net p req = Some (Inr d, p', req') \<and>
    same_request req (dd_sent d) \<and> dd_target d \<in> ep_target p ` set (candidates (hp_store p) (hp_endpoints p)) \<and>
    Addrs p' = Addrs p"
  using assms(2)
proof
  assume "rr_ready (hp_selector p)"
  from rr.dial_reaches [where net = net and p = p and e = e, OF assms(1) this assms(3,4)] show ?thesis .
next
  assume "latency_ready (hp_selector p)"
  from lat.dial_reaches [where net = net and p = p and e = e, OF assms(1) this assms(3,4)] show ?thesis .
qed

text \<open>Concrete parameters: a codec with two messages, and a keyed hash that prepends the key.\<close>

definition example_request :: handshake_request where
  "example_request = \<lparr>hr_Version = 1, hr_ServiceID = ''web'', hr_TargetIDC = ''sh'', hr_Protocol = ''tcp'',
     hr_ClientIP = ''198.51.100.7'', hr_HopCount = 0, hr_Metadata = [], hr_Timestamp = 0, hr_Signature = ''''\<rparr>"

definition example_signed :: handshake_request where
  "example_signed = example_request\<lparr>hr_Timestamp := 1000, hr_Signature := ''k1:web:sh:1000''\<rparr>"

definition example_env :: tunnel_env where
  "example_env = \<lparr>te_enc_req = (\<lambda>r. [7]), te_dec_req = (\<lambda>b. Some example_signed),
     te_enc_resp = (\<lambda>r. [if rs_Status r = ''ok'' then 1 else 0]),
     te_dec_resp = (\<lambda>b. Some (if b = [1] then OKResponse ''n2'' else ErrResponse ''n2'' ''authentication failed'')),
     te_hmac = (\<lambda>k m. k @ m), te_error_text = (\<lambda>e. ''error'')\<rparr>"

definition net_down :: dial_net where
  "net_down = \<lparr>dn_dial = Some (ErrNet ''refused''), dn_now = 1000, dn_write = None, dn_reply = Inl ErrEOF, dn_ms = 3\<rparr>"

definition net_up :: dial_net where
  "net_up = \<lparr>dn_dial = None, dn_now = 1000, dn_write = None, dn_reply = Inr [1], dn_ms = 20\<rparr>"

lemma example_pool_facts:
  "pool_ok example_pool" "rr_ready (hp_selector example_pool)" "hp_endpoints example_pool \<noteq> []"
  "candidates (hp_store example_pool) (hp_endpoints example_pool) = [0, 1, 2]"
  "hr_TargetIDC example_request = ''sh''" "hr_ServiceID example_request = ''web''"
  "hr_Version example_request = tunnel_Version" "hr_HopCount example_request = 0"
  "length (hp_endpoints example_pool) = 3"
proof -
  show "rr_ready (hp_selector example_pool)" by (simp add: example_pool_def NewHopPool_def rr_ready_def)
qed code_simp+

theorem dial_fallback_exhausts_witness:
  "\<exists>p' req'. DialWithFallback example_env example_floats ''k'' (\<lambda>k t. net_down) example_pool example_request =
      Some (Inl (hopPoolError ''sh'' ''web'' 3), p', req') \<and>
    list_all (\<lambda>e. \<not> ep_alive (hp_store p' ! e)) (hp_endpoints p')"
proof -
  have "\<not> dial_ok example_env ((\<lambda>k t. net_down) k t)" for k :: nat and t :: dial_target
    by (simp add: dial_ok_def net_down_def)
  from dial_fallback_exhausts [where net = "\<lambda>k t. net_down" and fo = example_floats and psk = "''k''"
      and req = example_request, OF example_pool_facts(1-3) this]
  show ?thesis unfolding example_pool_facts by blast
qed

theorem dial_fallback_reaches_witness:
  "\<exists>d p' req'. DialWithFallback example_env example_floats ''k'' (\<lambda>k t. net_up) example_pool example_request =
      Some (Inr d, p', req') \<and> same_request example_request (dd_sent d)"
proof -
  have ok: "dial_ok example_env ((\<lambda>k t. net_up) k t)" for k :: nat and t :: dial_target
    by (simp add: dial_ok_def net_up_def example_env_def)
  have "2 \<in> set (candidates (hp_store example_pool) (hp_endpoints example_pool))"
    by (simp add: example_pool_facts)
  from dial_fallback_reaches [where net = "\<lambda>k t. net_up",
      OF example_pool_facts(1) disjI1 [OF example_pool_facts(2)] this ok]
  show ?thesis by blast
qed

text \<open>C23: A signed request is accepted. When dialer and server share the key, the clocks differ by at most
  a minute and the request is well formed and within the hop limit, the server answers \<open>ok\<close> and calls
  the node's handler with the request as it was sent.\<close>

theorem signed_request_accepted:
  assumes "te_dec_req env (te_enc_req env (SignRequest env t psk req)) = Some (SignRequest env t psk req)"
    and "hr_Version req = tunnel_Version" and "hr_HopCount req \<le> MaxHopCount" and "hr_TargetIDC req \<noteq> ''''"
    and "\<bar>now - t\<bar> \<le> maxClockSkew"
  shows "handleWebSocket env psk node now None (Inr (te_enc_req env (SignRequest env t psk req))) =
    ([OKResponse node], Some (SignRequest env t psk req))"
proof -
  let ?r = "SignRequest env t psk req"
  have "ReceiveHandshake env (Inr (te_enc_req env ?r)) = Inr ?r"
    using assms(1-4) by (simp add: ReceiveHandshake_def)
  moreover have "VerifyRequest env now psk ?r = None"
  proof (cases "psk = ''''")
    case False
    then have "hr_Timestamp ?r = t" "hr_Signature ?r = computeHMAC env ?r psk"
      by (simp_all add: SignRequest_def Let_def computeHMAC_def hmac_message_def)
    moreover have "go_int64 (now - t) = now - t"
      using assms(5) by (intro go_int64_id) (simp_all add: maxClockSkew_def)
    ultimately show ?thesis using assms(5) by (simp add: VerifyRequest_def Let_def)
  qed (simp add: VerifyRequest_def)
  ultimately show ?thesis by (simp add: handleWebSocket_def)
qed

lemma example_signs: "SignRequest example_env 1000 ''k'' example_request = example_signed"
  by code_simp

theorem signed_request_accepted_witness:
  "handleWebSocket example_env ''k'' ''n2'' 1060 None (Inr [7]) = ([OKResponse ''n2''], Some example_signed)"
proof -
  have "te_dec_req example_env (te_enc_req example_env (SignRequest example_env 1000 ''k'' example_request)) =
      Some (SignRequest example_env 1000 ''k'' example_request)"
    "te_enc_req example_env (SignRequest example_env 1000 ''k'' example_request) = [7]"
    unfolding example_signs by (simp_all add: example_env_def)
  with signed_request_accepted [of example_env 1000 "''k''" example_request 1060 "''n2''"] show ?thesis
    by (simp add: example_signs example_pool_facts MaxHopCount_def maxClockSkew_def)
qed

text \<open>What the signature does not protect. The hop count, the protocol, the client address and the
  metadata can be changed without invalidating a request, and two requests for different services
  have one signature when the separator of the signed text moves between the two names.\<close>

theorem signature_scope:
  "VerifyRequest env now psk (r\<lparr>hr_HopCount := h, hr_Protocol := pr, hr_ClientIP := ip, hr_Metadata := md\<rparr>) =
     VerifyRequest env now psk r \<and>
   computeHMAC env (r\<lparr>hr_ServiceID := ''a:b'', hr_TargetIDC := ''c''\<rparr>) psk =
     computeHMAC env (r\<lparr>hr_ServiceID := ''a'', hr_TargetIDC := ''b:c''\<rparr>) psk"
  by (simp add: VerifyRequest_def computeHMAC_def hmac_message_def)

text \<open>C39: A refused handshake counts as a success. When the server rejects a request, for a wrong key, a
  stale clock or a bad field, its error response parses, so the dialer returns the tunnel, marks the
  endpoint alive and tries no other hop, and the handler was never called at the other end.\<close>

theorem refused_handshake_is_success:
  assumes "handleWebSocket env psk node now None input = ([resp], None)"
    and "te_dec_resp env (te_enc_resp env resp) = Some resp"
    and "dn_dial (net k (ep_target p e)) = None" and "dn_write (net k (ep_target p e)) = None"
    and "dn_reply (net k (ep_target p e)) = Inr (te_enc_resp env resp)" and "e < length (hp_store p)"
  shows "rs_Status resp = ''error'' \<and>
    (\<exists>p' req'. dial_loop env fo psk' net k (e # es) p req =
      (Inr \<lparr>dd_target = ep_target p e, dd_sent = req'\<rparr>, p', req') \<and> ep_alive (hp_store p' ! e))"
proof
  show "rs_Status resp = ''error''"
    using assms(1) by (auto simp: handleWebSocket_def ErrResponse_def split: sum.splits option.splits)
  have "dial_ok env (net k (ep_target p e))" using assms(2-5) by (simp add: dial_ok_def)
  then obtain req' where t: "tryEndpoint env psk' (net k) (ep_addr (hp_store p ! e)) req =
      (Inr \<lparr>dd_target = ep_target p e, dd_sent = req'\<rparr>, dn_ms (net k (ep_target p e)), req')"
    using tryEndpoint_cases [of req env "net k" "ep_addr (hp_store p ! e)" psk'] by auto
  show "\<exists>p' req'. dial_loop env fo psk' net k (e # es) p req =
      (Inr \<lparr>dd_target = ep_target p e, dd_sent = req'\<rparr>, p', req') \<and> ep_alive (hp_store p' ! e)"
    using assms(6) by (simp add: t ep_alive_report)
qed

theorem refused_handshake_is_success_witness:
  "handleWebSocket example_env ''other'' ''n2'' 1000 None (Inr [7]) = ([ErrResponse ''n2'' ''authentication failed''], None) \<and>
   (\<exists>p' req'. dial_loop example_env example_floats ''k'' (\<lambda>k t. net_up\<lparr>dn_reply := Inr [0]\<rparr>) 0 [0, 1, 2] example_pool
      example_request = (Inr \<lparr>dd_target = ep_target example_pool 0, dd_sent = req'\<rparr>, p', req') \<and>
      ep_alive (hp_store p' ! 0))"
proof
  let ?resp = "ErrResponse ''n2'' ''authentication failed''"
  show h: "handleWebSocket example_env ''other'' ''n2'' 1000 None (Inr [7]) = ([?resp], None)" by code_simp
  have r: "te_dec_resp example_env (te_enc_resp example_env ?resp) = Some ?resp"
    "te_enc_resp example_env ?resp = [0]" "(0::nat) < length (hp_store example_pool)"
    by code_simp+
  show "\<exists>p' req'. dial_loop example_env example_floats ''k'' (\<lambda>k t. net_up\<lparr>dn_reply := Inr [0]\<rparr>) 0 [0, 1, 2] example_pool
      example_request = (Inr \<lparr>dd_target = ep_target example_pool 0, dd_sent = req'\<rparr>, p', req') \<and>
      ep_alive (hp_store p' ! 0)"
    by (rule refused_handshake_is_success [OF h r(1) _ _ _ r(3), THEN conjunct2])
      (simp_all add: net_up_def r(2))
qed

end
