(* ===== verification/Transport.thy ===== *)
theory Transport
  imports Tunnel
begin

text \<open>
  \<^verbatim>\<open>internal/tunnel/transport.go\<close>: a byte stream over the binary messages of a WebSocket. \<open>Write\<close>
  cuts its argument into messages of at most \<open>frameSize\<close> bytes; the read pump of the peer puts the
  payloads into a pipe and ends at a message beyond the read limit. What the WebSocket library answers
  to a write is an argument; its messages are values. The in-memory pipe between the pump and
  \<open>Read\<close> is the list of the bytes not yet read.
\<close>

section \<open>State\<close>

datatype ws_msg = WsBinary "byte list" | WsText "byte list" | WsPing | WsPong | WsClose

record transport =
  tp_frameSize :: int
  tp_pipe :: "byte list"
  tp_pwClosed :: bool
  tp_dead :: bool
  tp_closed :: bool          \<comment> \<open>the channel \<open>closed\<close>\<close>
  tp_closeOnce :: bool
  tp_sent :: "ws_msg list"   \<comment> \<open>messages given to the WebSocket library\<close>
  tp_connClosed :: bool

definition defaultFrameSize :: int where "defaultFrameSize = 32 * 1024"

definition NewTransport :: "int \<Rightarrow> transport" where
  "NewTransport frameSize =
     \<lparr>tp_frameSize = (if frameSize \<le> 0 then defaultFrameSize else frameSize), tp_pipe = [],
      tp_pwClosed = False, tp_dead = False, tp_closed = False, tp_closeOnce = False, tp_sent = [],
      tp_connClosed = False\<rparr>"

text \<open>The limit that the transport sets on incoming messages.\<close>

definition tp_readLimit :: "transport \<Rightarrow> int" where
  "tp_readLimit t = tp_frameSize t + 512"

section \<open>Operations\<close>

definition markDead :: "transport \<Rightarrow> transport" where
  "markDead t = (if tp_dead t then t else t\<lparr>tp_dead := True, tp_closed := True\<rparr>)"

text \<open>\<open>None\<close>: the reader blocks.\<close>

definition Transport_Read :: "nat \<Rightarrow> transport \<Rightarrow> (transport \<times> byte list \<times> go_error option) option" where
  "Transport_Read n t =
     (if tp_dead t then Some (t, [], Some ErrTransportDead)
      else if tp_pipe t \<noteq> [] then Some (t\<lparr>tp_pipe := drop n (tp_pipe t)\<rparr>, take n (tp_pipe t), None)
      else if tp_pwClosed t then Some (t, [], Some ErrEOF)
      else None)"

text \<open>
  The loop of \<open>Write\<close>: \<open>w k\<close> is what the library answers for the \<open>k\<close>-th message, to setting the
  deadline and to writing. A frame size below one never occurs (\<open>NewTransport\<close>); the loop would not
  end, which is the value \<open>None\<close>.
\<close>

function write_loop ::
  "(nat \<Rightarrow> go_error option \<times> go_error option) \<Rightarrow> nat \<Rightarrow> byte list \<Rightarrow> nat \<Rightarrow> transport \<Rightarrow>
   (transport \<times> nat \<times> go_error option) option" where
  "write_loop w k p written t =
     (if p = [] then Some (t, written, None)
      else if tp_frameSize t < 1 then None
      else (let n = (if tp_frameSize t > int (length p) then length p else nat (tp_frameSize t)) in
        case w k of
          (Some err, _) \<Rightarrow> Some (markDead t, written, Some (Wrapf ''set transport deadline err: %w'' [] err))
        | (None, Some err) \<Rightarrow> Some (markDead t, written, Some (Wrapf ''transport write err: %w'' [] err))
        | (None, None) \<Rightarrow>
            write_loop w (Suc k) (drop n p) (written + n) (t\<lparr>tp_sent := tp_sent t @ [WsBinary (take n p)]\<rparr>)))"
  by auto
termination
  by (relation "measure (\<lambda>(w, k, p, written, t). length p)") (auto split: if_splits)

declare write_loop.simps [simp del]

definition Transport_Write ::
  "(nat \<Rightarrow> go_error option \<times> go_error option) \<Rightarrow> byte list \<Rightarrow> transport \<Rightarrow>
   (transport \<times> nat \<times> go_error option) option" where
  "Transport_Write w p t =
     (if tp_dead t then Some (t, 0, Some ErrTransportDead) else write_loop w 0 p 0 t)"

text \<open>\<open>Close\<close>: the body of \<open>closeOnce.Do\<close> runs at most once. \<open>werr\<close> and \<open>cerr\<close> are what the library
  answers to the close message and to closing the connection.\<close>

definition Transport_Close ::
  "go_error option \<Rightarrow> go_error option \<Rightarrow> transport \<Rightarrow> transport \<times> go_error option" where
  "Transport_Close werr cerr t =
     (let t1 = markDead t in
      if tp_closeOnce t1 then (t1, None)
      else (t1\<lparr>tp_closeOnce := True, tp_pwClosed := True, tp_connClosed := True,
               tp_sent := (if werr = None then tp_sent t1 @ [WsClose] else tp_sent t1)\<rparr>, cerr))"

text \<open>One turn of the read pump: the next message, or an error of the connection. A message beyond the
  limit is an error of \<open>NextReader\<close>. Once the pump has ended, its half of the pipe is closed.\<close>

definition readPump_step :: "go_error + ws_msg \<Rightarrow> transport \<Rightarrow> transport" where
  "readPump_step ev t =
     (if tp_pwClosed t then t
      else case ev of
        Inl err \<Rightarrow> t\<lparr>tp_pwClosed := True\<rparr>
      | Inr (WsBinary b) \<Rightarrow>
          if int (length b) > tp_readLimit t then t\<lparr>tp_pwClosed := True\<rparr>
          else t\<lparr>tp_pipe := tp_pipe t @ b\<rparr>
      | Inr (WsText b) \<Rightarrow> if int (length b) > tp_readLimit t then t\<lparr>tp_pwClosed := True\<rparr> else t
      | Inr WsClose \<Rightarrow> t\<lparr>tp_pwClosed := True\<rparr>
      | Inr WsPing \<Rightarrow> t
      | Inr WsPong \<Rightarrow> t)"

definition readPump :: "ws_msg list \<Rightarrow> transport \<Rightarrow> transport" where
  "readPump msgs t = fold (\<lambda>m. readPump_step (Inr m)) msgs t"

text \<open>A tick of the ping pump, which stops when the transport is closed.\<close>

definition pingPump_tick :: "go_error option \<Rightarrow> transport \<Rightarrow> transport" where
  "pingPump_tick werr t =
     (if tp_closed t then t
      else case werr of
        None \<Rightarrow> t\<lparr>tp_sent := tp_sent t @ [WsPing]\<rparr>
      | Some err \<Rightarrow> markDead t)"

text \<open>
  One direction of \<open>Relay\<close> and \<open>RelayTransports\<close> into a transport: \<open>io.CopyBuffer\<close> writes each chunk
  that it reads and ends at the first failed write or short write; then the transport is closed.
  \<open>ws\<close> holds the library's answers for each chunk.
\<close>

fun copy_into ::
  "(nat \<Rightarrow> go_error option \<times> go_error option) list \<Rightarrow> byte list list \<Rightarrow> transport \<Rightarrow>
   (transport \<times> go_error option) option" where
  "copy_into (w # ws) (c # cs) t = (case Transport_Write w c t of
     None \<Rightarrow> None
   | Some (t', n, None) \<Rightarrow> copy_into ws cs t'
   | Some (t', n, Some err) \<Rightarrow> Some (t', Some err))"
| "copy_into ws cs t = Some (t, None)"

definition relay_into ::
  "(nat \<Rightarrow> go_error option \<times> go_error option) list \<Rightarrow> byte list list \<Rightarrow> transport \<Rightarrow> transport option" where
  "relay_into ws cs t = map_option (\<lambda>(t', err). fst (Transport_Close None None t')) (copy_into ws cs t)"

section \<open>What a write sends\<close>

fun binary_payload :: "ws_msg \<Rightarrow> byte list" where
  "binary_payload (WsBinary b) = b"
| "binary_payload _ = []"

definition stream_of :: "ws_msg list \<Rightarrow> byte list" where
  "stream_of ms = concat (map binary_payload ms)"

definition within :: "int \<Rightarrow> ws_msg \<Rightarrow> bool" where
  "within n m \<longleftrightarrow> int (length (binary_payload m)) \<le> n \<and> (\<exists>b. m = WsBinary b)"

lemma stream_of_simps [simp]:
  "stream_of [] = []" "stream_of (m # ms) = binary_payload m @ stream_of ms"
  "stream_of (ms @ ns) = stream_of ms @ stream_of ns"
  by (simp_all add: stream_of_def)

lemma markDead_simps [simp]:
  "tp_dead (markDead t)" "tp_sent (markDead t) = tp_sent t" "tp_frameSize (markDead t) = tp_frameSize t"
  "tp_pipe (markDead t) = tp_pipe t" "tp_closeOnce (markDead t) = tp_closeOnce t"
  by (simp_all add: markDead_def)

text \<open>What a run of the write loop achieves.\<close>

definition write_spec ::
  "(nat \<Rightarrow> go_error option \<times> go_error option) \<Rightarrow> byte list \<Rightarrow> nat \<Rightarrow> transport \<Rightarrow>
   (transport \<times> nat \<times> go_error option) option \<Rightarrow> bool" where
  "write_spec w p written t res \<longleftrightarrow> (\<exists>t' n err ms. res = Some (t', written + n, err) \<and> n \<le> length p \<and>
    tp_sent t' = tp_sent t @ ms \<and> stream_of ms = take n p \<and> list_all (within (tp_frameSize t)) ms \<and>
    (err = None \<longrightarrow> n = length p \<and> t' = t\<lparr>tp_sent := tp_sent t @ ms\<rparr>) \<and>
    (err \<noteq> None \<longrightarrow> tp_dead t') \<and> ((\<forall>i. w i = (None, None)) \<longrightarrow> err = None))"

lemma write_spec_done: "write_spec w [] written t (Some (t, written, None))"
  unfolding write_spec_def
  by (intro exI [of _ t] exI [of _ "0 :: nat"] exI [of _ "None :: go_error option"] exI [of _ "[] :: ws_msg list"]) simp

lemma write_spec_error:
  "w k \<noteq> (None, None) \<Longrightarrow> write_spec w p written t (Some (markDead t, written, Some err))"
  unfolding write_spec_def
  by (intro exI [of _ "markDead t"] exI [of _ "0 :: nat"] exI [of _ "Some err"] exI [of _ "[] :: ws_msg list"]) auto

lemma write_spec_step:
  assumes "write_spec w (drop n p) (written + n) (t\<lparr>tp_sent := tp_sent t @ [WsBinary (take n p)]\<rparr>) res"
    and n: "n \<le> length p" "int n \<le> tp_frameSize t"
  shows "write_spec w p written t res"
proof -
  let ?t = "t\<lparr>tp_sent := tp_sent t @ [WsBinary (take n p)]\<rparr>"
  from assms(1) obtain t' m err ms where
    s: "res = Some (t', written + n + m, err)" "m \<le> length (drop n p)" "tp_sent t' = tp_sent ?t @ ms"
      "stream_of ms = take m (drop n p)" "list_all (within (tp_frameSize ?t)) ms"
      "err = None \<longrightarrow> m = length (drop n p) \<and> t' = ?t\<lparr>tp_sent := tp_sent ?t @ ms\<rparr>"
      "err \<noteq> None \<longrightarrow> tp_dead t'" "(\<forall>i. w i = (None, None)) \<longrightarrow> err = None"
    unfolding write_spec_def by blast
  have "within (tp_frameSize t) (WsBinary (take n p))" using n by (simp add: within_def)
  then show ?thesis unfolding write_spec_def using s n
    by (intro exI [of _ t'] exI [of _ "n + m"] exI [of _ err] exI [of _ "WsBinary (take n p) # ms"])
      (simp add: take_add)
qed

lemma write_loop_sends:
  assumes "0 < tp_frameSize t"
  shows "write_spec w p written t (write_loop w k p written t)"
  using assms
proof (induction w k p written t rule: write_loop.induct)
  case (1 w k p written t)
  show ?case
  proof (cases "p = []")
    case True
    then show ?thesis by (subst write_loop.simps) (simp add: write_spec_done)
  next
    case False
    define n where "n = (if tp_frameSize t > int (length p) then length p else nat (tp_frameSize t))"
    have n: "n \<le> length p" "int n \<le> tp_frameSize t" using "1.prems" by (auto simp: n_def)
    have f: "(tp_frameSize t < 1) = False" using "1.prems" by simp
    let ?t = "t\<lparr>tp_sent := tp_sent t @ [WsBinary (take n p)]\<rparr>"
    have step: "write_loop w k p written t = (case w k of
          (Some err, _) \<Rightarrow> Some (markDead t, written, Some (Wrapf ''set transport deadline err: %w'' [] err))
        | (None, Some err) \<Rightarrow> Some (markDead t, written, Some (Wrapf ''transport write err: %w'' [] err))
        | (None, None) \<Rightarrow> write_loop w (Suc k) (drop n p) (written + n) ?t)"
      by (subst write_loop.simps) (simp only: False f if_False Let_def n_def [symmetric])
    show ?thesis
    proof (cases "w k = (None, None)")
      case True
      have "write_spec w (drop n p) (written + n) ?t (write_loop w (Suc k) (drop n p) (written + n) ?t)"
        by (rule "1.IH") (use False f True n_def "1.prems" in simp_all)
      with write_spec_step [OF _ n] step True show ?thesis by simp
    next
      case False
      with write_spec_error [of w k p written t] step show ?thesis
        by (auto split: prod.split option.split)
    qed
  qed
qed

lemma readPump_within:
  assumes "list_all (within s) ms" and "s \<le> tp_readLimit t" and "\<not> tp_pwClosed t"
  shows "readPump ms t = t\<lparr>tp_pipe := tp_pipe t @ stream_of ms\<rparr>"
  using assms
proof (induction ms arbitrary: t)
  case (Cons m ms)
  then obtain b where b: "m = WsBinary b" "int (length b) \<le> s" by (auto simp: within_def)
  with Cons.prems have "readPump_step (Inr m) t = t\<lparr>tp_pipe := tp_pipe t @ b\<rparr>" by (simp add: readPump_step_def)
  moreover have "readPump ms (t\<lparr>tp_pipe := tp_pipe t @ b\<rparr>) = t\<lparr>tp_pipe := tp_pipe t @ b @ stream_of ms\<rparr>"
    using Cons.IH [of "t\<lparr>tp_pipe := tp_pipe t @ b\<rparr>"] Cons.prems by (simp add: tp_readLimit_def)
  ultimately show ?case using b by (simp add: readPump_def)
qed (simp add: readPump_def)

text \<open>C19: The transport is a faithful byte stream. A write on a live transport whose messages the network
  takes returns the whole length, and when the messages reach a peer whose read limit admits the
  sender's frame size, the peer's reader finds exactly the written bytes behind those it had.\<close>

theorem transport_stream_roundtrip:
  assumes "0 < tp_frameSize a" and "\<not> tp_dead a" and "tp_frameSize a \<le> tp_readLimit b" and "\<not> tp_pwClosed b"
    and "\<And>k. w k = (None, None)"
  shows "\<exists>a'. Transport_Write w p a = Some (a', length p, None) \<and>
    readPump (drop (length (tp_sent a)) (tp_sent a')) b = b\<lparr>tp_pipe := tp_pipe b @ p\<rparr>"
proof -
  from write_loop_sends [OF assms(1), of w p 0 0] obtain a' n err ms where
    l: "write_loop w 0 p 0 a = Some (a', 0 + n, err)" "tp_sent a' = tp_sent a @ ms"
    "stream_of ms = take n p" "list_all (within (tp_frameSize a)) ms"
    "err = None \<longrightarrow> n = length p \<and> a' = a\<lparr>tp_sent := tp_sent a @ ms\<rparr>"
    "(\<forall>i. w i = (None, None)) \<longrightarrow> err = None" unfolding write_spec_def by blast
  then have "err = None" "n = length p" using assms(5) by blast+
  with l readPump_within [OF l(4) assms(3,4)] assms(2) show ?thesis
    by (intro exI [of _ a'] conjI) (simp_all add: Transport_Write_def del: not_None_eq)
qed

theorem transport_stream_roundtrip_witness:
  "\<exists>a'. Transport_Write (\<lambda>k. (None, None)) [1, 2, 3, 4, 5] (NewTransport 2) = Some (a', 5, None) \<and>
    tp_pipe (readPump (tp_sent a') (NewTransport 0)) = [1, 2, 3, 4, 5]"
  using transport_stream_roundtrip [of "NewTransport 2" "NewTransport 0" "\<lambda>k. (None, None)" "[1, 2, 3, 4, 5]"]
  by (auto simp: NewTransport_def tp_readLimit_def defaultFrameSize_def)

text \<open>A failed write is accounted for. Whatever the network does, \<open>Write\<close> returns; the number that it
  returns is the number of bytes that were handed over in whole messages, an error marks the transport
  dead, and from then on reads and writes fail without sending anything.\<close>

theorem transport_write_accounts:
  assumes "0 < tp_frameSize t" and "\<not> tp_dead t"
  shows "\<exists>t' n err ms. Transport_Write w p t = Some (t', n, err) \<and> tp_sent t' = tp_sent t @ ms \<and>
    stream_of ms = take n p \<and> n \<le> length p \<and> (err = None \<longleftrightarrow> \<not> tp_dead t') \<and> (err = None \<longrightarrow> n = length p) \<and>
    (err \<noteq> None \<longrightarrow> Transport_Write w q t' = Some (t', 0, Some ErrTransportDead) \<and>
      Transport_Read m t' = Some (t', [], Some ErrTransportDead))"
proof -
  from write_loop_sends [OF assms(1), of w p 0 0] obtain t' n err ms where
    l: "write_loop w 0 p 0 t = Some (t', 0 + n, err)" "n \<le> length p" "tp_sent t' = tp_sent t @ ms" "stream_of ms = take n p"
    "err = None \<longrightarrow> n = length p \<and> t' = t\<lparr>tp_sent := tp_sent t @ ms\<rparr>" "err \<noteq> None \<longrightarrow> tp_dead t'"
    unfolding write_spec_def by blast
  have e: "err = None \<longleftrightarrow> \<not> tp_dead t'" using l(5,6) assms(2) by (cases err) auto
  show ?thesis
  proof (intro exI conjI impI)
    show "Transport_Write w p t = Some (t', n, err)" using l(1) assms(2) by (simp add: Transport_Write_def)
    show "tp_sent t' = tp_sent t @ ms" "stream_of ms = take n p" "n \<le> length p" by (rule l)+
    show "err = None \<longleftrightarrow> \<not> tp_dead t'" by (rule e)
    show "n = length p" if "err = None" using l(5) that by blast
    assume "err \<noteq> None"
    with l(6) have "tp_dead t'" by blast
    then show "Transport_Write w q t' = Some (t', 0, Some ErrTransportDead)"
      "Transport_Read m t' = Some (t', [], Some ErrTransportDead)"
      by (simp_all add: Transport_Write_def Transport_Read_def)
  qed
qed

theorem transport_write_accounts_witness:
  "\<exists>t' n err. Transport_Write (\<lambda>k. if k = 1 then (None, Some (ErrNet ''reset'')) else (None, None)) [1, 2, 3, 4, 5]
     (NewTransport 2) = Some (t', n, err) \<and> n \<le> 5"
  using transport_write_accounts [of "NewTransport 2" "\<lambda>k. if k = 1 then (None, Some (ErrNet ''reset'')) else (None, None)"
      "[1, 2, 3, 4, 5]" "[]" 0]
  by (auto simp: NewTransport_def)

text \<open>Closing is idempotent. After one \<open>Close\<close> the transport is dead and its pipe is closed; closing
  again sends nothing, returns no error and leaves the state as it is.\<close>

theorem transport_close_once:
  "tp_dead (fst (Transport_Close werr cerr t)) \<and>
   Transport_Close werr' cerr' (fst (Transport_Close werr cerr t)) = (fst (Transport_Close werr cerr t), None) \<and>
   Transport_Write w p (fst (Transport_Close werr cerr t)) =
     Some (fst (Transport_Close werr cerr t), 0, Some ErrTransportDead)"
  by (auto simp: Transport_Close_def Transport_Write_def markDead_def Let_def)

end
