(* ===== verification/L7.thy ===== *)
theory L7
  imports Transport
begin

text \<open>
  \<^verbatim>\<open>internal/proxy/l7.go\<close> and the dialing of \<^verbatim>\<open>l4.go\<close>: the HTTP side of an access node. Requests and
  responses are what \<open>http.ReadRequest\<close> and \<open>http.ReadResponse\<close> return, headers with Go's canonical
  keys; header values are ASCII. What the connections answer is an argument of each handler. Bodies
  are part of the messages and are not looked at.
\<close>

section \<open>Headers\<close>

type_synonym http_header = "string \<Rightarrow> string list option"

definition valid_header_byte :: "char \<Rightarrow> bool" where
  "valid_header_byte c \<longleftrightarrow>
     (let n = of_char c :: nat in 48 \<le> n \<and> n \<le> 57 \<or> 65 \<le> n \<and> n \<le> 90 \<or> 97 \<le> n \<and> n \<le> 122) \<or>
     List.member ''!#$%&*+-.^_|~'' c \<or> of_char c = (39 :: nat) \<or> of_char c = (96 :: nat)"

definition ascii_upper :: "char \<Rightarrow> char" where
  "ascii_upper c = (let n = of_char c :: nat in if 97 \<le> n \<and> n \<le> 122 then char_of (n - 32) else c)"

fun canon_from :: "bool \<Rightarrow> string \<Rightarrow> string" where
  "canon_from up [] = []"
| "canon_from up (c # cs) = (if up then ascii_upper c else ascii_lower c) # canon_from (c = CHR ''-'') cs"

text \<open>\<open>http.CanonicalHeaderKey\<close>.\<close>

definition canonical_key :: "string \<Rightarrow> string" where
  "canonical_key k = (if list_all valid_header_byte k then canon_from True k else k)"

definition hdr_Get :: "http_header \<Rightarrow> string \<Rightarrow> string" where
  "hdr_Get h k = (case h (canonical_key k) of Some (v # vs) \<Rightarrow> v | _ \<Rightarrow> '''')"

definition hdr_Set :: "string \<Rightarrow> string \<Rightarrow> http_header \<Rightarrow> http_header" where
  "hdr_Set k v h = h(canonical_key k \<mapsto> [v])"

definition hdr_Del :: "string \<Rightarrow> http_header \<Rightarrow> http_header" where
  "hdr_Del k h = h(canonical_key k := None)"

section \<open>Requests\<close>

record l7_request =
  lq_Method :: string
  lq_Host :: string
  lq_URLHost :: string
  lq_URLScheme :: string
  lq_Header :: http_header
  lq_ProtoMajor :: int
  lq_ProtoMinor :: int

record l7_response =
  ls_Status :: int
  ls_Header :: http_header

definition ProtoAtLeast :: "int \<Rightarrow> int \<Rightarrow> l7_request \<Rightarrow> bool" where
  "ProtoAtLeast major minor r \<longleftrightarrow>
     lq_ProtoMajor r > major \<or> lq_ProtoMajor r = major \<and> lq_ProtoMinor r \<ge> minor"

definition hopByHopHeaders :: "string list" where
  "hopByHopHeaders = [''Connection'', ''Keep-Alive'', ''Proxy-Authenticate'',
     ''Proxy-Authorization'', ''TE'', ''Trailers'']"

definition isWebSocketUpgrade :: "l7_request \<Rightarrow> bool" where
  "isWebSocketUpgrade r \<longleftrightarrow> equal_fold (hdr_Get (lq_Header r) ''Upgrade'') ''websocket'' \<and>
     str_contains (map ascii_lower (hdr_Get (lq_Header r) ''Connection'')) ''upgrade''"

text \<open>\<open>strings.Split(v, ",")\<close>, which has at least one part, and \<open>strings.TrimSpace\<close> on ASCII.\<close>

fun split_comma :: "string \<Rightarrow> string list" where
  "split_comma [] = [[]]"
| "split_comma (c # cs) =
     (if c = CHR '','' then [] # split_comma cs
      else case split_comma cs of p # ps \<Rightarrow> (c # p) # ps | [] \<Rightarrow> [[c]])"

definition is_space :: "char \<Rightarrow> bool" where
  "is_space c \<longleftrightarrow> (let n = of_char c :: nat in n = 32 \<or> 9 \<le> n \<and> n \<le> 13)"

definition trim_space :: "string \<Rightarrow> string" where
  "trim_space s = rev (dropWhile is_space (rev (dropWhile is_space s)))"

definition connectionHasClose :: "http_header \<Rightarrow> bool" where
  "connectionHasClose h =
     (case h ''Connection'' of
        None \<Rightarrow> False
      | Some vs \<Rightarrow> list_ex (\<lambda>v. list_ex (\<lambda>t. equal_fold (trim_space t) ''close'') (split_comma v)) vs)"

definition forward_headers :: "service_config \<Rightarrow> string \<Rightarrow> http_header \<Rightarrow> http_header" where
  "forward_headers svc ip h =
     (let prior = hdr_Get h ''X-Forwarded-For'';
          h1 = hdr_Set ''X-Forwarded-For'' (if prior \<noteq> '''' then prior @ '', '' @ ip else ip) h;
          h2 = hdr_Set ''X-Real-IP'' ip h1;
          h3 = hdr_Set ''Via'' ''1.1 accel-proxy'' h2
      in hdr_Set ''X-Forwarded-Proto'' (if oc_TLS (sc_Origin svc) then ''https'' else ''http'') h3)"

text \<open>\<open>AddRequestHeaders\<close> is a map; its list gives the order of the iteration.\<close>

definition configured_headers :: "service_config \<Rightarrow> http_header \<Rightarrow> http_header" where
  "configured_headers svc h =
     fold (\<lambda>(k, v). hdr_Set k v) (hc_AddRequestHeaders (sc_HTTP svc))
       (fold hdr_Del (hc_RemoveRequestHeaders (sc_HTTP svc)) h)"

definition rewrite_host :: "service_config \<Rightarrow> l7_request \<Rightarrow> l7_request" where
  "rewrite_host svc r =
     (if hc_RewriteHost (sc_HTTP svc) \<and> hc_RewriteHostValue (sc_HTTP svc) \<noteq> ''''
      then r\<lparr>lq_Host := hc_RewriteHostValue (sc_HTTP svc)\<rparr> else r)"

definition complete_url :: "service_config \<Rightarrow> l7_request \<Rightarrow> l7_request" where
  "complete_url svc r =
     r\<lparr>lq_URLHost := (if lq_URLHost r = '''' then lq_Host r else lq_URLHost r),
       lq_URLScheme := (if lq_URLScheme r = ''''
         then (if oc_TLS (sc_Origin svc) then ''https'' else ''http'') else lq_URLScheme r)\<rparr>"

definition mutateRequest :: "service_config \<Rightarrow> string \<Rightarrow> l7_request \<Rightarrow> l7_request" where
  "mutateRequest svc ip r =
     (let r1 = r\<lparr>lq_Header := configured_headers svc (forward_headers svc ip (lq_Header r))\<rparr>;
          r2 = complete_url svc (rewrite_host svc r1)
      in if isWebSocketUpgrade r2 then r2
         else r2\<lparr>lq_Header := fold hdr_Del hopByHopHeaders (lq_Header r2)\<rparr>)"

section \<open>Full-duplex relay\<close>

text \<open>
  What the two raw connections still deliver after the upgrade, and what their readers had already
  buffered. \<open>relayBuffered\<close> first flushes the buffers, origin's first, then copies both ways; the
  result is what each side gets. A flush that fails ends the relay before any copying.
\<close>

record duplex =
  dx_clientBuffered :: "byte list"
  dx_clientRest :: "byte list"
  dx_originBuffered :: "byte list"
  dx_originRest :: "byte list"
  dx_toClientErr :: "go_error option"   \<comment> \<open>the write of the flush to the client\<close>
  dx_toOriginErr :: "go_error option"

definition flushBufio :: "byte list option \<Rightarrow> go_error option \<Rightarrow> byte list \<times> go_error option" where
  "flushBufio br write_err = (case br of
     None \<Rightarrow> ([], None)
   | Some buffered \<Rightarrow>
       if length buffered = 0 then ([], None)
       else case write_err of
         Some e \<Rightarrow> ([], Some (Wrapf ''bufio drain write: %w'' [] e))
       | None \<Rightarrow> (buffered, None))"

definition relayBuffered :: "byte list option \<Rightarrow> byte list option \<Rightarrow> duplex \<Rightarrow> byte list \<times> byte list" where
  "relayBuffered aBR bBR dx =
     (case flushBufio bBR (dx_toClientErr dx) of
        (toA, Some e) \<Rightarrow> (toA, [])
      | (toA, None) \<Rightarrow> (case flushBufio aBR (dx_toOriginErr dx) of
          (toB, Some e) \<Rightarrow> (toA, toB)
        | (toB, None) \<Rightarrow> (toA @ dx_originRest dx, toB @ dx_clientRest dx)))"

section \<open>Handlers\<close>

datatype to_client =
    ClientHTTPError int string      \<comment> \<open>\<open>writeHTTPError\<close>\<close>
  | ClientResponse l7_response
  | ClientEstablished               \<comment> \<open>\<open>HTTP/1.1 200 Connection Established\<close>\<close>
  | ClientBytes "byte list"

record l7_effects =
  le_origin :: "l7_request list"    \<comment> \<open>requests written to the tunnel\<close>
  le_originBytes :: "byte list"
  le_client :: "to_client list"

abbreviation effects :: "l7_request list \<Rightarrow> byte list \<Rightarrow> to_client list \<Rightarrow> l7_effects" where
  "effects rs b cs \<equiv> \<lparr>le_origin = rs, le_originBytes = b, le_client = cs\<rparr>"

text \<open>What happens around one request: writing it, the response, writing to the client, and the relay.\<close>

record l7_net =
  ln_write :: "go_error option"
  ln_resp :: "go_error + l7_response"
  ln_client :: "go_error option"
  ln_duplex :: duplex

definition relay_effects :: "l7_request \<Rightarrow> to_client \<Rightarrow> byte list \<times> byte list \<Rightarrow> l7_effects" where
  "relay_effects r first out = effects [r] (snd out) [first, ClientBytes (fst out)]"

definition handleWebSocketReq :: "l7_request \<Rightarrow> l7_net \<Rightarrow> l7_effects" where
  "handleWebSocketReq r net = (case ln_write net of
     Some e \<Rightarrow> effects [] [] [ClientHTTPError 502 ''tunnel write error'']
   | None \<Rightarrow> (case ln_resp net of
       Inl e \<Rightarrow> effects [r] [] [ClientHTTPError 502 ''bad gateway'']
     | Inr resp \<Rightarrow>
         if ls_Status resp \<noteq> 101
         then effects [r] [] (if ln_client net = None then [ClientResponse resp] else [])
         else if ln_client net \<noteq> None then effects [r] [] []
         else relay_effects r (ClientResponse resp)
           (relayBuffered (Some (dx_clientBuffered (ln_duplex net))) (Some (dx_originBuffered (ln_duplex net)))
             (ln_duplex net))))"

definition handleConnect :: "l7_request \<Rightarrow> l7_net \<Rightarrow> l7_effects" where
  "handleConnect r net = (case ln_write net of
     Some e \<Rightarrow> effects [] [] [ClientHTTPError 502 ''tunnel write error'']
   | None \<Rightarrow> (case ln_resp net of
       Inl e \<Rightarrow> effects [r] [] [ClientHTTPError 502 ''bad gateway'']
     | Inr resp \<Rightarrow>
         if ls_Status resp \<noteq> 200
         then effects [r] [] (if ln_client net = None then [ClientResponse resp] else [])
         else if ln_client net \<noteq> None then effects [r] [] []
         else relay_effects r ClientEstablished
           (relayBuffered None (Some (dx_originBuffered (ln_duplex net))) (ln_duplex net))))"

definition handleHTTP :: "l7_request \<Rightarrow> l7_net \<Rightarrow> l7_effects \<times> bool" where
  "handleHTTP r net = (case ln_write net of
     Some e \<Rightarrow> (effects [] [] [], False)
   | None \<Rightarrow> (case ln_resp net of
       Inl e \<Rightarrow> (effects [r] [] [ClientHTTPError 502 ''bad gateway''], False)
     | Inr resp \<Rightarrow>
         (let resp' = resp\<lparr>ls_Header := hdr_Set ''X-Proxy'' ''accel-proxy'' (ls_Header resp)\<rparr> in
          if ln_client net \<noteq> None then (effects [r] [] [], False)
          else (effects [r] [] [ClientResponse resp'],
            if connectionHasClose (lq_Header r) then False
            else if connectionHasClose (ls_Header resp') then False
            else ProtoAtLeast 1 1 r))))"

definition join_effects :: "l7_effects \<Rightarrow> l7_effects \<Rightarrow> l7_effects" where
  "join_effects a b = effects (le_origin a @ le_origin b) (le_originBytes a @ le_originBytes b)
     (le_client a @ le_client b)"

text \<open>\<open>Handle\<close>: the requests read from the client, each with what happens around it. The loop ends at an
  error of reading, at an upgrade, or when the connection is not kept alive.\<close>

fun L7_Handle :: "service_config \<Rightarrow> string \<Rightarrow> (go_error + l7_request \<times> l7_net) list \<Rightarrow> l7_effects" where
  "L7_Handle svc ip [] = effects [] [] []"
| "L7_Handle svc ip (Inl e # inputs) = effects [] [] []"
| "L7_Handle svc ip (Inr (req, net) # inputs) =
     (let r = mutateRequest svc ip req in
      if isWebSocketUpgrade r then handleWebSocketReq r net
      else if lq_Method r = ''CONNECT'' then handleConnect r net
      else (case handleHTTP r net of
          (eff, True) \<Rightarrow> join_effects eff (L7_Handle svc ip inputs)
        | (eff, False) \<Rightarrow> eff))"

text \<open>\<open>L4Proxy\<close>: the dial timeout and the address; the relay that follows copies both ways.\<close>

definition NewL4Proxy :: "int \<Rightarrow> int" where
  "NewL4Proxy dialTimeout = (if dialTimeout = 0 then 10 * 1000000000 else dialTimeout)"

definition L4_address :: "string \<Rightarrow> int \<Rightarrow> string" where
  "L4_address targetHost targetPort = targetHost @ '':'' @ show_int targetPort"

section \<open>What is forwarded\<close>

lemma canonical_idem_known:
  "canonical_key ''Connection'' = ''Connection''" "canonical_key ''Keep-Alive'' = ''Keep-Alive''"
  "canonical_key ''Proxy-Authenticate'' = ''Proxy-Authenticate''"
  "canonical_key ''Proxy-Authorization'' = ''Proxy-Authorization''" "canonical_key ''TE'' = ''Te''"
  "canonical_key ''Trailers'' = ''Trailers''" "canonical_key ''X-Forwarded-For'' = ''X-Forwarded-For''"
  "canonical_key ''X-Real-IP'' = ''X-Real-Ip''" "canonical_key ''Via'' = ''Via''"
  "canonical_key ''X-Forwarded-Proto'' = ''X-Forwarded-Proto''" "canonical_key ''Upgrade'' = ''Upgrade''"
  "canonical_key ''X-Proxy'' = ''X-Proxy''"
  by code_simp+

lemma fold_hdr_Del: "fold hdr_Del ks h k = (if k \<in> canonical_key ` set ks then None else h k)"
  by (induction ks arbitrary: h) (auto simp: hdr_Del_def)

lemma mutate_header:
  "lq_Header (mutateRequest svc ip r) =
    (let h = configured_headers svc (forward_headers svc ip (lq_Header r)) in
     if isWebSocketUpgrade (r\<lparr>lq_Header := h\<rparr>) then h else fold hdr_Del hopByHopHeaders h)"
proof -
  have w: "isWebSocketUpgrade (complete_url svc (rewrite_host svc q)) = isWebSocketUpgrade q" for q
    by (simp add: isWebSocketUpgrade_def complete_url_def rewrite_host_def)
  have h: "lq_Header (complete_url svc (rewrite_host svc q)) = lq_Header q" for q
    by (simp add: complete_url_def rewrite_host_def)
  show ?thesis by (simp add: mutateRequest_def Let_def w h)
qed

lemma str_contains_upgrade_Nil: "\<not> str_contains [] ''upgrade''"
  by simp

lemma mutate_upgrade_or_clean:
  "isWebSocketUpgrade (mutateRequest svc ip r) \<or>
   (\<forall>k \<in> set hopByHopHeaders. lq_Header (mutateRequest svc ip r) (canonical_key k) = None)"
proof -
  let ?h = "configured_headers svc (forward_headers svc ip (lq_Header r))"
  show ?thesis
  proof (cases "isWebSocketUpgrade (r\<lparr>lq_Header := ?h\<rparr>)")
    case True
    then have "isWebSocketUpgrade (mutateRequest svc ip r)"
      using mutate_header [of svc ip r] by (simp add: isWebSocketUpgrade_def Let_def)
    then show ?thesis ..
  next
    case False
    then show ?thesis using mutate_header [of svc ip r] by (simp add: Let_def fold_hdr_Del)
  qed
qed

lemma no_connection_no_upgrade: "lq_Header r ''Connection'' = None \<Longrightarrow> \<not> isWebSocketUpgrade r"
  by (simp add: isWebSocketUpgrade_def hdr_Get_def canonical_idem_known)

text \<open>A request that is not a WebSocket upgrade is forwarded without hop-by-hop headers; in particular
  its \<open>Connection\<close> header is gone before the keep-alive decision looks at it, so that a client's
  \<open>Connection: close\<close> never ends the connection: the decision depends on the response and on the
  protocol version alone.\<close>

theorem client_close_is_ignored:
  assumes "\<not> isWebSocketUpgrade (mutateRequest svc ip r)"
    and "ln_write net = None" and "ln_client net = None" and "ln_resp net = Inr resp"
  shows "list_all (\<lambda>k. lq_Header (mutateRequest svc ip r) (canonical_key k) = None) hopByHopHeaders \<and>
    (snd (handleHTTP (mutateRequest svc ip r) net) \<longleftrightarrow>
       \<not> connectionHasClose (ls_Header resp) \<and> ProtoAtLeast 1 1 r)"
proof
  from mutate_upgrade_or_clean [of svc ip r] assms(1)
  have clean: "\<forall>k \<in> set hopByHopHeaders. lq_Header (mutateRequest svc ip r) (canonical_key k) = None" by blast
  then show "list_all (\<lambda>k. lq_Header (mutateRequest svc ip r) (canonical_key k) = None) hopByHopHeaders"
    by (simp add: list_all_iff)
  from clean have "lq_Header (mutateRequest svc ip r) ''Connection'' = None"
    by (simp add: hopByHopHeaders_def canonical_idem_known)
  then have c: "\<not> connectionHasClose (lq_Header (mutateRequest svc ip r))" by (simp add: connectionHasClose_def)
  have p: "ProtoAtLeast 1 1 (mutateRequest svc ip r) = ProtoAtLeast 1 1 r"
    by (simp add: ProtoAtLeast_def mutateRequest_def complete_url_def rewrite_host_def Let_def)
  have x: "connectionHasClose (hdr_Set ''X-Proxy'' v h) = connectionHasClose h" for v h
    by (simp add: connectionHasClose_def hdr_Set_def canonical_idem_known)
  show "snd (handleHTTP (mutateRequest svc ip r) net) \<longleftrightarrow> \<not> connectionHasClose (ls_Header resp) \<and> ProtoAtLeast 1 1 r"
    using assms(2-4) c by (simp add: handleHTTP_def Let_def p x)
qed

definition example_http :: l7_request where
  "example_http = \<lparr>lq_Method = ''GET'', lq_Host = ''a'', lq_URLHost = '''', lq_URLScheme = '''',
     lq_Header = [''Connection'' \<mapsto> [''Close'']], lq_ProtoMajor = 1, lq_ProtoMinor = 1\<rparr>"

definition example_duplex :: duplex where
  "example_duplex = \<lparr>dx_clientBuffered = [1, 2], dx_clientRest = [3], dx_originBuffered = [8], dx_originRest = [9],
     dx_toClientErr = None, dx_toOriginErr = None\<rparr>"

definition example_net :: l7_net where
  "example_net = \<lparr>ln_write = None, ln_resp = Inr \<lparr>ls_Status = 200, ls_Header = Map.empty\<rparr>, ln_client = None,
     ln_duplex = example_duplex\<rparr>"

theorem client_close_is_ignored_witness:
  "connectionHasClose (lq_Header example_http) \<and>
   snd (handleHTTP (mutateRequest example_service ''192.0.2.1'' example_http) example_net)"
proof
  show "connectionHasClose (lq_Header example_http)" by code_simp
  have u: "\<not> isWebSocketUpgrade (mutateRequest example_service ''192.0.2.1'' example_http)" by code_simp
  have n: "ln_write example_net = None" "ln_client example_net = None"
    "ln_resp example_net = Inr \<lparr>ls_Status = 200, ls_Header = Map.empty\<rparr>" by (simp_all add: example_net_def)
  show "snd (handleHTTP (mutateRequest example_service ''192.0.2.1'' example_http) example_net)"
    using client_close_is_ignored [OF u n]
    by (simp add: connectionHasClose_def example_http_def ProtoAtLeast_def)
qed



text \<open>The keep-alive loop answers in order and never invents a response: whatever the connections do,
  the client gets at most one message for each request that was read before the loop ended, plus the
  bytes of one relay, and the origin is sent a prefix of the mutated requests.\<close>

theorem l7_requests_prefix:
  "\<exists>n. le_origin (L7_Handle svc ip inputs) =
    take n (map (\<lambda>x. mutateRequest svc ip (fst x)) (map projr (takeWhile (\<lambda>x. \<not> isl x) inputs)))"
proof (induction inputs rule: L7_Handle.induct [case_names Nil Err Req])
  case (Nil svc ip)
  then show ?case by simp
next
  case (Err svc ip e inputs)
  then show ?case by simp
next
  case (Req svc ip req net inputs)
  let ?r = "mutateRequest svc ip req"
  let ?all = "map (\<lambda>x. mutateRequest svc ip (fst x)) (map projr (takeWhile (\<lambda>x. \<not> isl x) (Inr (req, net) # inputs)))"
  have one: "\<exists>n. rs = take n ?all" if "rs = [] \<or> rs = [?r]" for rs
    using that
  proof
    assume "rs = [?r]"
    then have "rs = take 1 ?all" by simp
    then show ?thesis by blast
  qed (auto intro: exI [of _ 0])
  have ws: "le_origin (handleWebSocketReq ?r net) = [] \<or> le_origin (handleWebSocketReq ?r net) = [?r]"
    by (auto simp: handleWebSocketReq_def relay_effects_def split: option.splits sum.splits)
  have cn: "le_origin (handleConnect ?r net) = [] \<or> le_origin (handleConnect ?r net) = [?r]"
    by (auto simp: handleConnect_def relay_effects_def split: option.splits sum.splits)
  obtain eff keep where h: "handleHTTP ?r net = (eff, keep)" by fastforce
  then have hp: "le_origin eff = [] \<and> \<not> keep \<or> le_origin eff = [?r]"
    by (auto simp: handleHTTP_def Let_def split: option.splits sum.splits if_splits)
  show ?case
  proof (cases "isWebSocketUpgrade ?r \<or> lq_Method ?r = ''CONNECT'' \<or> \<not> keep")
    case True
    then have "le_origin (L7_Handle svc ip (Inr (req, net) # inputs)) \<in> {[], [?r]}"
      using ws cn hp h by (auto simp: Let_def)
    then show ?thesis by (intro one) auto
  next
    case False
    then have "\<exists>n. le_origin (L7_Handle svc ip inputs) =
      take n (map (\<lambda>x. mutateRequest svc ip (fst x)) (map projr (takeWhile (\<lambda>x. \<not> isl x) inputs)))"
      using Req.IH [OF refl] h by auto
    then obtain n where n: "le_origin (L7_Handle svc ip inputs) =
      take n (map (\<lambda>x. mutateRequest svc ip (fst x)) (map projr (takeWhile (\<lambda>x. \<not> isl x) inputs)))" ..
    have "le_origin (L7_Handle svc ip (Inr (req, net) # inputs)) = take (Suc n) ?all"
      using False h hp n by (simp add: Let_def join_effects_def)
    then show ?thesis by blast
  qed
qed

end
