(* ===== verification/Backend.thy ===== *)
theory Backend
  imports Request L7
begin

text \<open>
  Both ends of a reverse request of v2 outside the multiplexer: the routes and replies of the HTTP API of
  \<^verbatim>\<open>mux/server/server.go\<close>, and the default request handler and the ping loop of \<^verbatim>\<open>mux/client/session.go\<close>. The
  handlers range over header maps; the order of such a loop is the argument \<open>ord\<close>, which lists a map.
  What \<open>http.NewRequestWithContext\<close> makes of a method and a URL, the host of the request or an error, and
  what \<open>http.Client.Do\<close> returns are arguments as well.
\<close>

section \<open>The request handler\<close>

text \<open>\<open>Header.Add\<close>, and the loops that copy a header map with it.\<close>

definition hdr_Add :: "string \<Rightarrow> string \<Rightarrow> http_header \<Rightarrow> http_header" where
  "hdr_Add k v h = h(canonical_key k \<mapsto> (case h (canonical_key k) of None \<Rightarrow> [v] | Some vs \<Rightarrow> vs @ [v]))"

definition add_headers :: "(string \<times> string list) list \<Rightarrow> http_header \<Rightarrow> http_header" where
  "add_headers hs h = fold (\<lambda>(k, vs). fold (hdr_Add k) vs) hs h"

text \<open>\<open>strings.TrimRight(s, "/")\<close>.\<close>

definition trim_right_slash :: "string \<Rightarrow> string" where
  "trim_right_slash s = rev (dropWhile (\<lambda>c. c = CHR ''/'') (rev s))"

record backend_request =
  bq_Method :: string
  bq_URL :: string
  bq_Host :: string
  bq_Header :: http_header
  bq_Body :: "byte list"

record backend_response =
  bs_StatusCode :: int
  bs_Header :: http_header
  bs_Body :: read_script

text \<open>An empty method means \<open>GET\<close>.\<close>

definition backend_request_of ::
  "(string \<Rightarrow> string \<Rightarrow> go_error + string) \<Rightarrow> (http_header \<Rightarrow> (string \<times> string list) list) \<Rightarrow> string
     \<Rightarrow> request_meta \<Rightarrow> byte list \<Rightarrow> go_error + backend_request" where
  "backend_request_of new_request ord backendBaseURL meta body =
     (let method = (if rq_Method meta = '''' then ''GET'' else rq_Method meta);
          url = trim_right_slash backendBaseURL @ rq_URL meta
      in case new_request method url of
           Inl e \<Rightarrow> Inl e
         | Inr host \<Rightarrow> Inr \<lparr>bq_Method = method, bq_URL = url,
             bq_Host = (if rq_Host meta \<noteq> '''' then rq_Host meta else host),
             bq_Header = add_headers (ord (rq_Headers meta)) Map.empty, bq_Body = body\<rparr>)"

definition bad_gateway :: response_meta where
  "bad_gateway = \<lparr>rp_StatusCode = 502, rp_Headers = Map.empty\<rparr>"

text \<open>The handler never returns an error: what fails is answered with 502.\<close>

definition NewHTTPProxyHandler ::
  "(string \<Rightarrow> string \<Rightarrow> go_error + string) \<Rightarrow> (http_header \<Rightarrow> (string \<times> string list) list)
     \<Rightarrow> (backend_request \<Rightarrow> go_error + backend_response) \<Rightarrow> string \<Rightarrow> request_meta \<Rightarrow> byte list
     \<Rightarrow> go_error + response_meta \<times> read_script option" where
  "NewHTTPProxyHandler new_request ord client_do backendBaseURL meta body =
     (case backend_request_of new_request ord backendBaseURL meta body of
        Inl e \<Rightarrow> Inr (bad_gateway, None)
      | Inr req \<Rightarrow>
          (case client_do req of
             Inl e \<Rightarrow> Inr (bad_gateway, None)
           | Inr resp \<Rightarrow> Inr (\<lparr>rp_StatusCode = bs_StatusCode resp, rp_Headers = bs_Header resp\<rparr>, Some (bs_Body resp))))"

section \<open>The server's API\<close>

datatype api2_reply =
    Api2Dispatch dispatch_result
  | Api2Nodes "string list"
  | Api2Health
  | Api2Redirect
  | Api2NotFound

definition api2_serve :: "http_request \<Rightarrow> server \<Rightarrow> api2_reply \<times> server" where
  "api2_serve r sv =
     (if take (length ''/dispatch/'') (hr_Path r) = ''/dispatch/''
      then (case handleDispatch r sv of (res, sv') \<Rightarrow> (Api2Dispatch res, sv'))
      else if hr_Path r = ''/nodes'' then (Api2Nodes (nodeIDs sv), sv)
      else if hr_Path r = ''/nodes/requestable'' then (Api2Nodes (requestableNodeIDs sv), sv)
      else if hr_Path r = ''/health'' then (Api2Health, sv)
      else if hr_Path r = ''/dispatch'' then (Api2Redirect, sv)
      else (Api2NotFound, sv))"

text \<open>What the handler of \<open>/dispatch/\<close> writes when \<open>DoRequest\<close> returns; the body is what its reader yields.\<close>

record dispatch_writer =
  dw_Status :: int
  dw_Header :: http_header
  dw_Body :: "byte list"

definition dispatch_respond ::
  "(http_header \<Rightarrow> (string \<times> string list) list) \<Rightarrow> go_error + (response_meta \<times> byte list option)
     \<Rightarrow> (go_error + dispatch_writer)" where
  "dispatch_respond ord res =
     (case res of
        Inl e \<Rightarrow> Inl (Wrapf ''dispatch failed: %v'' [] e)
      | Inr (meta, body) \<Rightarrow> Inr \<lparr>dw_Status = rp_StatusCode meta,
          dw_Header = add_headers (ord (rp_Headers meta)) Map.empty,
          dw_Body = (case body of None \<Rightarrow> [] | Some bs \<Rightarrow> bs)\<rparr>)"

section \<open>The ping loop\<close>

definition clientPingInterval :: int where "clientPingInterval = 20"
definition clientPingTimeout :: int where "clientPingTimeout = 15"

datatype cl_ping_event = ClPong int | ClTick int

text \<open>One turn: the time of the last pong, or the loop has ended, or \<open>WriteFrame\<close> was called on no connection.\<close>

datatype cl_ping_turn = PingContinues int client_session | PingReturns client_session | PingPanics

definition cl_pingLoop_step :: "cl_ping_event \<Rightarrow> int \<Rightarrow> client_session \<Rightarrow> cl_ping_turn" where
  "cl_pingLoop_step ev lastPong s =
     (case ev of
        ClPong now \<Rightarrow> PingContinues now s
      | ClTick now \<Rightarrow>
          if now - lastPong > clientPingInterval + clientPingTimeout then PingReturns (cl_closeConn s)
          else (case cl_conn s of
                  None \<Rightarrow> PingPanics
                | Some c \<Rightarrow> PingContinues lastPong
                    (s\<lparr>cl_conn := Some (snd (mc_WriteFrame c
                       \<lparr>StreamID = ControlStreamID, FType = TypePing, FFlags = 0, Payload = []\<rparr>))\<rparr>)))"

text \<open>
  A session that was closed has no connection. If its ticker fires before the loop has seen the end of the
  context - both are ready, and \<open>select\<close> picks either - the process panics.
\<close>

lemma ping_after_close_panics:
  "now - lastPong \<le> clientPingInterval + clientPingTimeout \<Longrightarrow> cl_pingLoop_step (ClTick now) lastPong (cl_Close s) = PingPanics"
  by (simp add: cl_pingLoop_step_def cl_Close_def cl_closeConn_def)

section \<open>Copying headers\<close>

lemma fold_hdr_Add:
  "fold (hdr_Add k) vs h = (if vs = [] then h
     else h(canonical_key k \<mapsto> (case h (canonical_key k) of None \<Rightarrow> vs | Some ws \<Rightarrow> ws @ vs)))"
proof (induction vs arbitrary: h)
  case (Cons v vs)
  then show ?case by (auto simp: hdr_Add_def split: option.split)
qed simp

text \<open>Headers with canonical names and at least one value each are copied as they are.\<close>

lemma add_headers_map_of:
  "distinct (map fst hs) \<Longrightarrow> (\<And>k vs. (k, vs) \<in> set hs \<Longrightarrow> canonical_key k = k \<and> vs \<noteq> []) \<Longrightarrow>
     (\<And>k. k \<in> fst ` set hs \<Longrightarrow> h k = None) \<Longrightarrow> add_headers hs h = h ++ map_of hs"
proof (induction hs arbitrary: h)
  case (Cons x hs)
  obtain k vs where x: "x = (k, vs)" by (cases x)
  have k: "canonical_key k = k" "vs \<noteq> []" "h k = None" "k \<notin> fst ` set hs" using Cons.prems x by (auto simp: image_iff)
  then have f: "fold (hdr_Add k) vs h = h(k \<mapsto> vs)" by (simp add: fold_hdr_Add)
  have "add_headers hs (h(k \<mapsto> vs)) = h(k \<mapsto> vs) ++ map_of hs"
  proof (rule Cons.IH)
    show "(h(k \<mapsto> vs)) n = None" if "n \<in> fst ` set hs" for n using that Cons.prems(3) k(4) by auto
  qed (use Cons.prems(1,2) in auto)
  moreover have "h(k \<mapsto> vs) ++ map_of hs = h ++ (map_of hs)(k \<mapsto> vs)"
    using k(4) map_of_eq_None_iff [of hs k] by (auto simp: fun_eq_iff map_add_def split: option.split)
  moreover have "add_headers (x # hs) h = add_headers hs (h(k \<mapsto> vs))" by (simp add: add_headers_def x f)
  ultimately show ?case by (simp only: x map_of.simps fst_conv snd_conv)
qed (simp add: add_headers_def)

text \<open>\<open>ord\<close> lists a map, each key once.\<close>

definition lists_map :: "(http_header \<Rightarrow> (string \<times> string list) list) \<Rightarrow> http_header \<Rightarrow> bool" where
  "lists_map ord m \<longleftrightarrow> distinct (map fst (ord m)) \<and> map_of (ord m) = m"

definition canonical_header :: "http_header \<Rightarrow> bool" where
  "canonical_header m \<longleftrightarrow> (\<forall>k vs. m k = Some vs \<longrightarrow> canonical_key k = k \<and> vs \<noteq> [])"

lemma add_headers_ord:
  assumes "lists_map ord m" and "canonical_header m"
  shows "add_headers (ord m) Map.empty = m"
proof -
  have "canonical_key k = k \<and> vs \<noteq> []" if "(k, vs) \<in> set (ord m)" for k vs
    using assms that map_of_is_SomeI [of "ord m" k vs] unfolding lists_map_def canonical_header_def by metis
  with assms(1) show ?thesis by (simp add: add_headers_map_of lists_map_def)
qed

text \<open>A response of the backend, carried as its metadata, is written by the API as it was received.\<close>

lemma backend_response_returned:
  assumes "client_do req = Inr resp" and "backend_request_of new_request ord base meta body = Inr req"
    and "lists_map ord (bs_Header resp)" and "canonical_header (bs_Header resp)"
  shows "\<exists>m. NewHTTPProxyHandler new_request ord client_do base meta body = Inr (m, Some (bs_Body resp)) \<and>
    dispatch_respond ord (Inr (m, Some bs)) = Inr \<lparr>dw_Status = bs_StatusCode resp, dw_Header = bs_Header resp, dw_Body = bs\<rparr>"
  using assms by (simp add: NewHTTPProxyHandler_def dispatch_respond_def add_headers_ord)

section \<open>A dispatched request reaches the backend\<close>

text \<open>
  The path is decoded before it is cut up, and put into a URL as it is: a question mark that was
  escaped in the path starts a query on the other side.
\<close>

lemma dispatch_target_ambiguous:
  assumes "hr_Path r1 = ''/dispatch/'' @ node @ ''/'' @ p @ ''?'' @ q" and "hr_RawQuery r1 = ''''"
    and "hr_Path r2 = ''/dispatch/'' @ node @ ''/'' @ p" and "hr_RawQuery r2 = q" and "q \<noteq> ''''"
    and "CHR ''/'' \<notin> set node"
  shows "dispatch_target r1 = dispatch_target r2"
  using dispatch_target_parses [of node "''/'' @ p @ ''?'' @ q" r1] dispatch_target_parses [of node "''/'' @ p" r2] assms
  by simp

definition stream_request :: "(string \<Rightarrow> string \<Rightarrow> go_error + string) \<Rightarrow> (http_header \<Rightarrow> (string \<times> string list) list)
    \<Rightarrow> string \<Rightarrow> mstream \<Rightarrow> go_error + backend_request" where
  "stream_request new_request ord base st =
     (case st_reqHeaders st of
        None \<Rightarrow> Inl (Errorf ''receive request headers failed'' [])
      | Some meta \<Rightarrow> backend_request_of new_request ord base meta (sp_content (st_reqBody st)))"


section \<open>An example\<close>

definition api_request :: http_request where
  "api_request = \<lparr>hr_Method = ''GET'', hr_Path = ''/dispatch/n1/v1'', hr_RawQuery = ''a=b'', hr_Host = '''',
     hr_Header = [(''Authorization'', [''Bearer k'']), (''X-Id'', [''7''])]\<rparr>"

definition api_server :: server where
  "api_server = (NewServer ''k'')\<lparr>sv_nodes := [(''n1'', 0)],
     sv_sessions := [(newEdgeSession ''n1'' fresh_conn)\<lparr>es_capabilities := [''reverse-http'']\<rparr>], sv_pc := [PcServing]\<rparr>"

definition api_codec :: "request_meta \<Rightarrow> codec" where
  "api_codec meta = phase_example_codec\<lparr>dec_request := (\<lambda>_. (None, meta))\<rparr>"

lemma auth_folds: "equal_fold ''Authorization'' ''Authorization''" "\<not> equal_fold ''X-Id'' ''Authorization''"
  by code_simp+

lemma api_forward:
  "\<exists>meta sv'. handleDispatch api_request api_server = (Forward 0 1 meta, sv') \<and> sv_sessions sv' = sv_sessions api_server \<and>
     rq_Method meta = ''GET'' \<and> rq_Headers meta = [''X-Id'' \<mapsto> [''7'']]"
  by (simp add: handleDispatch_def api_request_def api_server_def NewServer_def MuxServer.header_get_def
      dispatch_target_def getSession_def hasCapability_def alloc_nonzero auth_folds)

definition list_example :: "http_header \<Rightarrow> (string \<times> string list) list" where
  "list_example m = (case m ''X-Id'' of None \<Rightarrow> [] | Some vs \<Rightarrow> [(''X-Id'', vs)])"


end
