(* ===== verification/Client1.thy ===== *)
theory Client1
  imports MuxClient PushSession
begin

text \<open>
  \<^verbatim>\<open>internal/mux_http/client/session.go\<close>: the edge's session of the first protocol, and its
  composition with the server's buffer and sender. The receive buffer is the same file as in the
  second version, and the state of a stream has the same fields, so both are taken from there.
  Streams are filed by name; \<open>streamsByID\<close> holds references to the same states, here the names.
\<close>

section \<open>State\<close>

record client1 =
  q1_nodeID :: string
  q1_accessAddr :: string
  q1_subs :: "string list"
  q1_streams :: "(string \<times> push_recv) list"
  q1_byID :: "(u32 \<times> string) list"
  q1_conn :: "mux_conn option"
  q1_pongs :: nat
  q1_closed :: bool
  q1_ctx :: "go_error option"

definition newRecvState :: "string \<Rightarrow> push_recv" where
  "newRecvState name = \<lparr>pr_name = name, pr_id = 0, pr_recvOffset = 0, pr_ackedOffset = 0,
     pr_buf = NewRecvBuffer recvBufCap\<rparr>"

definition NewEdgeClientSession1 :: "string \<Rightarrow> string \<Rightarrow> string list \<Rightarrow> client1" where
  "NewEdgeClientSession1 nodeID accessAddr subs =
     \<lparr>q1_nodeID = nodeID, q1_accessAddr = accessAddr, q1_subs = subs,
      q1_streams = fold (\<lambda>name m. AList.update name (newRecvState name) m) subs [],
      q1_byID = [], q1_conn = None, q1_pongs = 0, q1_closed = False, q1_ctx = None\<rparr>"

definition q1_Close :: "client1 \<Rightarrow> client1" where
  "q1_Close c = c\<lparr>q1_closed := True, q1_ctx := Some ErrContext, q1_conn := map_option mc_Close (q1_conn c)\<rparr>"

definition q1_put :: "string \<Rightarrow> push_recv \<Rightarrow> client1 \<Rightarrow> client1" where
  "q1_put name st c = c\<lparr>q1_streams := AList.update name st (q1_streams c)\<rparr>"

text \<open>A read of \<open>StreamReader(name)\<close>; there is no reader for a name that is not subscribed.\<close>

definition q1_Read :: "string \<Rightarrow> nat \<Rightarrow> client1 \<Rightarrow> (byte list \<times> go_error option \<times> client1) option" where
  "q1_Read name m c =
     (case map_of (q1_streams c) name of
        None \<Rightarrow> None
      | Some st \<Rightarrow> (case rb_Read (pr_buf st) m of
          RBlocked \<Rightarrow> None
        | RRet bs e b \<Rightarrow> Some (bs, e, q1_put name (st\<lparr>pr_buf := b\<rparr>) c)))"

definition q1_ResumeOffset :: "string \<Rightarrow> client1 \<Rightarrow> int" where
  "q1_ResumeOffset name c =
     (case map_of (q1_streams c) name of Some st \<Rightarrow> pr_recvOffset st | None \<Rightarrow> 0)"

definition q1_send :: "frame1 \<Rightarrow> client1 \<Rightarrow> go_error option \<times> client1" where
  "q1_send f c =
     (case q1_conn c of
        None \<Rightarrow> (Some (ErrNet ''nil connection''), c)
      | Some k \<Rightarrow> (case mc1_WriteFrame k f of (r, k') \<Rightarrow> (r, c\<lparr>q1_conn := Some k'\<rparr>)))"

section \<open>Registration\<close>

text \<open>\<open>runOnce\<close> before the network: every closed buffer is reopened.\<close>

definition q1_reopen :: "client1 \<Rightarrow> client1" where
  "q1_reopen c = c\<lparr>q1_streams := map (\<lambda>(n, st).
     (n, if rb_IsClosed (pr_buf st) then st\<lparr>pr_buf := rb_Reopen (pr_buf st)\<rparr> else st)) (q1_streams c)\<rparr>"

definition q1_resume :: "client1 \<Rightarrow> string \<rightharpoonup> int" where
  "q1_resume c = (\<lambda>name. case map_of (q1_streams c) name of
     Some st \<Rightarrow> if pr_recvOffset st > 0 then Some (pr_recvOffset st) else None
   | None \<Rightarrow> None)"

definition q1_register :: "codec1 \<Rightarrow> go_error + mux_conn \<Rightarrow> client1 \<Rightarrow> go_error option \<times> client1" where
  "q1_register J dial c =
     (let c1 = q1_reopen c in
      case dial of
        Inl e \<Rightarrow> (Some (Wrapf ''dial %s: %w'' [ArgStr (q1_accessAddr c1)] e), c1)
      | Inr conn \<Rightarrow>
          (case q1_send \<lparr>f1_StreamID = ControlStreamID, f1_Type = TypeRegister1,
             f1_Payload = enc_register1 J \<lparr>r1_NodeID = q1_nodeID c1, r1_Subs = q1_subs c1,
               r1_Resume = Some (q1_resume c1), r1_Caps = []\<rparr>\<rparr> (c1\<lparr>q1_conn := Some conn\<rparr>) of
             (Some e, c2) \<Rightarrow> (Some (Wrapf ''write REGISTER: %w'' [] e), c2\<lparr>q1_conn := None\<rparr>)
           | (None, c2) \<Rightarrow> (None, c2)))"

definition q1_ids :: "(string \<rightharpoonup> u32) \<Rightarrow> client1 \<Rightarrow> client1" where
  "q1_ids ids c = c\<lparr>
     q1_streams := map (\<lambda>(n, st). (n, case ids n of Some i \<Rightarrow> st\<lparr>pr_id := i\<rparr> | None \<Rightarrow> st)) (q1_streams c),
     q1_byID := fold (\<lambda>(n, st) m. case ids n of Some i \<Rightarrow> AList.update i n m | None \<Rightarrow> m) (q1_streams c) [],
     q1_pongs := 0\<rparr>"

definition q1_registered :: "codec1 \<Rightarrow> go_error + frame1 \<Rightarrow> client1 \<Rightarrow> go_error option \<times> client1" where
  "q1_registered J answer c =
     (case answer of
        Inl e \<Rightarrow> (Some (Wrapf ''read REGISTER_ACK: %w'' [] e), c\<lparr>q1_conn := None\<rparr>)
      | Inr f \<Rightarrow>
          if f1_Type f \<noteq> TypeRegisterAck1
          then (Some (Errorf ''expected REGISTER_ACK, got type %d'' [ArgInt (uint (f1_Type f))]), c\<lparr>q1_conn := None\<rparr>)
          else (case dec_register_ack1 J (f1_Payload f) of
              (Some e, ack) \<Rightarrow> (Some (Wrapf ''parse REGISTER_ACK: %w'' [] e), c\<lparr>q1_conn := None\<rparr>)
            | (None, ack) \<Rightarrow>
                if \<not> k1_OK ack
                then (Some (Errorf ''server rejected registration: %s'' [ArgStr (k1_Message ack)]), c\<lparr>q1_conn := None\<rparr>)
                else (None, q1_ids (k1_StreamIDs ack) c)))"

section \<open>The read loop\<close>

definition q1_sendAckWithConn :: "codec1 \<Rightarrow> string \<Rightarrow> client1 \<Rightarrow> client1" where
  "q1_sendAckWithConn J name c =
     (case map_of (q1_streams c) name of
        None \<Rightarrow> c
      | Some st \<Rightarrow>
          q1_put name (st\<lparr>pr_ackedOffset := pr_recvOffset st\<rparr>)
            (snd (q1_send \<lparr>f1_StreamID = ControlStreamID, f1_Type = TypeAck1,
               f1_Payload = enc_ack J \<lparr>am_StreamID = pr_id st, am_Offset = pr_recvOffset st\<rparr>\<rparr> c)))"

definition q1_sendAck :: "codec1 \<Rightarrow> string \<Rightarrow> client1 \<Rightarrow> client1" where
  "q1_sendAck J name c = (if q1_conn c \<noteq> None then q1_sendAckWithConn J name c else c)"

text \<open>
  Storing a payload of \<open>len\<close> bytes of which \<open>rest\<close> is left. While the buffer is full the read loop
  waits inside \<open>handleData\<close>; the result is then what is left to store.
\<close>

definition q1_store :: "codec1 \<Rightarrow> bool \<Rightarrow> string \<Rightarrow> nat \<Rightarrow> byte list \<Rightarrow> client1 \<Rightarrow> byte list option \<times> client1" where
  "q1_store J waited name len rest c =
     (case map_of (q1_streams c) name of
        None \<Rightarrow> (None, c)
      | Some st \<Rightarrow> (case push_write (q1_ctx c) waited len rest st of
          PushWaits rest' st' \<Rightarrow> (Some rest', q1_put name st' c)
        | PushFailed st' \<Rightarrow> (None, q1_put name st' c)
        | PushStored st' \<Rightarrow>
            (None, if pr_recvOffset st' - pr_ackedOffset st' \<ge> ackEveryBytes
              then q1_sendAck J name (q1_put name st' c) else q1_put name st' c)))"

definition q1_handleData :: "codec1 \<Rightarrow> frame1 \<Rightarrow> client1 \<Rightarrow> byte list option \<times> client1" where
  "q1_handleData J f c =
     (case map_of (q1_byID c) (f1_StreamID f) of
        None \<Rightarrow> (None, c)
      | Some name \<Rightarrow> q1_store J False name (length (f1_Payload f)) (f1_Payload f) c)"

definition q1_handleRST :: "rst1_msg \<Rightarrow> client1 \<Rightarrow> client1" where
  "q1_handleRST msg c =
     (case map_of (q1_byID c) (x1_StreamID msg) of
        None \<Rightarrow> c
      | Some name \<Rightarrow> (case map_of (q1_streams c) name of
          None \<Rightarrow> c
        | Some st \<Rightarrow> q1_put name (st\<lparr>pr_buf := rb_Close
            (if x1_Reason msg \<noteq> ''EOF'' then Some (Errorf ''server RST: %s'' [ArgStr (x1_Reason msg)]) else None)
            (pr_buf st)\<rparr>) c))"

definition q1_dispatch :: "codec1 \<Rightarrow> frame1 \<Rightarrow> client1 \<Rightarrow> byte list option \<times> client1" where
  "q1_dispatch J f c =
     (if f1_Type f = TypeData1 then q1_handleData J f c
      else if f1_Type f = TypeRST1
      then (case dec_rst1 J (f1_Payload f) of (None, msg) \<Rightarrow> (None, q1_handleRST msg c) | (Some e, msg) \<Rightarrow> (None, c))
      else if f1_Type f = TypePing1
      then (None, snd (q1_send \<lparr>f1_StreamID = 0, f1_Type = TypePong1, f1_Payload = []\<rparr> c))
      else if f1_Type f = TypePong1
      then (None, if q1_pongs c < 4 then c\<lparr>q1_pongs := q1_pongs c + 1\<rparr> else c)
      else (None, c))"

text \<open>The ticks of the two timers; the ping loop is given the seconds since the last pong.\<close>

definition q1_pingLoop_tick :: "int \<Rightarrow> client1 \<Rightarrow> client1" where
  "q1_pingLoop_tick since c =
     (if since > 20 + 15 then c\<lparr>q1_conn := map_option mc_Close (q1_conn c)\<rparr>
      else snd (q1_send \<lparr>f1_StreamID = 0, f1_Type = TypePing1, f1_Payload = []\<rparr> c))"

definition q1_ackLoop_tick :: "codec1 \<Rightarrow> client1 \<Rightarrow> client1" where
  "q1_ackLoop_tick J c =
     fold (\<lambda>(sid, name) c1. case map_of (q1_streams c1) name of
         Some st \<Rightarrow> if pr_recvOffset st > pr_ackedOffset st then q1_sendAckWithConn J name c1 else c1
       | None \<Rightarrow> c1) (q1_byID c) c"

text \<open>
  One turn of \<open>readLoop\<close>: it returns, or it goes on, waiting inside \<open>handleData\<close> where a rest is left.
  When it returns, \<open>runOnce\<close> closes the connection and forgets it.
\<close>

datatype q1_turn = ReadReturns "go_error option" | ReadGoesOn "byte list option" client1

definition q1_readLoop_turn :: "codec1 \<Rightarrow> go_error + frame1 \<Rightarrow> client1 \<Rightarrow> q1_turn" where
  "q1_readLoop_turn J read c =
     (if q1_ctx c \<noteq> None then ReadReturns None
      else case read of
             Inl e \<Rightarrow> ReadReturns (Some (Wrapf ''read frame: %w'' [] e))
           | Inr f \<Rightarrow> (case q1_dispatch J f c of (rest, c1) \<Rightarrow> ReadGoesOn rest c1))"

definition q1_leave :: "client1 \<Rightarrow> client1" where
  "q1_leave c = c\<lparr>q1_conn := None\<rparr>"

text \<open>
  One turn of \<open>Run\<close>, after \<open>runOnce\<close> returned: \<open>None\<close> when the loop ends, else the back-off of
  the next turn in seconds. \<open>woken\<close> says that the session was closed during the wait.
\<close>

definition q1_Run_turn :: "go_error option \<Rightarrow> bool \<Rightarrow> int \<Rightarrow> client1 \<Rightarrow> int option" where
  "q1_Run_turn err woken backoff c =
     (if err = None then (if q1_closed c then None else Some (next_backoff False backoff))
      else if q1_closed c \<or> woken then None
      else Some (next_backoff True backoff))"

section \<open>One stream from the server's buffer to the consumer\<close>

text \<open>
  \<open>p1_log\<close> is everything appended to the stream at the server, \<open>p1_flight\<close> the data frames between the
  sender and the read loop, \<open>p1_rest\<close> and \<open>p1_cur\<close> the payload that waits for room and the whole of
  it, \<open>p1_acc\<close> the payloads stored completely, \<open>p1_got\<close> what the consumer read.
\<close>

record push1_world =
  p1_client :: client1
  p1_rest :: "byte list option"
  p1_cur :: "byte list"
  p1_acc :: "byte list"
  p1_got :: "byte list"
  p1_buf :: stream_buffer
  p1_off :: int
  p1_flight :: "frame1 list"
  p1_log :: "byte list"

definition p1_stored :: "byte list \<Rightarrow> byte list option \<times> client1 \<Rightarrow> push1_world \<Rightarrow> push1_world" where
  "p1_stored payload res w =
     w\<lparr>p1_client := snd res, p1_rest := fst res, p1_cur := (if fst res = None then [] else payload),
       p1_acc := (if fst res = None then p1_acc w @ payload else p1_acc w)\<rparr>"

inductive push1_step :: "codec1 \<Rightarrow> string \<Rightarrow> u32 \<Rightarrow> push1_world \<Rightarrow> push1_world \<Rightarrow> bool" for J name sid where
  append: "sb_Append d (p1_buf w) = Appended b \<Longrightarrow>
    push1_step J name sid w (w\<lparr>p1_buf := b, p1_log := p1_log w @ d\<rparr>)"
| send: "sb_Read (p1_off w) DataChunkSize (p1_buf w) = (bs, None) \<Longrightarrow> bs \<noteq> [] \<Longrightarrow>
    push1_step J name sid w (w\<lparr>p1_off := p1_off w + int (length bs),
      p1_flight := p1_flight w @ [\<lparr>f1_StreamID = sid, f1_Type = TypeData1, f1_Payload = bs\<rparr>]\<rparr>)"
| arrive: "p1_rest w = None \<Longrightarrow> p1_flight w = f # fs \<Longrightarrow>
    push1_step J name sid w (p1_stored (f1_Payload f) (q1_dispatch J f (p1_client w)) (w\<lparr>p1_flight := fs\<rparr>))"
| proceed: "p1_rest w = Some rest \<Longrightarrow>
    push1_step J name sid w
      (p1_stored (p1_cur w) (q1_store J True name (length (p1_cur w)) rest (p1_client w)) w)"
| consume: "q1_Read name m (p1_client w) = Some (bs, e, c) \<Longrightarrow>
    push1_step J name sid w (w\<lparr>p1_client := c, p1_got := p1_got w @ bs\<rparr>)"
| ack: "push1_step J name sid w (w\<lparr>p1_client := q1_sendAckWithConn J name (p1_client w)\<rparr>)"
| trim: "map_of (q1_streams (p1_client w)) name = Some st \<Longrightarrow> x \<le> pr_ackedOffset st \<Longrightarrow>
    push1_step J name sid w (w\<lparr>p1_buf := sb_Trim x (p1_buf w)\<rparr>)"
| reconnect: "p1_rest w = None \<Longrightarrow> q1_register J (Inr conn) (p1_client w) = (None, c1) \<Longrightarrow>
    q1_registered J (Inr f) c1 = (None, c2) \<Longrightarrow> k1_StreamIDs (snd (dec_register_ack1 J (f1_Payload f))) = [name \<mapsto> sid] \<Longrightarrow>
    push1_step J name sid w (w\<lparr>p1_client := c2, p1_flight := [],
      p1_off := (case q1_resume (p1_client w) name of Some off \<Rightarrow> off | None \<Rightarrow> 0)\<rparr>)"

inductive push1_run :: "codec1 \<Rightarrow> string \<Rightarrow> u32 \<Rightarrow> push1_world \<Rightarrow> push1_world \<Rightarrow> bool" for J name sid where
  refl: "push1_run J name sid w w"
| step: "push1_run J name sid w w1 \<Longrightarrow> push1_step J name sid w1 w2 \<Longrightarrow> push1_run J name sid w w2"

section \<open>The invariant\<close>

text \<open>The client's side of the world, as the first theory of the receive buffers sees it.\<close>

definition p1_view :: "push_recv \<Rightarrow> push1_world \<Rightarrow> push_world" where
  "p1_view st w = \<lparr>pw_st = st, pw_rest = p1_rest w, pw_cur = p1_cur w, pw_acc = p1_acc w, pw_got = p1_got w\<rparr>"

definition flight_bytes :: "frame1 list \<Rightarrow> byte list" where
  "flight_bytes fs = concat (map f1_Payload fs)"

definition p1_pending :: "push1_world \<Rightarrow> byte list" where
  "p1_pending w = (if p1_rest w = None then [] else p1_cur w)"

definition p1_client_ok :: "string \<Rightarrow> u32 \<Rightarrow> push_recv \<Rightarrow> push1_world \<Rightarrow> bool" where
  "p1_client_ok name sid st w \<longleftrightarrow>
     map_of (q1_streams (p1_client w)) name = Some st \<and> map_of (q1_byID (p1_client w)) sid = Some name \<and>
     q1_ctx (p1_client w) = None \<and> pw_inv (p1_view st w) \<and> \<not> rb_closed (pr_buf st) \<and>
     pr_ackedOffset st \<le> pr_recvOffset st"

definition p1_server_ok :: "push_recv \<Rightarrow> push1_world \<Rightarrow> bool" where
  "p1_server_ok st w \<longleftrightarrow> sb_inv (p1_buf w) \<and> \<not> sb_closed (p1_buf w) \<and> 0 \<le> sb_base (p1_buf w) \<and>
     sb_base (p1_buf w) \<le> pr_ackedOffset st \<and> sb_content (p1_buf w) = drop (nat (sb_base (p1_buf w))) (p1_log w) \<and>
     sb_write (p1_buf w) = int (length (p1_log w))"

definition p1_flight_ok :: "u32 \<Rightarrow> push1_world \<Rightarrow> bool" where
  "p1_flight_ok sid w \<longleftrightarrow> 0 \<le> p1_off w \<and> p1_off w \<le> int (length (p1_log w)) \<and>
     p1_acc w @ p1_pending w @ flight_bytes (p1_flight w) = take (nat (p1_off w)) (p1_log w) \<and>
     list_all (\<lambda>f. f1_StreamID f = sid \<and> f1_Type f = TypeData1) (p1_flight w)"

definition p1_inv :: "string \<Rightarrow> u32 \<Rightarrow> push1_world \<Rightarrow> bool" where
  "p1_inv name sid w \<longleftrightarrow> (\<exists>st. p1_client_ok name sid st w \<and> p1_server_ok st w \<and> p1_flight_ok sid w)"

lemma q1_put_simps [simp]:
  "map_of (q1_streams (q1_put n st c)) = (map_of (q1_streams c))(n \<mapsto> st)"
  "q1_byID (q1_put n st c) = q1_byID c" "q1_ctx (q1_put n st c) = q1_ctx c" "q1_conn (q1_put n st c) = q1_conn c"
  by (simp_all add: q1_put_def AList.update_conv')

lemma q1_send_simps [simp]:
  "q1_streams (snd (q1_send f c)) = q1_streams c" "q1_byID (snd (q1_send f c)) = q1_byID c"
  "q1_ctx (snd (q1_send f c)) = q1_ctx c"
  by (simp_all add: q1_send_def split: option.split prod.split)

lemma q1_sendAck_simps:
  assumes "map_of (q1_streams c) name = Some st"
  shows "\<exists>a. map_of (q1_streams (q1_sendAck J name c)) name = Some (st\<lparr>pr_ackedOffset := a\<rparr>) \<and>
      (a = pr_ackedOffset st \<or> a = pr_recvOffset st)"
    and "map_of (q1_streams (q1_sendAckWithConn J name c)) name = Some (st\<lparr>pr_ackedOffset := pr_recvOffset st\<rparr>)"
    and "q1_byID (q1_sendAckWithConn J name c) = q1_byID c" "q1_ctx (q1_sendAckWithConn J name c) = q1_ctx c"
    and "q1_byID (q1_sendAck J name c) = q1_byID c" "q1_ctx (q1_sendAck J name c) = q1_ctx c"
proof -
  show "\<exists>a. map_of (q1_streams (q1_sendAck J name c)) name = Some (st\<lparr>pr_ackedOffset := a\<rparr>) \<and>
      (a = pr_ackedOffset st \<or> a = pr_recvOffset st)"
  proof (cases "q1_conn c")
    case None
    with assms show ?thesis by (intro exI [of _ "pr_ackedOffset st"]) (simp add: q1_sendAck_def)
  next
    case (Some k)
    with assms show ?thesis
      by (intro exI [of _ "pr_recvOffset st"]) (simp add: q1_sendAck_def q1_sendAckWithConn_def)
  qed
qed (use assms in \<open>simp_all add: q1_sendAck_def q1_sendAckWithConn_def\<close>)

lemma push_write_open:
  assumes "rb_inv (pr_buf st)" and "\<not> rb_closed (pr_buf st)"
  shows "\<exists>b. \<not> rb_closed b \<and> (push_write None waited len rest st = PushStored (st\<lparr>pr_buf := b, pr_recvOffset := pr_recvOffset st + int len\<rparr>) \<or>
    (\<exists>r. push_write None waited len rest st = PushWaits r (st\<lparr>pr_buf := b\<rparr>)))"
proof -
  from rb_Write_open [OF assms, of rest None] obtain b where "\<not> rb_closed b"
    "rb_Write None False (pr_buf st) rest = (if length rest \<le> rb_room (pr_buf st) then WODone None b
      else WOBlocked (drop (rb_room (pr_buf st)) rest) b)" by auto
  then show ?thesis
    by (intro exI [of _ b]) (simp add: push_write_def rb_Write_waited [of waited])
qed

text \<open>Acknowledging does not touch what the view depends on.\<close>

lemma pw_inv_acked: "pw_inv (p1_view (st\<lparr>pr_ackedOffset := a\<rparr>) w) = pw_inv (p1_view st w)"
  by (simp add: pw_inv_def p1_view_def pw_stored_def split: option.split)

lemma q1_store_ok:
  assumes "p1_client_ok name sid st w" and "length rest \<le> length p" and "rest = drop (length p - length rest) p"
    and "p1_rest w = None \<and> rest = p \<or> p1_rest w = Some rest \<and> p1_cur w = p"
  shows "\<exists>st'. p1_client_ok name sid st' (p1_stored p (q1_store J waited name (length p) rest (p1_client w)) w) \<and>
    pr_ackedOffset st \<le> pr_ackedOffset st'"
proof -
  let ?c = "p1_client w" and ?v = "p1_view st w"
  have o: "map_of (q1_streams ?c) name = Some st" "map_of (q1_byID ?c) sid = Some name" "q1_ctx ?c = None"
    "pw_inv ?v" "\<not> rb_closed (pr_buf st)" "pr_ackedOffset st \<le> pr_recvOffset st"
    using assms(1) by (simp_all add: p1_client_ok_def)
  have i: "pw_inv (pw_write waited p rest ?v)"
    using pw_write_inv [OF o(4) assms(3,2)] assms(4) by (simp add: p1_view_def)
  have "rb_inv (pr_buf st)" using o(4) by (simp add: pw_inv_def p1_view_def)
  from push_write_open [OF this o(5)] obtain b where b: "\<not> rb_closed b"
    "push_write None waited (length p) rest st = PushStored (st\<lparr>pr_buf := b, pr_recvOffset := pr_recvOffset st + int (length p)\<rparr>) \<or>
     (\<exists>r. push_write None waited (length p) rest st = PushWaits r (st\<lparr>pr_buf := b\<rparr>))" by blast
  from b(2) show ?thesis
  proof
    let ?st = "st\<lparr>pr_buf := b, pr_recvOffset := pr_recvOffset st + int (length p)\<rparr>"
    assume s: "push_write None waited (length p) rest st = PushStored ?st"
    let ?c1 = "q1_put name ?st ?c"
    have v: "pw_inv (p1_view ?st (w\<lparr>p1_rest := None, p1_cur := [], p1_acc := p1_acc w @ p\<rparr>))"
      using i s by (simp add: pw_write_def p1_view_def)
    have "map_of (q1_streams ?c1) name = Some ?st" by simp
    from q1_sendAck_simps [OF this, of J] obtain a where
      a: "map_of (q1_streams (q1_sendAck J name ?c1)) name = Some (?st\<lparr>pr_ackedOffset := a\<rparr>)"
        "a = pr_ackedOffset ?st \<or> a = pr_recvOffset ?st" "q1_byID (q1_sendAck J name ?c1) = q1_byID ?c"
        "q1_ctx (q1_sendAck J name ?c1) = None" using o by auto
    show ?thesis
    proof (cases "pr_recvOffset ?st - pr_ackedOffset ?st \<ge> ackEveryBytes")
      case True
      then have "q1_store J waited name (length p) rest ?c = (None, q1_sendAck J name ?c1)"
        using o s by (simp add: q1_store_def)
      moreover have "pw_inv (p1_view (?st\<lparr>pr_ackedOffset := a\<rparr>) (p1_stored p (None, q1_sendAck J name ?c1) w))"
        unfolding pw_inv_acked using v by (simp add: p1_view_def p1_stored_def)
      ultimately show ?thesis using a o b
        by (intro exI [of _ "?st\<lparr>pr_ackedOffset := a\<rparr>"]) (auto simp: p1_client_ok_def p1_stored_def)
    next
      case False
      then have "q1_store J waited name (length p) rest ?c = (None, ?c1)"
        using o s by (simp add: q1_store_def)
      moreover have "pw_inv (p1_view ?st (p1_stored p (None, ?c1) w))"
        using v by (simp add: p1_view_def p1_stored_def)
      ultimately show ?thesis using o b
        by (intro exI [of _ ?st]) (auto simp: p1_client_ok_def p1_stored_def)
    qed
  next
    assume "\<exists>r. push_write None waited (length p) rest st = PushWaits r (st\<lparr>pr_buf := b\<rparr>)"
    then obtain r where s: "push_write None waited (length p) rest st = PushWaits r (st\<lparr>pr_buf := b\<rparr>)" ..
    then have "q1_store J waited name (length p) rest ?c = (Some r, q1_put name (st\<lparr>pr_buf := b\<rparr>) ?c)"
      using o by (simp add: q1_store_def)
    moreover have "pw_inv (p1_view (st\<lparr>pr_buf := b\<rparr>) (p1_stored p (Some r, q1_put name (st\<lparr>pr_buf := b\<rparr>) ?c) w))"
      using i s by (simp add: pw_write_def p1_view_def p1_stored_def)
    ultimately show ?thesis using o b
      by (intro exI [of _ "st\<lparr>pr_buf := b\<rparr>"]) (auto simp: p1_client_ok_def p1_stored_def)
  qed
qed


section \<open>Every step keeps the invariant\<close>

lemma p1_pending_simps [simp]:
  "p1_pending (w\<lparr>p1_client := c\<rparr>) = p1_pending w" "p1_pending (w\<lparr>p1_buf := b\<rparr>) = p1_pending w"
  "p1_pending (w\<lparr>p1_log := l\<rparr>) = p1_pending w" "p1_pending (w\<lparr>p1_off := x\<rparr>) = p1_pending w"
  "p1_pending (w\<lparr>p1_flight := fs\<rparr>) = p1_pending w" "p1_pending (w\<lparr>p1_got := g\<rparr>) = p1_pending w"
  by (simp_all add: p1_pending_def)

lemma p1_bounds:
  assumes "p1_client_ok name sid st w" and "p1_server_ok st w" and "p1_flight_ok sid w"
  shows "pr_recvOffset st = int (length (p1_acc w))"
    and "length (p1_acc w) + length (p1_pending w) + length (flight_bytes (p1_flight w)) = nat (p1_off w)"
    and "nat (p1_off w) \<le> length (p1_log w)" and "sb_base (p1_buf w) \<le> p1_off w"
    and "nat (sb_base (p1_buf w)) \<le> length (p1_log w)"
    and "p1_acc w = take (length (p1_acc w)) (p1_log w)"
proof -
  show r: "pr_recvOffset st = int (length (p1_acc w))"
    using assms(1) by (simp add: p1_client_ok_def pw_inv_def p1_view_def)
  have e: "p1_acc w @ p1_pending w @ flight_bytes (p1_flight w) = take (nat (p1_off w)) (p1_log w)"
    and o: "0 \<le> p1_off w" "p1_off w \<le> int (length (p1_log w))"
    using assms(3) by (simp_all add: p1_flight_ok_def)
  show off: "nat (p1_off w) \<le> length (p1_log w)" using o by simp
  from arg_cong [OF e, of length] off
  show l: "length (p1_acc w) + length (p1_pending w) + length (flight_bytes (p1_flight w)) = nat (p1_off w)" by simp
  have "sb_base (p1_buf w) \<le> int (length (p1_acc w))"
    using assms(1,2) r by (simp add: p1_client_ok_def p1_server_ok_def)
  then show "sb_base (p1_buf w) \<le> p1_off w" using l o(1) by linarith
  then show "nat (sb_base (p1_buf w)) \<le> length (p1_log w)" using o by linarith
  have "p1_acc w = take (length (p1_acc w)) (take (nat (p1_off w)) (p1_log w))"
    unfolding e [symmetric] by simp
  then show "p1_acc w = take (length (p1_acc w)) (p1_log w)"
    using l by (simp add: min_def)
qed

lemma p1_append_step:
  assumes "p1_client_ok name sid st w" and "p1_server_ok st w" and "p1_flight_ok sid w"
    and "sb_Append d (p1_buf w) = Appended b"
  shows "p1_inv name sid (w\<lparr>p1_buf := b, p1_log := p1_log w @ d\<rparr>)"
proof -
  let ?w = "w\<lparr>p1_buf := b, p1_log := p1_log w @ d\<rparr>"
  note bd = p1_bounds [OF assms(1-3)]
  have "sb_inv (p1_buf w)" using assms(2) by (simp add: p1_server_ok_def)
  note b = sb_Append_ok [OF this assms(4)]
  have "p1_client_ok name sid st ?w" using assms(1) by (simp add: p1_client_ok_def p1_view_def)
  moreover have "p1_server_ok st ?w" using assms(2) b bd(5) by (simp add: p1_server_ok_def)
  moreover have "p1_flight_ok sid ?w"
    using assms(3) bd(3) by (simp add: p1_flight_ok_def)
  ultimately show ?thesis unfolding p1_inv_def by blast
qed

lemma take_append_chunk:
  "take n xs @ take m (drop n xs) = take (n + length (take m (drop n xs))) xs"
  by (auto simp: take_add min_def)

lemma p1_send_step:
  assumes "p1_client_ok name sid st w" and "p1_server_ok st w" and "p1_flight_ok sid w"
    and "sb_Read (p1_off w) DataChunkSize (p1_buf w) = (bs, None)" and "bs \<noteq> []"
  shows "p1_inv name sid (w\<lparr>p1_off := p1_off w + int (length bs),
      p1_flight := p1_flight w @ [\<lparr>f1_StreamID = sid, f1_Type = TypeData1, f1_Payload = bs\<rparr>]\<rparr>)"
proof -
  let ?w = "w\<lparr>p1_off := p1_off w + int (length bs),
      p1_flight := p1_flight w @ [\<lparr>f1_StreamID = sid, f1_Type = TypeData1, f1_Payload = bs\<rparr>]\<rparr>"
  let ?x = "p1_off w" and ?base = "sb_base (p1_buf w)"
  note bd = p1_bounds [OF assms(1-3)]
  have s: "sb_inv (p1_buf w)" "0 \<le> ?base" "sb_content (p1_buf w) = drop (nat ?base) (p1_log w)"
    "sb_write (p1_buf w) = int (length (p1_log w))"
    using assms(2) by (simp_all add: p1_server_ok_def)
  have "?x < sb_write (p1_buf w)"
    using assms(4,5) bd(4) by (auto simp: sb_Read_def not_less split: if_splits)
  from sb_Read_content [OF s(1) bd(4) this, of DataChunkSize] assms(4)
  have "bs = take DataChunkSize (drop (nat (?x - ?base)) (drop (nat ?base) (p1_log w)))" by (simp add: s(3))
  moreover have "nat (?x - ?base) + nat ?base = nat ?x" using bd(4) s(2) by linarith
  ultimately have bs: "bs = take DataChunkSize (drop (nat ?x) (p1_log w))" by simp
  then have t: "take (nat ?x) (p1_log w) @ bs = take (nat ?x + length bs) (p1_log w)"
    by (simp only: take_append_chunk)
  have x: "0 \<le> ?x" "nat (?x + int (length bs)) = nat ?x + length bs" "length bs \<le> length (p1_log w) - nat ?x"
    using assms(3) bs by (simp_all add: p1_flight_ok_def nat_add_distrib)
  have "p1_client_ok name sid st ?w" using assms(1) by (simp add: p1_client_ok_def p1_view_def)
  moreover have "p1_server_ok st ?w" using assms(2) by (simp add: p1_server_ok_def)
  moreover have "p1_flight_ok sid ?w" unfolding p1_flight_ok_def
  proof (intro conjI)
    show "p1_acc ?w @ p1_pending ?w @ flight_bytes (p1_flight ?w) = take (nat (p1_off ?w)) (p1_log ?w)"
      using assms(3) t x(2) by (simp add: p1_flight_ok_def flight_bytes_def flip: append_assoc)
    show "p1_off ?w \<le> int (length (p1_log ?w))" using x bd(3) by simp
  qed (use assms(3) x in \<open>simp_all add: p1_flight_ok_def\<close>)
  ultimately show ?thesis unfolding p1_inv_def by blast
qed


text \<open>A payload that reaches the read loop, or the rest of one that found room.\<close>

lemma p1_stored_step:
  assumes "p1_client_ok name sid st w" and "p1_server_ok st w" and "0 \<le> p1_off w"
    and "p1_off w \<le> int (length (p1_log w))" and "p1_acc w @ p @ flight_bytes (p1_flight w) = take (nat (p1_off w)) (p1_log w)"
    and "list_all (\<lambda>f. f1_StreamID f = sid \<and> f1_Type f = TypeData1) (p1_flight w)"
    and "length rest \<le> length p" and "rest = drop (length p - length rest) p"
    and "p1_rest w = None \<and> rest = p \<or> p1_rest w = Some rest \<and> p1_cur w = p"
  shows "p1_inv name sid (p1_stored p (q1_store J waited name (length p) rest (p1_client w)) w)"
proof -
  let ?w = "p1_stored p (q1_store J waited name (length p) rest (p1_client w)) w"
  from q1_store_ok [OF assms(1,7-9)] obtain st' where st: "p1_client_ok name sid st' ?w"
    "pr_ackedOffset st \<le> pr_ackedOffset st'" by blast
  moreover have "p1_server_ok st' ?w"
    using assms(2) st(2) by (simp add: p1_server_ok_def p1_stored_def)
  moreover have "p1_flight_ok sid ?w"
    using assms(3-6) by (simp add: p1_flight_ok_def p1_pending_def p1_stored_def)
  ultimately show ?thesis unfolding p1_inv_def by blast
qed

lemma p1_arrive_step:
  assumes "p1_client_ok name sid st w" and "p1_server_ok st w" and "p1_flight_ok sid w"
    and "p1_rest w = None" and "p1_flight w = f # fs"
  shows "p1_inv name sid (p1_stored (f1_Payload f) (q1_dispatch J f (p1_client w)) (w\<lparr>p1_flight := fs\<rparr>))"
proof -
  let ?p = "f1_Payload f" and ?w = "w\<lparr>p1_flight := fs\<rparr>"
  have f: "f1_StreamID f = sid" "f1_Type f = TypeData1" and fl: "0 \<le> p1_off w" "p1_off w \<le> int (length (p1_log w))"
    "p1_acc w @ ?p @ flight_bytes fs = take (nat (p1_off w)) (p1_log w)"
    "list_all (\<lambda>f. f1_StreamID f = sid \<and> f1_Type f = TypeData1) fs"
    using assms(3-5) by (simp_all add: p1_flight_ok_def p1_pending_def flight_bytes_def)
  have d: "q1_dispatch J f (p1_client w) = q1_store J False name (length ?p) ?p (p1_client ?w)"
    using f assms(1) by (simp add: q1_dispatch_def q1_handleData_def p1_client_ok_def)
  have c: "p1_client_ok name sid st ?w" using assms(1) by (simp add: p1_client_ok_def p1_view_def)
  have s: "p1_server_ok st ?w" using assms(2) by (simp add: p1_server_ok_def)
  show ?thesis unfolding d
    by (rule p1_stored_step [OF c s]) (use fl assms(4) in simp_all)
qed

lemma p1_proceed_step:
  assumes "p1_client_ok name sid st w" and "p1_server_ok st w" and "p1_flight_ok sid w"
    and "p1_rest w = Some rest"
  shows "p1_inv name sid (p1_stored (p1_cur w) (q1_store J True name (length (p1_cur w)) rest (p1_client w)) w)"
proof (rule p1_stored_step [OF assms(1,2)])
  have "length rest \<le> length (p1_cur w) \<and> rest = drop (length (p1_cur w) - length rest) (p1_cur w)"
    using assms(1,4) by (simp add: p1_client_ok_def pw_inv_def p1_view_def)
  then show "length rest \<le> length (p1_cur w)" "rest = drop (length (p1_cur w) - length rest) (p1_cur w)"
    by simp_all
qed (use assms(3,4) in \<open>simp_all add: p1_flight_ok_def p1_pending_def\<close>)

lemma p1_consume_step:
  assumes "p1_client_ok name sid st w" and "p1_server_ok st w" and "p1_flight_ok sid w"
    and "q1_Read name m (p1_client w) = Some (bs, e, c)"
  shows "p1_inv name sid (w\<lparr>p1_client := c, p1_got := p1_got w @ bs\<rparr>)"
proof -
  let ?w = "w\<lparr>p1_client := c, p1_got := p1_got w @ bs\<rparr>"
  have o: "map_of (q1_streams (p1_client w)) name = Some st" "pw_inv (p1_view st w)" "\<not> rb_closed (pr_buf st)"
    using assms(1) by (simp_all add: p1_client_ok_def)
  then obtain b where r: "rb_Read (pr_buf st) m = RRet bs e b" "c = q1_put name (st\<lparr>pr_buf := b\<rparr>) (p1_client w)"
    using assms(4) by (auto simp: q1_Read_def split: read_res.splits)
  have i: "rb_inv (pr_buf st)" using o(2) by (simp add: pw_inv_def p1_view_def)
  have cl: "\<not> rb_closed b" using rb_Read_cases [OF i, of m] r(1) o(3) by (auto split: if_splits)
  let ?st = "st\<lparr>pr_buf := b\<rparr>"
  have "p1_view ?st ?w = push_event (PeRead m) (p1_view st w)"
    using r(1) by (simp add: p1_view_def pw_buf_def)
  then have "pw_inv (p1_view ?st ?w)" using pw_read_inv [OF o(2)] by simp
  then have "p1_client_ok name sid ?st ?w" using assms(1) cl r(2) by (simp add: p1_client_ok_def)
  moreover have "p1_server_ok ?st ?w" using assms(2) by (simp add: p1_server_ok_def)
  moreover have "p1_flight_ok sid ?w" using assms(3) by (simp add: p1_flight_ok_def)
  ultimately show ?thesis unfolding p1_inv_def by blast
qed

lemma p1_ack_step:
  assumes "p1_client_ok name sid st w" and "p1_server_ok st w" and "p1_flight_ok sid w"
  shows "p1_inv name sid (w\<lparr>p1_client := q1_sendAckWithConn J name (p1_client w)\<rparr>)"
proof -
  let ?w = "w\<lparr>p1_client := q1_sendAckWithConn J name (p1_client w)\<rparr>" and ?st = "st\<lparr>pr_ackedOffset := pr_recvOffset st\<rparr>"
  have o: "map_of (q1_streams (p1_client w)) name = Some st" "pr_ackedOffset st \<le> pr_recvOffset st"
    using assms(1) by (simp_all add: p1_client_ok_def)
  have "pw_inv (p1_view ?st ?w)"
    unfolding pw_inv_acked using assms(1) by (simp add: p1_client_ok_def p1_view_def)
  then have "p1_client_ok name sid ?st ?w"
    using assms(1) q1_sendAck_simps(2-4) [OF o(1), of J] by (simp add: p1_client_ok_def)
  moreover have "p1_server_ok ?st ?w" using assms(2) o(2) by (simp add: p1_server_ok_def)
  moreover have "p1_flight_ok sid ?w" using assms(3) by (simp add: p1_flight_ok_def)
  ultimately show ?thesis unfolding p1_inv_def by blast
qed

lemma p1_trim_step:
  assumes "p1_client_ok name sid st w" and "p1_server_ok st w" and "p1_flight_ok sid w"
    and "x \<le> pr_ackedOffset st"
  shows "p1_inv name sid (w\<lparr>p1_buf := sb_Trim x (p1_buf w)\<rparr>)"
proof -
  let ?w = "w\<lparr>p1_buf := sb_Trim x (p1_buf w)\<rparr>" and ?b = "p1_buf w"
  have s: "sb_inv ?b" "0 \<le> sb_base ?b" "sb_base ?b \<le> pr_ackedOffset st"
    "sb_content ?b = drop (nat (sb_base ?b)) (p1_log w)"
    using assms(2) by (simp_all add: p1_server_ok_def)
  from sb_Trim_content [OF s(1), of x] obtain k where
    k: "sb_content (sb_Trim x ?b) = drop k (sb_content ?b)" "sb_base (sb_Trim x ?b) = sb_base ?b + int k"
      "k = 0 \<or> sb_base ?b + int k \<le> x" "sb_inv (sb_Trim x ?b)" "sb_write (sb_Trim x ?b) = sb_write ?b"
      "sb_closed (sb_Trim x ?b) = sb_closed ?b" by blast
  have "p1_client_ok name sid st ?w" using assms(1) by (simp add: p1_client_ok_def p1_view_def)
  moreover have "sb_base ?b + int k \<le> pr_ackedOffset st" using k(3) s(3) assms(4) by auto
  moreover have "nat (sb_base ?b + int k) = nat (sb_base ?b) + k" using s(2) by simp
  ultimately have "p1_client_ok name sid st ?w" "p1_server_ok st ?w"
    using assms(2) k s by (simp_all add: p1_server_ok_def add.commute)
  moreover have "p1_flight_ok sid ?w" using assms(3) by (simp add: p1_flight_ok_def)
  ultimately show ?thesis unfolding p1_inv_def by blast
qed


section \<open>Reconnecting\<close>

lemma q1_reopen_open:
  assumes "map_of (q1_streams c) name = Some st" and "\<not> rb_closed (pr_buf st)"
  shows "map_of (q1_streams (q1_reopen c)) name = Some st"
  using assms by (simp add: q1_reopen_def map_of_map rb_IsClosed_def)

lemma q1_reopen_simps [simp]:
  "q1_ctx (q1_reopen c) = q1_ctx c" "q1_byID (q1_reopen c) = q1_byID c" "q1_closed (q1_reopen c) = q1_closed c"
  by (simp_all add: q1_reopen_def)

lemma q1_register_ok:
  assumes "q1_register J (Inr conn) c = (None, c1)"
  shows "q1_streams c1 = q1_streams (q1_reopen c)" and "q1_ctx c1 = q1_ctx c"
proof -
  obtain f where "q1_send f ((q1_reopen c)\<lparr>q1_conn := Some conn\<rparr>) = (None, c1)"
    using assms by (auto simp: q1_register_def Let_def split: prod.splits option.splits)
  then have "c1 = snd (q1_send f ((q1_reopen c)\<lparr>q1_conn := Some conn\<rparr>))" by simp
  then show "q1_streams c1 = q1_streams (q1_reopen c)" "q1_ctx c1 = q1_ctx c" by simp_all
qed

lemma q1_registered_ok:
  assumes "q1_registered J (Inr f) c = (None, c1)"
  shows "c1 = q1_ids (k1_StreamIDs (snd (dec_register_ack1 J (f1_Payload f)))) c"
  using assms by (auto simp: q1_registered_def split: if_splits prod.splits option.splits)

lemma byID_fold:
  "(m = m0 \<or> map_of m sid = Some name) \<Longrightarrow> (name \<in> fst ` set xs \<or> map_of m sid = Some name) \<Longrightarrow>
   map_of (fold (\<lambda>(n, st) m. case [name \<mapsto> sid] n of Some i \<Rightarrow> AList.update i n m | None \<Rightarrow> m) xs m) sid = Some name"
  by (induction xs arbitrary: m m0) (auto simp: AList.update_conv')

lemma map_of_map_key:
  "map_of (map (\<lambda>(n, x). (n, h n x)) xs) k = map_option (h k) (map_of xs k)"
  by (induction xs) auto

lemma q1_ids_one:
  assumes "map_of (q1_streams c) name = Some st"
  shows "map_of (q1_streams (q1_ids [name \<mapsto> sid] c)) name = Some (st\<lparr>pr_id := sid\<rparr>)"
    and "map_of (q1_byID (q1_ids [name \<mapsto> sid] c)) sid = Some name"
    and "q1_ctx (q1_ids [name \<mapsto> sid] c) = q1_ctx c"
proof -
  have "name \<in> fst ` set (q1_streams c)" using assms by (force dest: map_of_SomeD)
  then show "map_of (q1_byID (q1_ids [name \<mapsto> sid] c)) sid = Some name"
    unfolding q1_ids_def by (simp del: fun_upd_apply) (rule byID_fold, simp_all)
qed (use assms in \<open>simp_all add: q1_ids_def map_of_map_key\<close>)

lemma p1_reconnect_step:
  assumes "p1_client_ok name sid st w" and "p1_server_ok st w" and "p1_flight_ok sid w"
    and "p1_rest w = None" and "q1_register J (Inr conn) (p1_client w) = (None, c1)"
    and "q1_registered J (Inr f) c1 = (None, c2)"
    and "k1_StreamIDs (snd (dec_register_ack1 J (f1_Payload f))) = [name \<mapsto> sid]"
  shows "p1_inv name sid (w\<lparr>p1_client := c2, p1_flight := [],
      p1_off := (case q1_resume (p1_client w) name of Some off \<Rightarrow> off | None \<Rightarrow> 0)\<rparr>)"
proof -
  note bd = p1_bounds [OF assms(1-3)]
  have o: "map_of (q1_streams (p1_client w)) name = Some st" "\<not> rb_closed (pr_buf st)" "q1_ctx (p1_client w) = None"
    using assms(1) by (simp_all add: p1_client_ok_def)
  let ?st = "st\<lparr>pr_id := sid\<rparr>"
  have "map_of (q1_streams c1) name = Some st" "q1_ctx c1 = None"
    using q1_register_ok [OF assms(5)] q1_reopen_open [OF o(1,2)] o(3) by simp_all
  from q1_ids_one [OF this(1), of sid] q1_registered_ok [OF assms(6)] assms(7) this(2)
  have c2: "map_of (q1_streams c2) name = Some ?st" "map_of (q1_byID c2) sid = Some name" "q1_ctx c2 = None" by simp_all
  have off: "(case q1_resume (p1_client w) name of Some off \<Rightarrow> off | None \<Rightarrow> 0) = int (length (p1_acc w))"
    using o(1) bd(1) by (simp add: q1_resume_def)
  let ?w = "w\<lparr>p1_client := c2, p1_flight := [], p1_off := int (length (p1_acc w))\<rparr>"
  have "pw_inv (p1_view ?st ?w)"
    using assms(1) by (simp add: p1_client_ok_def pw_inv_def p1_view_def pw_stored_def split: option.split)
  then have "p1_client_ok name sid ?st ?w" using assms(1) c2 by (simp add: p1_client_ok_def)
  moreover have "p1_server_ok ?st ?w" using assms(2) by (simp add: p1_server_ok_def)
  moreover have "p1_flight_ok sid ?w"
    using bd assms(4) by (simp add: p1_flight_ok_def p1_pending_def flight_bytes_def)
  ultimately show ?thesis unfolding off p1_inv_def by blast
qed

lemma push1_step_inv: "push1_step J name sid w w' \<Longrightarrow> p1_inv name sid w \<Longrightarrow> p1_inv name sid w'"
proof (induction rule: push1_step.induct)
  case (append d w b)
  then show ?case unfolding p1_inv_def [of _ _ w] by (blast intro: p1_append_step)
next
  case (send w bs)
  then show ?case unfolding p1_inv_def [of _ _ w] by (blast intro: p1_send_step)
next
  case (arrive w f fs)
  then show ?case unfolding p1_inv_def [of _ _ w] by (blast intro: p1_arrive_step)
next
  case (proceed w rest)
  then show ?case unfolding p1_inv_def [of _ _ w] by (blast intro: p1_proceed_step)
next
  case (consume m w bs e c)
  then show ?case unfolding p1_inv_def [of _ _ w] by (blast intro: p1_consume_step)
next
  case (ack w)
  then show ?case unfolding p1_inv_def [of _ _ w] by (blast intro: p1_ack_step)
next
  case (trim w st x)
  then show ?case unfolding p1_inv_def [of _ _ w] by (auto simp: p1_client_ok_def intro: p1_trim_step)
next
  case (reconnect w conn c1 f c2)
  then show ?case unfolding p1_inv_def [of _ _ w] by (blast intro: p1_reconnect_step)
qed

lemma push1_run_inv: "push1_run J name sid w w' \<Longrightarrow> p1_inv name sid w \<Longrightarrow> p1_inv name sid w'"
  by (induction rule: push1_run.induct) (blast intro: push1_step_inv)+


section \<open>Progress\<close>

text \<open>What is left to do: bytes count more, the further they are from the consumer.\<close>

definition p1_work :: "push1_world \<Rightarrow> nat" where
  "p1_work w = 7 * (length (p1_log w) - nat (p1_off w)) + 4 * length (flight_bytes (p1_flight w)) +
     2 * length (p1_flight w) + (case p1_rest w of None \<Rightarrow> 0 | Some r \<Rightarrow> 2 * length r + 1) +
     (length (p1_log w) - length (p1_got w))"

lemma p1_got_stored:
  assumes "p1_client_ok name sid st w"
  shows "p1_got w @ rb_content (pr_buf st) = p1_acc w @ (case p1_rest w of None \<Rightarrow> []
      | Some rest \<Rightarrow> take (length (p1_cur w) - length rest) (p1_cur w))"
  using assms by (simp add: p1_client_ok_def pw_inv_def p1_view_def pw_stored_def cong: option.case_cong)

lemma p1_got_log:
  assumes "p1_inv name sid w"
  shows "p1_got w = take (length (p1_got w)) (p1_log w)" and "length (p1_got w) \<le> length (p1_log w)"
proof -
  from assms obtain st where c: "p1_client_ok name sid st w" and f: "p1_flight_ok sid w"
    by (auto simp: p1_inv_def)
  have "\<exists>zs. p1_got w @ zs = p1_log w"
  proof (cases "p1_rest w")
    case None
    then have "p1_got w @ rb_content (pr_buf st) @ flight_bytes (p1_flight w) @ drop (nat (p1_off w)) (p1_log w) = p1_log w"
      using p1_got_stored [OF c] f by (simp add: p1_flight_ok_def p1_pending_def)
        (metis append.assoc append_take_drop_id)
    then show ?thesis by blast
  next
    case (Some rest)
    let ?k = "length (p1_cur w) - length rest"
    have "p1_got w @ rb_content (pr_buf st) @ drop ?k (p1_cur w) = p1_acc w @ p1_cur w"
      using p1_got_stored [OF c] Some by simp (metis append.assoc append_take_drop_id)
    then have "p1_got w @ rb_content (pr_buf st) @ drop ?k (p1_cur w) @ flight_bytes (p1_flight w) @
        drop (nat (p1_off w)) (p1_log w) = p1_log w"
      using f Some by (simp add: p1_flight_ok_def p1_pending_def) (metis append.assoc append_take_drop_id)
    then show ?thesis by blast
  qed
  then obtain zs where "p1_log w = p1_got w @ zs" by metis
  then show "p1_got w = take (length (p1_got w)) (p1_log w)" "length (p1_got w) \<le> length (p1_log w)"
    by simp_all
qed

lemma p1_progress_consume:
  assumes "p1_inv name sid w" and "p1_client_ok name sid st w" and "rb_size (pr_buf st) \<noteq> 0"
  shows "\<exists>w'. push1_step J name sid w w' \<and> p1_work w' < p1_work w \<and> p1_log w' = p1_log w"
proof -
  have o: "map_of (q1_streams (p1_client w)) name = Some st" "rb_inv (pr_buf st)"
    using assms(2) by (simp_all add: p1_client_ok_def pw_inv_def p1_view_def)
  from rb_Read_cases [OF o(2), of 1] assms(3) obtain b where
    b: "rb_Read (pr_buf st) 1 = RRet (take 1 (rb_content (pr_buf st))) None b" by auto
  let ?bs = "take 1 (rb_content (pr_buf st))"
  let ?w = "w\<lparr>p1_client := q1_put name (st\<lparr>pr_buf := b\<rparr>) (p1_client w), p1_got := p1_got w @ ?bs\<rparr>"
  have "q1_Read name 1 (p1_client w) = Some (?bs, None, q1_put name (st\<lparr>pr_buf := b\<rparr>) (p1_client w))"
    using o(1) b by (simp add: q1_Read_def)
  then have s: "push1_step J name sid w ?w" by (rule push1_step.consume)
  have "length ?bs = 1" using assms(3) by simp
  then have "length (p1_got ?w) = Suc (length (p1_got w))" by simp
  moreover have "length (p1_got ?w) \<le> length (p1_log ?w)"
    by (rule p1_got_log(2) [OF push1_step_inv [OF s assms(1)]])
  ultimately have "p1_work ?w < p1_work w" by (simp add: p1_work_def)
  with s show ?thesis by (intro exI [of _ ?w]) simp
qed


lemma q1_store_rest:
  assumes "p1_client_ok name sid st w"
  shows "fst (q1_store J waited name len rest (p1_client w)) =
    (if length rest \<le> rb_room (pr_buf st) then None else Some (drop (rb_room (pr_buf st)) rest))"
proof -
  have o: "map_of (q1_streams (p1_client w)) name = Some st" "q1_ctx (p1_client w) = None"
    "rb_inv (pr_buf st)" "\<not> rb_closed (pr_buf st)"
    using assms by (simp_all add: p1_client_ok_def pw_inv_def p1_view_def)
  from rb_Write_open [OF o(3,4), of rest None] obtain b where
    "rb_Write None False (pr_buf st) rest = (if length rest \<le> rb_room (pr_buf st) then WODone None b
       else WOBlocked (drop (rb_room (pr_buf st)) rest) b)" by auto
  then show ?thesis
    using o(1,2) by (simp add: q1_store_def push_write_def rb_Write_waited [of waited])
qed

lemma p1_progress_send:
  assumes c: "p1_client_ok name sid st w" and s: "p1_server_ok st w" and f: "p1_flight_ok sid w"
    and empty: "rb_size (pr_buf st) = 0" and None: "p1_rest w = None" and Nil: "p1_flight w = []"
    and open_end: "p1_got w \<noteq> p1_log w"
  shows "\<exists>w'. push1_step J name sid w w' \<and> p1_work w' < p1_work w \<and> p1_log w' = p1_log w"
proof -
  let ?x = "p1_off w" and ?base = "sb_base (p1_buf w)"
  note bd = p1_bounds [OF c s f]
  have drained: "rb_content (pr_buf st) = []" using empty by simp
  have "p1_got w = p1_acc w" using p1_got_stored [OF c, unfolded drained] None by simp
  also have "\<dots> = take (nat ?x) (p1_log w)"
    using f None Nil by (simp add: p1_flight_ok_def p1_pending_def flight_bytes_def)
  finally have lt: "nat ?x < length (p1_log w)" using open_end by (auto simp: not_less)
  have sv: "sb_inv (p1_buf w)" "0 \<le> ?base" "sb_write (p1_buf w) = int (length (p1_log w))"
    "sb_content (p1_buf w) = drop (nat ?base) (p1_log w)"
    using s by (simp_all add: p1_server_ok_def)
  have off: "0 \<le> ?x" "?x < sb_write (p1_buf w)"
    using f lt sv(3) by (auto simp: p1_flight_ok_def)
  define bs where "bs = take DataChunkSize (drop (nat (?x - ?base)) (sb_content (p1_buf w)))"
  have r: "sb_Read ?x DataChunkSize (p1_buf w) = (bs, None)"
    unfolding bs_def by (rule sb_Read_content [OF sv(1) bd(4) off(2)])
  have "nat (?x - ?base) + nat ?base = nat ?x" using sv(2) bd(4) by linarith
  then have "length bs = min (length (p1_log w) - nat ?x) DataChunkSize" using sv(4) by (simp add: bs_def)
  moreover have "0 < DataChunkSize" by (simp add: DataChunkSize_def)
  ultimately have n: "0 < length bs" "nat ?x + length bs \<le> length (p1_log w)" using lt by linarith+
  then have "bs \<noteq> []" by auto
  note st = push1_step.send [OF r this, of J name sid]
  let ?w = "w\<lparr>p1_off := ?x + int (length bs),
    p1_flight := p1_flight w @ [\<lparr>f1_StreamID = sid, f1_Type = TypeData1, f1_Payload = bs\<rparr>]\<rparr>"
  have "nat (p1_off ?w) = nat ?x + length bs" using off(1) by (simp add: nat_add_distrib)
  moreover have "7 * (length (p1_log w) - (nat ?x + length bs)) + 4 * length bs + 2 < 7 * (length (p1_log w) - nat ?x)"
    using n by linarith
  ultimately have "p1_work ?w < p1_work w"
    using None Nil unfolding p1_work_def by (simp add: flight_bytes_def)
  with st show ?thesis by (intro exI [of _ ?w]) simp
qed

lemma p1_progress:
  assumes i: "p1_inv name sid w" and open_end: "p1_got w \<noteq> p1_log w"
  shows "\<exists>w'. push1_step J name sid w w' \<and> p1_work w' < p1_work w \<and> p1_log w' = p1_log w"
proof -
  from i obtain st where c: "p1_client_ok name sid st w" and s: "p1_server_ok st w" and f: "p1_flight_ok sid w"
    by (auto simp: p1_inv_def)
  show ?thesis
  proof (cases "rb_size (pr_buf st) = 0")
    case False
    then show ?thesis by (rule p1_progress_consume [OF i c])
  next
    case empty: True
    have room: "0 < rb_room (pr_buf st)"
      using c empty by (simp add: p1_client_ok_def pw_inv_def p1_view_def rb_inv_def rb_room_def)
    show ?thesis
    proof (cases "p1_rest w")
      case (Some rest)
      let ?res = "q1_store J True name (length (p1_cur w)) rest (p1_client w)"
      have "p1_work (p1_stored (p1_cur w) ?res w) < p1_work w"
        using room Some q1_store_rest [OF c, of J True "length (p1_cur w)" rest]
        by (auto simp: p1_work_def p1_stored_def)
      with push1_step.proceed [OF Some, of J name sid] show ?thesis
        by (intro exI conjI) (assumption, assumption, simp add: p1_stored_def)
    next
      case None
      show ?thesis
      proof (cases "p1_flight w")
        case (Cons h fs)
        let ?p = "f1_Payload h"
        have h: "f1_StreamID h = sid" "f1_Type h = TypeData1"
          using f Cons by (simp_all add: p1_flight_ok_def)
        have d: "q1_dispatch J h (p1_client w) = q1_store J False name (length ?p) ?p (p1_client w)"
          using h c by (simp add: q1_dispatch_def q1_handleData_def p1_client_ok_def)
        have "p1_work (p1_stored ?p (q1_dispatch J h (p1_client w)) (w\<lparr>p1_flight := fs\<rparr>)) < p1_work w"
          using None Cons q1_store_rest [OF c, of J False "length ?p" ?p] unfolding d
          by (auto simp: p1_work_def p1_stored_def flight_bytes_def)
        with push1_step.arrive [OF None Cons, of J name sid] show ?thesis
          by (intro exI conjI) (assumption, assumption, simp add: p1_stored_def)
      next
        case Nil
        then show ?thesis using p1_progress_send [OF c s f empty None _ open_end] by blast
      qed
    qed
  qed
qed

lemma push1_run_trans: "push1_run J name sid w1 w2 \<Longrightarrow> push1_run J name sid w w1 \<Longrightarrow> push1_run J name sid w w2"
  by (induction rule: push1_run.induct) (blast intro: push1_run.step)+

lemma p1_drains:
  "p1_inv name sid w \<Longrightarrow> \<exists>w'. push1_run J name sid w w' \<and> p1_log w' = p1_log w \<and> p1_got w' = p1_log w"
proof (induction "p1_work w" arbitrary: w rule: less_induct)
  case less
  show ?case
  proof (cases "p1_got w = p1_log w")
    case True
    then show ?thesis by (blast intro: push1_run.refl)
  next
    case False
    from p1_progress [OF less.prems this, of J] obtain w1 where
      w1: "push1_step J name sid w w1" "p1_work w1 < p1_work w" "p1_log w1 = p1_log w" by blast
    from less.hyps [OF w1(2) push1_step_inv [OF w1(1) less.prems]] obtain w2 where
      "push1_run J name sid w1 w2" "p1_log w2 = p1_log w1" "p1_got w2 = p1_log w1" by blast
    with w1 show ?thesis
      by (metis push1_run.refl push1_run.step push1_run_trans)
  qed
qed

section \<open>Properties\<close>

text \<open>The first connection: the client registered, and the stream's buffer is new.\<close>

definition push1_start :: "int \<Rightarrow> client1 \<Rightarrow> push1_world" where
  "push1_start maxRetain c =
     \<lparr>p1_client = c, p1_rest = None, p1_cur = [], p1_acc = [], p1_got = [],
      p1_buf = NewStreamBuffer maxRetain, p1_off = 0, p1_flight = [], p1_log = []\<rparr>"

lemma NewEdgeClientSession1_streams:
  "name \<in> set subs \<Longrightarrow> map_of (q1_streams (NewEdgeClientSession1 nodeID accessAddr subs)) name = Some (newRecvState name)"
proof -
  have "map_of (fold (\<lambda>name m. AList.update name (newRecvState name) m) subs m) name =
    (if name \<in> set subs then Some (newRecvState name) else map_of m name)" for m
    by (induction subs arbitrary: m) (auto simp: AList.update_conv')
  then show "name \<in> set subs \<Longrightarrow> ?thesis" by (simp add: NewEdgeClientSession1_def)
qed

lemma push1_start_inv:
  assumes "name \<in> set subs" and "q1_register J (Inr conn) (NewEdgeClientSession1 nodeID accessAddr subs) = (None, c1)"
    and "q1_registered J (Inr f) c1 = (None, c2)"
    and "k1_StreamIDs (snd (dec_register_ack1 J (f1_Payload f))) = [name \<mapsto> sid]"
  shows "p1_inv name sid (push1_start maxRetain c2)"
proof -
  let ?st = "newRecvState name"
  have o: "\<not> rb_closed (pr_buf ?st)" by (simp add: newRecvState_def NewRecvBuffer_def)
  have "map_of (q1_streams c1) name = Some ?st" "q1_ctx c1 = None"
    using q1_register_ok [OF assms(2)] q1_reopen_open [OF NewEdgeClientSession1_streams [OF assms(1)] o]
    by (simp_all add: NewEdgeClientSession1_def)
  from q1_ids_one [OF this(1), of sid] q1_registered_ok [OF assms(3)] assms(4) this(2)
  have "map_of (q1_streams c2) name = Some (?st\<lparr>pr_id := sid\<rparr>)" "map_of (q1_byID c2) sid = Some name" "q1_ctx c2 = None"
    by simp_all
  then have "p1_client_ok name sid (?st\<lparr>pr_id := sid\<rparr>) (push1_start maxRetain c2)"
    using o by (simp add: p1_client_ok_def push1_start_def pw_inv_def p1_view_def pw_stored_def
        newRecvState_def recvBufCap_def del: NewRecvBuffer_def)
  moreover have "p1_server_ok (?st\<lparr>pr_id := sid\<rparr>) (push1_start maxRetain c2)"
    using sb_inv_new [of maxRetain]
    by (simp add: p1_server_ok_def push1_start_def newRecvState_def) (simp add: NewStreamBuffer_def sb_content_def)
  moreover have "p1_flight_ok sid (push1_start maxRetain c2)"
    by (simp add: p1_flight_ok_def push1_start_def p1_pending_def flight_bytes_def)
  ultimately show ?thesis unfolding p1_inv_def by blast
qed


text \<open>C4: A stream of the first protocol reaches its consumer exactly, over any number of
  reconnects. From a session that registered for a stream with a new buffer on, and over any
  interleaving of appends at the server, data frames sent and received, reads by the consumer, a
  full receive buffer, acknowledgements, trims up to the acknowledged offset, and connections that
  break and are registered again, what the consumer has read is the beginning of what was appended;
  the resume offset never passes what the server has sent; and neither the sender nor a new
  connection that resumes finds its data evicted.\<close>

theorem push1_exact:
  assumes "name \<in> set subs" and "q1_register J (Inr conn) (NewEdgeClientSession1 nodeID accessAddr subs) = (None, c1)"
    and "q1_registered J (Inr f) c1 = (None, c2)"
    and "k1_StreamIDs (snd (dec_register_ack1 J (f1_Payload f))) = [name \<mapsto> sid]"
    and "push1_run J name sid (push1_start maxRetain c2) w"
  shows "p1_got w = take (length (p1_got w)) (p1_log w) \<and>
    int (length (p1_got w)) \<le> q1_ResumeOffset name (p1_client w) + int (length (p1_pending w)) \<and>
    q1_ResumeOffset name (p1_client w) \<le> p1_off w \<and> p1_off w \<le> int (length (p1_log w)) \<and>
    snd (sb_Read (p1_off w) m (p1_buf w)) = None \<and>
    snd (sb_Read (q1_ResumeOffset name (p1_client w)) m (p1_buf w)) = None"
proof -
  have i: "p1_inv name sid w" by (rule push1_run_inv [OF assms(5) push1_start_inv [OF assms(1-4)]])
  then obtain st where c: "p1_client_ok name sid st w" and s: "p1_server_ok st w" and fl: "p1_flight_ok sid w"
    by (auto simp: p1_inv_def)
  note bd = p1_bounds [OF c s fl]
  have r: "q1_ResumeOffset name (p1_client w) = int (length (p1_acc w))"
    using c bd(1) by (simp add: q1_ResumeOffset_def p1_client_ok_def)
  have "length (p1_got w) \<le> length (p1_acc w) + length (p1_pending w)"
    using arg_cong [OF p1_got_stored [OF c], of length] by (auto simp: p1_pending_def split: option.splits)
  moreover have off: "0 \<le> p1_off w" "p1_off w \<le> int (length (p1_log w))" using fl by (simp_all add: p1_flight_ok_def)
  moreover have "int (length (p1_acc w)) \<le> p1_off w" using bd(2) off(1) by linarith
  moreover have "sb_base (p1_buf w) \<le> int (length (p1_acc w))"
    using c s bd(1) by (simp add: p1_client_ok_def p1_server_ok_def)
  moreover have "\<not> sb_closed (p1_buf w)" using s by (simp add: p1_server_ok_def)
  ultimately show ?thesis
    using p1_got_log(1) [OF i] bd(4) unfolding r by (simp add: sb_Read_def)
qed


section \<open>A run\<close>

definition ack_codec1 :: codec1 where
  "ack_codec1 = example_codec1\<lparr>dec_register_ack1 :=
     (\<lambda>b. (None, \<lparr>k1_OK = True, k1_Message = [], k1_StreamIDs = [''s'' \<mapsto> 2]\<rparr>))\<rparr>"

definition ack_frame1 :: frame1 where
  "ack_frame1 = \<lparr>f1_StreamID = 0, f1_Type = TypeRegisterAck1, f1_Payload = []\<rparr>"

definition example_conn1 :: mux_conn where
  "example_conn1 = NewMuxConn 100 \<lparr>rd_data = [], rd_err = ErrEOF\<rparr>"

definition registered1 :: client1 where
  "registered1 = snd (q1_registered ack_codec1 (Inr ack_frame1)
     (snd (q1_register ack_codec1 (Inr example_conn1) (NewEdgeClientSession1 ''n'' ''access:1'' [''s'']))))"

lemma registered1_steps:
  "q1_register ack_codec1 (Inr example_conn1) (NewEdgeClientSession1 ''n'' ''access:1'' [''s'']) =
     (None, snd (q1_register ack_codec1 (Inr example_conn1) (NewEdgeClientSession1 ''n'' ''access:1'' [''s''])))"
  "q1_registered ack_codec1 (Inr ack_frame1)
     (snd (q1_register ack_codec1 (Inr example_conn1) (NewEdgeClientSession1 ''n'' ''access:1'' [''s'']))) = (None, registered1)"
  "k1_StreamIDs (snd (dec_register_ack1 ack_codec1 (f1_Payload ack_frame1))) = [''s'' \<mapsto> 2]"
proof -
  show "k1_StreamIDs (snd (dec_register_ack1 ack_codec1 (f1_Payload ack_frame1))) = [''s'' \<mapsto> 2]"
    by (simp add: ack_codec1_def)
  have "fst (q1_registered ack_codec1 (Inr ack_frame1) c) = None" for c
    by (simp add: q1_registered_def ack_codec1_def ack_frame1_def)
  then show "q1_registered ack_codec1 (Inr ack_frame1)
     (snd (q1_register ack_codec1 (Inr example_conn1) (NewEdgeClientSession1 ''n'' ''access:1'' [''s'']))) = (None, registered1)"
    by (simp add: registered1_def prod_eq_iff)
  have "fst (q1_register ack_codec1 (Inr example_conn1) (NewEdgeClientSession1 ''n'' ''access:1'' [''s''])) = None"
    by (simp add: q1_register_def q1_send_def Let_def ack_codec1_def example_codec1_def example_conn1_def
        mc1_WriteFrame_def frame1_write_to_def bw_write_def bw_flush_def net_write_def NewMuxConn_def
        frame1_header_def put_u32_def MaxPayloadSize_def bw_size_def)
  then show "q1_register ack_codec1 (Inr example_conn1) (NewEdgeClientSession1 ''n'' ''access:1'' [''s'']) =
     (None, snd (q1_register ack_codec1 (Inr example_conn1) (NewEdgeClientSession1 ''n'' ''access:1'' [''s''])))"
    by (simp add: prod_eq_iff)
qed


text \<open>Three bytes are appended and sent; then the rest of the run follows.\<close>

lemma push1_example_sent:
  "\<exists>w. push1_run ack_codec1 ''s'' 2 (push1_start 100 registered1) w \<and> p1_log w = [7, 8, 9]"
proof -
  let ?w = "push1_start 100 registered1"
  obtain b where "sb_Append [7, 8, 9] (p1_buf ?w) = Appended b"
    by (simp add: push1_start_def NewStreamBuffer_def sb_Append_def)
  from push1_step.append [OF this] have
    "push1_step ack_codec1 ''s'' 2 ?w (?w\<lparr>p1_buf := b, p1_log := p1_log ?w @ [7, 8, 9]\<rparr>)" .
  then show ?thesis
    by (intro exI conjI) (rule push1_run.step [OF push1_run.refl], assumption, simp add: push1_start_def)
qed

theorem push1_exact_witness:
  "\<exists>w. push1_run ack_codec1 ''s'' 2 (push1_start 100 registered1) w \<and> p1_log w = [7, 8, 9] \<and>
     p1_got w = take (length (p1_got w)) [7, 8, 9] \<and> snd (sb_Read (p1_off w) 4 (p1_buf w)) = None"
proof -
  from push1_example_sent obtain w where
    w: "push1_run ack_codec1 ''s'' 2 (push1_start 100 registered1) w" "p1_log w = [7, 8, 9]" by blast
  then show ?thesis
    using push1_exact [OF _ registered1_steps w(1), of 4] by (intro exI [of _ w]) simp
qed


end
