(* ===== verification/LocalHttp.thy ===== *)
theory LocalHttp
  imports Client1
begin

text \<open>
  \<^verbatim>\<open>mux/client/localhttp.go\<close> and \<^verbatim>\<open>mux_http/client/localhttp.go\<close>, which differ only in the session they read
  from: the edge node's HTTP server for the consumers of its push streams. Routing is what
  \<open>http.ServeMux\<close> does with the four patterns for a clean path; a request is answered or becomes a
  copy loop from the stream's reader to the consumer. The locale \<open>byte_source\<close> is what that loop
  needs of a reader; both sessions provide it.
\<close>

section \<open>Routing\<close>

datatype local_reply =
    LocalError int string "fmt_arg list"
  | LocalOffset string int
  | LocalStream string
  | LocalOffsets "(string \<times> int) list"
  | LocalOK
  | LocalRedirect

definition stream_prefix :: string where "stream_prefix = ''/stream/''"
definition offset_suffix :: string where "offset_suffix = ''/offset''"

definition local_stream_handler :: "(string \<Rightarrow> bool) \<Rightarrow> (string \<Rightarrow> int) \<Rightarrow> string \<Rightarrow> local_reply" where
  "local_stream_handler has offset urlpath =
     (let path = drop (length stream_prefix) urlpath in
      if path = '''' then LocalError 400 ''stream name required'' []
      else if length path > 7 \<and> drop (length path - 7) path = offset_suffix
      then (let name = take (length path - 7) path in LocalOffset name (offset name))
      else if \<not> has path then LocalError 404 ''unknown stream %q'' [ArgStr path]
      else LocalStream path)"

definition local_streams :: "string list \<Rightarrow> (string \<Rightarrow> int) \<Rightarrow> local_reply" where
  "local_streams subs offset =
     LocalOffsets (fold (\<lambda>name m. AList.update name (offset name) m) subs [])"

definition local_handle :: "string list \<Rightarrow> (string \<Rightarrow> bool) \<Rightarrow> (string \<Rightarrow> int) \<Rightarrow> string \<Rightarrow> local_reply" where
  "local_handle subs has offset urlpath =
     (if take (length stream_prefix) urlpath = stream_prefix then local_stream_handler has offset urlpath
      else if urlpath = ''/streams'' then local_streams subs offset
      else if urlpath = ''/health'' then LocalOK
      else if urlpath = ''/stream'' then LocalRedirect
      else LocalError 404 ''404 page not found'' [])"

definition cl_local_handle :: "string \<Rightarrow> client_session \<Rightarrow> local_reply" where
  "cl_local_handle urlpath s = local_handle (cl_pushSubs s) (\<lambda>name. cl_StreamReader name s \<noteq> None)
     (\<lambda>name. cl_ResumeOffset name s) urlpath"

definition q1_local_handle :: "string \<Rightarrow> client1 \<Rightarrow> local_reply" where
  "q1_local_handle urlpath c = local_handle (q1_subs c) (\<lambda>name. map_of (q1_streams c) name \<noteq> None)
     (\<lambda>name. q1_ResumeOffset name c) urlpath"

section \<open>The copy loop\<close>

definition localBufSize :: nat where "localBufSize = 64 * 1024"

text \<open>
  Each turn is given whether the write to the consumer succeeds, and whether its request is found
  cancelled afterwards. The results are the bytes that were written, the bytes that were read and
  not written, the session, and whether the handler returned; otherwise it waits for data.
\<close>

fun local_copy ::
  "('c \<Rightarrow> (byte list \<times> go_error option \<times> 'c) option) \<Rightarrow> (bool \<times> bool) list \<Rightarrow> 'c
     \<Rightarrow> byte list \<times> byte list \<times> 'c \<times> bool" where
  "local_copy rd [] c = ([], [], c, False)"
| "local_copy rd ((wok, cancelled) # turns) c =
     (case rd c of
        None \<Rightarrow> ([], [], c, False)
      | Some (bs, e, c1) \<Rightarrow>
          if bs \<noteq> [] \<and> \<not> wok then ([], bs, c1, True)
          else if e \<noteq> None \<or> cancelled then (bs, [], c1, True)
          else (case local_copy rd turns c1 of (sent, lost, c2, returned) \<Rightarrow> (bs @ sent, lost, c2, returned)))"

text \<open>A read of the second version's stream, through the session.\<close>

definition cl_Read :: "string \<Rightarrow> nat \<Rightarrow> client_session \<Rightarrow> (byte list \<times> go_error option \<times> client_session) option" where
  "cl_Read name m s =
     (case cl_StreamReader name s of
        None \<Rightarrow> None
      | Some b \<Rightarrow> (case rb_Read b m of
          RBlocked \<Rightarrow> None
        | RRet bs e b' \<Rightarrow> Some (bs, e, cl_push name (\<lambda>st. st\<lparr>pr_buf := b'\<rparr>) s)))"

locale byte_source =
  fixes rd :: "nat \<Rightarrow> 'c \<Rightarrow> (byte list \<times> go_error option \<times> 'c) option"
    and content :: "'c \<Rightarrow> byte list"
    and inv :: "'c \<Rightarrow> bool"
  assumes rd_data: "inv c \<Longrightarrow> content c \<noteq> [] \<Longrightarrow>
      \<exists>c'. rd m c = Some (take m (content c), None, c') \<and> content c' = drop m (content c) \<and> inv c'"
    and rd_empty: "inv c \<Longrightarrow> content c = [] \<Longrightarrow> rd m c = Some (bs, e, c') \<Longrightarrow>
      bs = [] \<and> e \<noteq> None \<and> content c' = [] \<and> inv c'"
begin

lemma rd_splits:
  assumes "inv c" and "rd m c = Some (bs, e, c')"
  shows "content c = bs @ content c' \<and> length bs \<le> m \<and> inv c' \<and> (e \<noteq> None \<longrightarrow> bs = [])"
proof (cases "content c = []")
  case True
  with rd_empty [OF assms(1) _ assms(2)] show ?thesis by simp
next
  case False
  with rd_data [OF assms(1), of m] assms(2) show ?thesis by auto
qed

lemma copy_splits:
  "inv c \<Longrightarrow> local_copy (rd m) turns c = (sent, lost, c', returned) \<Longrightarrow>
     content c = sent @ lost @ content c' \<and> length lost \<le> m \<and> inv c' \<and>
     (lost \<noteq> [] \<longrightarrow> returned \<and> (\<exists>g. (False, g) \<in> set turns))"
proof (induction turns arbitrary: c sent)
  case (Cons t turns)
  obtain wok cancelled where t: "t = (wok, cancelled)" by (cases t)
  show ?case
  proof (cases "rd m c")
    case None
    with Cons.prems t show ?thesis by simp
  next
    case (Some r)
    then obtain bs e c1 where r: "rd m c = Some (bs, e, c1)" by (cases r) simp
    note s = rd_splits [OF Cons.prems(1) r]
    consider "bs \<noteq> []" "\<not> wok" | "bs = [] \<or> wok" "e \<noteq> None \<or> cancelled"
      | "bs = [] \<or> wok" "e = None" "\<not> cancelled" by blast
    then show ?thesis
    proof cases
      case 1
      with Cons.prems(2) t r s show ?thesis by auto
    next
      case 2
      with Cons.prems(2) t r s show ?thesis by auto
    next
      case 3
      obtain sent1 lost1 c2 d where l: "local_copy (rd m) turns c1 = (sent1, lost1, c2, d)"
        using prod_cases4 by blast
      with 3 Cons.prems(2) t r have "sent = bs @ sent1" "lost = lost1" "c' = c2" "returned = d" by auto
      with Cons.IH [of c1 sent1] s l show ?thesis by auto
    qed
  qed
qed simp

text \<open>Each undisturbed turn takes at least a byte, so enough of them take everything.\<close>

lemma copy_drains:
  "inv c \<Longrightarrow> 0 < m \<Longrightarrow> length (content c) \<le> n \<Longrightarrow>
     local_copy (rd m) (replicate n (True, False)) c = (sent, lost, c', returned) \<Longrightarrow>
     sent = content c \<and> lost = [] \<and> content c' = []"
proof (induction n arbitrary: c sent lost c' returned)
  case (Suc n)
  show ?case
  proof (cases "content c = []")
    case True
    show ?thesis
    proof (cases "rd m c")
      case None
      with True Suc.prems(4) show ?thesis by simp
    next
      case (Some r)
      then obtain bs e c1 where r: "rd m c = Some (bs, e, c1)" by (cases r) simp
      with rd_empty [OF Suc.prems(1) True r] True Suc.prems(4) show ?thesis by auto
    qed
  next
    case False
    from rd_data [OF Suc.prems(1) False, of m] obtain c1 where
      r: "rd m c = Some (take m (content c), None, c1)" "content c1 = drop m (content c)" "inv c1" by blast
    obtain sent1 lost1 c2 d where l: "local_copy (rd m) (replicate n (True, False)) c1 = (sent1, lost1, c2, d)"
      using prod_cases4 by blast
    have "length (content c1) \<le> n" using r(2) Suc.prems(2,3) by simp
    from Suc.IH [OF r(3) Suc.prems(2) this l] r l Suc.prems(4) show ?thesis by auto
  qed
qed simp

end


section \<open>The sessions as sources\<close>

text \<open>What the buffer of a stream of each session still holds.\<close>

definition cl_unread :: "string \<Rightarrow> client_session \<Rightarrow> byte list" where
  "cl_unread name s = (case cl_StreamReader name s of Some b \<Rightarrow> rb_content b | None \<Rightarrow> [])"

definition q1_unread :: "string \<Rightarrow> client1 \<Rightarrow> byte list" where
  "q1_unread name c = (case map_of (q1_streams c) name of Some st \<Rightarrow> rb_content (pr_buf st) | None \<Rightarrow> [])"

definition cl_readable :: "string \<Rightarrow> client_session \<Rightarrow> bool" where
  "cl_readable name s \<longleftrightarrow> (case cl_StreamReader name s of Some b \<Rightarrow> rb_inv b | None \<Rightarrow> False)"

definition q1_readable :: "string \<Rightarrow> client1 \<Rightarrow> bool" where
  "q1_readable name c \<longleftrightarrow> (case map_of (q1_streams c) name of Some st \<Rightarrow> rb_inv (pr_buf st) | None \<Rightarrow> False)"

lemma rb_Read_data:
  assumes "rb_inv b" and "rb_content b \<noteq> []"
  shows "\<exists>b'. rb_Read b m = RRet (take m (rb_content b)) None b' \<and> rb_content b' = drop m (rb_content b) \<and> rb_inv b'"
  using rb_Read_cases [OF assms(1), of m] assms(2) by (auto split: if_splits)

lemma rb_Read_empty:
  assumes "rb_inv b" and "rb_size b = 0" and "rb_Read b m = RRet bs e b'"
  shows "bs = [] \<and> e \<noteq> None \<and> b' = b"
proof -
  have "rb_closed b" "bs = []" "e = rb_closeErr b" "b' = b"
    using rb_Read_cases [OF assms(1), of m] assms(2,3) by (auto split: if_splits)
  with assms(1) show ?thesis by (simp add: rb_inv_def)
qed

lemma cl_push_reader:
  "cl_StreamReader name s \<noteq> None \<Longrightarrow>
     cl_StreamReader name (cl_push name (\<lambda>st. st\<lparr>pr_buf := b\<rparr>) s) = Some b"
  by (auto simp: cl_StreamReader_def cl_push_def map_of_map_key [where h = "\<lambda>n st. if n = name then st\<lparr>pr_buf := b\<rparr> else st"])

interpretation cl_source: byte_source "cl_Read name" "cl_unread name" "cl_readable name"
proof
  fix s :: client_session and m
  assume "cl_readable name s" and "cl_unread name s \<noteq> []"
  then obtain b where b: "cl_StreamReader name s = Some b" "rb_inv b" "rb_content b \<noteq> []"
    by (auto simp: cl_readable_def cl_unread_def split: option.splits)
  with rb_Read_data [OF b(2,3), of m] show "\<exists>c'. cl_Read name m s = Some (take m (cl_unread name s), None, c') \<and>
      cl_unread name c' = drop m (cl_unread name s) \<and> cl_readable name c'"
    by (auto simp: cl_Read_def cl_unread_def cl_readable_def cl_push_reader)
next
  fix s c' :: client_session and m bs e
  assume "cl_readable name s" and "cl_unread name s = []" and "cl_Read name m s = Some (bs, e, c')"
  then obtain b b' where b: "cl_StreamReader name s = Some b" "rb_inv b" "rb_size b = 0" "rb_Read b m = RRet bs e b'"
    "c' = cl_push name (\<lambda>st. st\<lparr>pr_buf := b'\<rparr>) s"
    by (auto simp: cl_Read_def cl_unread_def cl_readable_def split: option.splits read_res.splits)
  with rb_Read_empty [OF b(2-4)] show "bs = [] \<and> e \<noteq> None \<and> cl_unread name c' = [] \<and> cl_readable name c'"
    by (simp add: cl_unread_def cl_readable_def cl_push_reader)
qed

interpretation q1_source: byte_source "q1_Read name" "q1_unread name" "q1_readable name"
proof
  fix c :: client1 and m
  assume "q1_readable name c" and "q1_unread name c \<noteq> []"
  then obtain st where st: "map_of (q1_streams c) name = Some st" "rb_inv (pr_buf st)" "rb_content (pr_buf st) \<noteq> []"
    by (auto simp: q1_readable_def q1_unread_def split: option.splits)
  with rb_Read_data [OF st(2,3), of m] show "\<exists>c'. q1_Read name m c = Some (take m (q1_unread name c), None, c') \<and>
      q1_unread name c' = drop m (q1_unread name c) \<and> q1_readable name c'"
    by (auto simp: q1_Read_def q1_unread_def q1_readable_def)
next
  fix c c' :: client1 and m bs e
  assume "q1_readable name c" and "q1_unread name c = []" and "q1_Read name m c = Some (bs, e, c')"
  then obtain st b' where b: "map_of (q1_streams c) name = Some st" "rb_inv (pr_buf st)" "rb_size (pr_buf st) = 0"
    "rb_Read (pr_buf st) m = RRet bs e b'" "c' = q1_put name (st\<lparr>pr_buf := b'\<rparr>) c"
    by (auto simp: q1_Read_def q1_unread_def q1_readable_def split: option.splits read_res.splits)
  with rb_Read_empty [OF b(2-4)] show "bs = [] \<and> e \<noteq> None \<and> q1_unread name c' = [] \<and> q1_readable name c'"
    by (simp add: q1_unread_def q1_readable_def)
qed

section \<open>Properties\<close>

definition offset_like :: "string \<Rightarrow> bool" where
  "offset_like name \<longleftrightarrow> (\<exists>pre. pre \<noteq> '''' \<and> name = pre @ offset_suffix)"

lemma offset_like_iff: "offset_like p \<longleftrightarrow> length p > 7 \<and> drop (length p - 7) p = offset_suffix"
proof
  assume a: "length p > 7 \<and> drop (length p - 7) p = offset_suffix"
  then have "p = take (length p - 7) p @ offset_suffix" by (metis append_take_drop_id)
  moreover have "take (length p - 7) p \<noteq> ''''" using a by auto
  ultimately show "offset_like p" unfolding offset_like_def by blast
qed (auto simp: offset_like_def offset_suffix_def)

text \<open>C30: A local consumer gets the stream as it is. Whatever a request for a stream meets, a write
  that fails, a consumer that goes away or a stream without data, what it was sent, then what was read
  for it and not sent, then what the buffer still holds is exactly what the buffer held; only a
  failing write loses anything, and at most one buffer of 64 KiB; and a consumer that stays is
  sent everything that the buffer holds.\<close>

theorem local_stream_exact:
  assumes "cl_readable name s"
    and "local_copy (cl_Read name localBufSize) turns s = (sent, lost, s', returned)"
  shows "cl_unread name s = sent @ lost @ cl_unread name s' \<and> length lost \<le> localBufSize \<and>
    (lost \<noteq> [] \<longrightarrow> returned \<and> (\<exists>g. (False, g) \<in> set turns)) \<and>
    (turns = replicate n (True, False) \<and> length (cl_unread name s) \<le> n \<longrightarrow> sent = cl_unread name s)"
proof -
  have "sent = cl_unread name s"
    if "turns = replicate n (True, False)" and "length (cl_unread name s) \<le> n"
    using cl_source.copy_drains [OF assms(1), of localBufSize n sent lost s' returned] that assms(2)
    by (simp add: localBufSize_def)
  with cl_source.copy_splits [OF assms] show ?thesis by blast
qed

text \<open>The handler of the first version runs the same loop over its own session.\<close>

definition q1_local_serve :: "string \<Rightarrow> (bool \<times> bool) list \<Rightarrow> client1 \<Rightarrow> byte list \<times> byte list \<times> client1 \<times> bool" where
  "q1_local_serve name turns c = local_copy (q1_Read name localBufSize) turns c"

lemma q1_local_serve_exact:
  assumes "q1_readable name c" and "q1_local_serve name turns c = (sent, lost, c', returned)"
  shows "q1_unread name c = sent @ lost @ q1_unread name c' \<and> length lost \<le> localBufSize"
  using q1_source.copy_splits [OF assms(1)] assms(2) unfolding q1_local_serve_def by blast

text \<open>A consumer that breaks loses data for good. If the write of what was just read fails, those
  bytes have left the buffer and no later request gets them; the resume offset already counts
  them, so a reconnect does not bring them back.\<close>

theorem local_write_failure_loses:
  assumes "cl_readable name s" and "cl_unread name s \<noteq> []"
  shows "\<exists>s'. local_copy (cl_Read name localBufSize) [(False, g)] s = ([], take localBufSize (cl_unread name s), s', True) \<and>
    cl_unread name s' = drop localBufSize (cl_unread name s) \<and> cl_ResumeOffset name s' = cl_ResumeOffset name s"
proof -
  from cl_source.rd_data [OF assms, of localBufSize] obtain s' where
    r: "cl_Read name localBufSize s = Some (take localBufSize (cl_unread name s), None, s')"
      "cl_unread name s' = drop localBufSize (cl_unread name s)" by blast
  have "take localBufSize (cl_unread name s) \<noteq> []" using assms(2) by (simp add: localBufSize_def)
  moreover have "cl_ResumeOffset name s' = cl_ResumeOffset name s"
    using r(1) by (auto simp: cl_Read_def cl_ResumeOffset_def cl_push_def
        map_of_map_key [where h = "\<lambda>n st. if n = name then st\<lparr>pr_buf := _\<rparr> else st"] split: option.splits read_res.splits)
  ultimately show ?thesis using r by (intro exI [of _ s']) simp
qed


text \<open>Which streams can be read. For a session that knows a stream, the path \<open>/stream/\<close> and its name
  reads the stream if and only if the name is not empty and does not end in \<open>/offset\<close> after at least one
  more character, otherwise the path asks for the offset of a shorter name; and the path with
  \<open>/offset\<close> appended gives the offset of every name that is not empty.\<close>

theorem local_stream_paths:
  assumes "cl_StreamReader name s \<noteq> None"
  shows "(cl_local_handle (stream_prefix @ name) s = LocalStream name \<longleftrightarrow> name \<noteq> '''' \<and> \<not> offset_like name) \<and>
    (offset_like name \<longrightarrow> (\<exists>pre. name = pre @ offset_suffix \<and>
       cl_local_handle (stream_prefix @ name) s = LocalOffset pre (cl_ResumeOffset pre s))) \<and>
    (name \<noteq> '''' \<longrightarrow> cl_local_handle (stream_prefix @ name @ offset_suffix) s = LocalOffset name (cl_ResumeOffset name s))"
proof -
  have h: "cl_local_handle (stream_prefix @ p) s =
    (if p = '''' then LocalError 400 ''stream name required'' []
     else if offset_like p then LocalOffset (take (length p - 7) p) (cl_ResumeOffset (take (length p - 7) p) s)
     else if cl_StreamReader p s = None then LocalError 404 ''unknown stream %q'' [ArgStr p] else LocalStream p)" for p
    by (simp add: cl_local_handle_def local_handle_def local_stream_handler_def offset_like_iff Let_def)
  have "offset_like (name @ offset_suffix)" if "name \<noteq> ''''" using that by (auto simp: offset_like_def)
  moreover have "take (length (name @ offset_suffix) - 7) (name @ offset_suffix) = name" by (simp add: offset_suffix_def)
  ultimately have "name \<noteq> '''' \<longrightarrow>
      cl_local_handle (stream_prefix @ name @ offset_suffix) s = LocalOffset name (cl_ResumeOffset name s)"
    by (simp only: h) simp
  moreover have "name = take (length name - 7) name @ offset_suffix" if "offset_like name"
    using that by (auto simp: offset_like_def offset_suffix_def)
  ultimately show ?thesis using assms by (auto simp: h offset_like_def offset_suffix_def)
qed

section \<open>Examples\<close>

definition example_buffer :: recv_buffer where
  "example_buffer = rb_ringWrite [1, 2, 3] (NewRecvBuffer 4)"

definition example_edge :: client_session where
  "example_edge = (NewEdgeClientSession ''n'' ''access:1'' [''s''] False)\<lparr>cl_pushStreams :=
     [(''s'', \<lparr>pr_name = ''s'', pr_id = 2, pr_recvOffset = 3, pr_ackedOffset = 0, pr_buf = example_buffer\<rparr>)]\<rparr>"

lemma example_edge_simps:
  "cl_readable ''s'' example_edge" "cl_unread ''s'' example_edge = [1, 2, 3]" "cl_StreamReader ''s'' example_edge \<noteq> None"
proof -
  have r: "cl_StreamReader ''s'' example_edge = Some example_buffer"
    by (simp add: cl_StreamReader_def example_edge_def)
  have "rb_room (NewRecvBuffer 4) = 4" by (simp add: rb_room_def NewRecvBuffer_def)
  then have b: "rb_inv example_buffer" "rb_content example_buffer = [1, 2, 3]"
    using rb_ringWrite_inv [of "NewRecvBuffer 4" "[1, 2, 3]"] by (simp_all add: example_buffer_def)
  from r b show "cl_readable ''s'' example_edge" "cl_unread ''s'' example_edge = [1, 2, 3]"
    "cl_StreamReader ''s'' example_edge \<noteq> None"
    by (simp_all add: cl_readable_def cl_unread_def)
qed

theorem local_stream_exact_witness:
  "fst (local_copy (cl_Read ''s'' localBufSize) (replicate 3 (True, False)) example_edge) = [1, 2, 3]"
proof -
  obtain sent lost s' returned where
    c: "local_copy (cl_Read ''s'' localBufSize) (replicate 3 (True, False)) example_edge = (sent, lost, s', returned)"
    using prod_cases4 by blast
  have "sent = cl_unread ''s'' example_edge"
    by (rule local_stream_exact [OF example_edge_simps(1) c, THEN conjunct2, THEN conjunct2, THEN conjunct2, THEN mp, of 3])
      (simp add: example_edge_simps)
  then show ?thesis unfolding c by (simp add: example_edge_simps)
qed

theorem local_write_failure_loses_witness:
  "\<exists>s'. local_copy (cl_Read ''s'' localBufSize) [(False, False)] example_edge = ([], [1, 2, 3], s', True) \<and>
    cl_unread ''s'' s' = []"
proof -
  have "take localBufSize [1, 2, 3] = [1, 2, 3 :: byte]" "drop localBufSize [1, 2, 3] = ([] :: byte list)"
    by (simp_all add: localBufSize_def)
  moreover have "cl_unread ''s'' example_edge \<noteq> []" by (simp add: example_edge_simps)
  ultimately show ?thesis
    using local_write_failure_loses [OF example_edge_simps(1), of False] by (simp only: example_edge_simps) blast
qed

theorem local_stream_paths_witness:
  "cl_local_handle ''/stream/s'' example_edge = LocalStream ''s''"
  using local_stream_paths [OF example_edge_simps(3)] by (simp add: stream_prefix_def offset_like_iff)

end
