(* ===== verification/Commands.thy ===== *)
theory Commands
  imports Backend LocalHttp
begin

text \<open>
  What the command lines of the two edge clients, \<^verbatim>\<open>cmd/mux-client\<close> and \<^verbatim>\<open>cmd/mux-client-v2\<close>, make of their flags:
  the process ends with a message, or runs a session. Parsing the flags and the log level is the standard
  library's.
\<close>

definition parse_streams :: "string \<Rightarrow> string list" where
  "parse_streams raw = filter (\<lambda>t. t \<noteq> '''') (map trim_space (split_comma raw))"

definition mux_client_main :: "string \<Rightarrow> string \<Rightarrow> string \<Rightarrow> string + client1" where
  "mux_client_main accessAddr nodeID streamsRaw =
     (if accessAddr = '''' then Inl ''-access-addr is required''
      else if nodeID = '''' then Inl ''-node-id is required''
      else if streamsRaw = '''' then Inl ''-streams is required''
      else let subs = parse_streams streamsRaw
           in if length subs = 0 then Inl ''-streams must contain at least one name''
              else Inr (NewEdgeClientSession1 nodeID accessAddr subs))"

definition mux_client_v2_main :: "string \<Rightarrow> string \<Rightarrow> string \<Rightarrow> string \<Rightarrow> string + client_session" where
  "mux_client_v2_main accessAddr nodeID streamsRaw backend =
     (if accessAddr = '''' \<or> nodeID = '''' then Inl ''-access-addr and -node-id are required''
      else let pushSubs = (if streamsRaw \<noteq> '''' then parse_streams streamsRaw else []);
               hasHandler = (backend \<noteq> '''')
           in if length pushSubs = 0 \<and> \<not> hasHandler then Inl ''at least one of -streams or -backend is required''
              else Inr (NewEdgeClientSession nodeID accessAddr pushSubs hasHandler))"

text \<open>The local server is started for streams only.\<close>

definition starts_local_http :: "client_session \<Rightarrow> bool" where
  "starts_local_http s \<longleftrightarrow> length (cl_pushSubs s) > 0"

lemma fold_update_dom: "n \<in> set names \<Longrightarrow> map_of (fold (\<lambda>n m. AList.update n (h n) m) names al) n = Some (h n)"
proof (induction names arbitrary: al rule: rev_induct)
  case (snoc x names)
  then show ?case by (cases "n = x") (simp_all add: update_conv')
qed simp

lemma new_session_reads:
  "n \<in> set subs \<Longrightarrow> cl_StreamReader n (NewEdgeClientSession nodeID accessAddr subs hasHandler) = Some (NewRecvBuffer recvBufCap)"
  by (simp add: cl_StreamReader_def NewEdgeClientSession_def fold_update_dom
      [where h = "\<lambda>n. \<lparr>pr_name = n, pr_id = 0, pr_recvOffset = 0, pr_ackedOffset = 0, pr_buf = NewRecvBuffer recvBufCap\<rparr>"])

text \<open>A client that starts has something to do. When \<open>mux-client-v2\<close> accepts its flags, the session registers
  with at least one capability, pushes if and only if streams are named and reverse requests if and only if
  a backend is; the local server is then started for every stream named in the flag, each
  name trimmed and none empty, and answers its path with the stream, unless the name ends in
  \<open>/offset\<close>.\<close>

theorem mux_client_starts_useful:
  assumes "mux_client_v2_main accessAddr nodeID streamsRaw backend = Inr s"
  shows "cl_caps s \<noteq> [] \<and> (''push'' \<in> set (cl_caps s) \<longleftrightarrow> parse_streams streamsRaw \<noteq> []) \<and>
    (''reverse-http'' \<in> set (cl_caps s) \<longleftrightarrow> backend \<noteq> '''') \<and>
    (\<forall>part \<in> set (split_comma streamsRaw). trim_space part \<noteq> '''' \<and> \<not> offset_like (trim_space part) \<longrightarrow>
       starts_local_http s \<and> cl_local_handle (stream_prefix @ trim_space part) s = LocalStream (trim_space part))"
proof -
  have e: "parse_streams '''' = []" by (simp add: parse_streams_def trim_space_def)
  with assms have s: "s = NewEdgeClientSession nodeID accessAddr (parse_streams streamsRaw) (backend \<noteq> '''')"
    and n: "parse_streams streamsRaw \<noteq> [] \<or> backend \<noteq> ''''"
    by (auto simp: mux_client_v2_main_def Let_def split: if_splits)
  have c: "cl_caps s = (if backend \<noteq> '''' then [''reverse-http''] else []) @ (if parse_streams streamsRaw \<noteq> [] then [''push''] else [])"
    by (simp add: s cl_caps_def NewEdgeClientSession_def)
  have "starts_local_http s \<and> cl_local_handle (stream_prefix @ trim_space part) s = LocalStream (trim_space part)"
    if "part \<in> set (split_comma streamsRaw)" "trim_space part \<noteq> ''''" "\<not> offset_like (trim_space part)" for part
  proof -
    have m: "trim_space part \<in> set (parse_streams streamsRaw)" using that(1,2) by (simp add: parse_streams_def)
    then have "starts_local_http s" by (auto simp: starts_local_http_def s NewEdgeClientSession_def)
    with local_stream_paths [of "trim_space part" s] new_session_reads [OF m] that(2,3) show ?thesis by (simp add: s)
  qed
  with n show ?thesis by (auto simp: c)
qed

theorem mux_client_starts_useful_witness:
  "\<exists>s. mux_client_v2_main ''a:1'' ''n1'' ''news, ,sport'' '''' = Inr s \<and> cl_local_handle ''/stream/sport'' s = LocalStream ''sport''"
proof -
  have p: "parse_streams ''news, ,sport'' = [''news'', ''sport'']" by code_simp
  then obtain s where s: "mux_client_v2_main ''a:1'' ''n1'' ''news, ,sport'' '''' = Inr s"
    by (simp add: mux_client_v2_main_def)
  have "''sport'' \<in> set (split_comma ''news, ,sport'')" "trim_space ''sport'' = ''sport''" by code_simp+
  moreover have "\<not> offset_like ''sport''" by (simp add: offset_like_iff)
  ultimately have "cl_local_handle (stream_prefix @ ''sport'') s = LocalStream ''sport''"
    using mux_client_starts_useful [OF s] by fastforce
  with s show ?thesis by (simp add: stream_prefix_def)
qed

end
