(* ===== verification/Servers.thy ===== *)
theory Servers
  imports HttpApi Commands
begin

text \<open>
  The two mux servers as processes: the edge listener of v2, \<open>Run\<close> and \<open>Close\<close> of both versions
  (\<^verbatim>\<open>mux/server/server.go\<close>, \<^verbatim>\<open>mux_http/server/httpapi.go\<close>), the trimming goroutine of the broker
  (\<^verbatim>\<open>push.go\<close>) and the commands \<^verbatim>\<open>cmd/mux-server\<close> and \<^verbatim>\<open>cmd/mux-server-v2\<close>. What the network gives to \<open>Listen\<close>,
  \<open>Accept\<close> and the closing calls is an argument.
\<close>

section \<open>Listening\<close>

text \<open>The listener of v2 returns the errors of \<open>Accept\<close> as they are.\<close>

fun accept_edges2 :: "(go_error + 'c) list \<Rightarrow> 'c list \<times> go_error option" where
  "accept_edges2 [] = ([], None)"
| "accept_edges2 (Inl e # as) = ([], Some e)"
| "accept_edges2 (Inr c # as) = (case accept_edges2 as of (cs, r) \<Rightarrow> (c # cs, r))"

definition runEdgeListener2 :: "string \<Rightarrow> go_error option \<Rightarrow> (go_error + 'c) list \<Rightarrow> 'c list \<times> go_error option" where
  "runEdgeListener2 edgeAddr listen as =
     (case listen of
        Some e \<Rightarrow> ([], Some (Wrapf ''edge listen %s: %w'' [ArgStr edgeAddr] e))
      | None \<Rightarrow> accept_edges2 as)"

section \<open>Run\<close>

text \<open>
  The two goroutines of \<open>Run\<close> and what they put into the channel of errors, in the order of their steps. The
  first value ends \<open>Run\<close>; the channel has room for both, so the other goroutine is never blocked. The
  result has the connections that were handed to the edge handler, and \<open>None\<close> while both listen.
\<close>

datatype 'c server_event =
    EdgeAccepts 'c
  | EdgeReturns "go_error option"
  | HttpReturns "go_error option"

fun Server_Run :: "'c server_event list \<Rightarrow> 'c list \<times> go_error option option" where
  "Server_Run [] = ([], None)"
| "Server_Run (EdgeAccepts c # evs) = (case Server_Run evs of (cs, r) \<Rightarrow> (c # cs, r))"
| "Server_Run (EdgeReturns err # evs) = ([], Some err)"
| "Server_Run (HttpReturns err # evs) = ([], Some err)"

text \<open>What one listener contributes: its accepted connections, and its return once it has one.\<close>

definition edge_events :: "'c list \<times> go_error option \<Rightarrow> 'c server_event list" where
  "edge_events r = map EdgeAccepts (fst r) @ (case snd r of None \<Rightarrow> [] | Some e \<Rightarrow> [EdgeReturns (Some e)])"

text \<open>\<open>main\<close>: a level that does not parse is \<open>info\<close>; the exit status of the process.\<close>

definition mux_server_level :: "(string \<Rightarrow> 'lv option) \<Rightarrow> 'lv \<Rightarrow> string \<Rightarrow> 'lv" where
  "mux_server_level parse info level = (case parse level of None \<Rightarrow> info | Some l \<Rightarrow> l)"

definition mux_server_main :: "'c server_event list \<Rightarrow> nat option" where
  "mux_server_main evs =
     (case snd (Server_Run evs) of
        None \<Rightarrow> None
      | Some (Some e) \<Rightarrow> Some 1
      | Some None \<Rightarrow> Some 0)"

section \<open>Close\<close>

text \<open>
  The listeners of a server: \<open>None\<close> before they are made, then whether they are open. A component that was
  started is given what its closing returns; both are always closed and the first error is returned.
\<close>

record server_life =
  sl_edgeLn :: "bool option"
  sl_httpSrv :: "bool option"
  sl_done :: bool   \<comment> \<open>the context of the server (v2) or of its broker (v1) is cancelled\<close>

definition close_part :: "go_error option \<Rightarrow> bool option \<Rightarrow> go_error option \<Rightarrow> go_error option \<times> bool option" where
  "close_part res part firstErr =
     (case part of
        None \<Rightarrow> (firstErr, None)
      | Some up \<Rightarrow> (if res \<noteq> None \<and> firstErr = None then res else firstErr, Some False))"

definition Server_Close1 :: "go_error option \<Rightarrow> go_error option \<Rightarrow> server_life \<Rightarrow> go_error option \<times> server_life" where
  "Server_Close1 edgeRes httpRes l =
     (case close_part edgeRes (sl_edgeLn l) None of
        (e1, ln) \<Rightarrow> (case close_part httpRes (sl_httpSrv l) e1 of
          (e2, srv) \<Rightarrow> (e2, l\<lparr>sl_edgeLn := ln, sl_httpSrv := srv, sl_done := True\<rparr>)))"

definition Server_Close2 :: "go_error option \<Rightarrow> go_error option \<Rightarrow> server_life \<Rightarrow> go_error option \<times> server_life" where
  "Server_Close2 edgeRes httpRes l =
     (let l1 = l\<lparr>sl_done := True\<rparr>
      in case close_part edgeRes (sl_edgeLn l1) None of
           (e1, ln) \<Rightarrow> (case close_part httpRes (sl_httpSrv l1) e1 of
             (e2, srv) \<Rightarrow> (e2, l1\<lparr>sl_edgeLn := ln, sl_httpSrv := srv\<rparr>)))"

text \<open>
  The trimming goroutine: what its \<open>select\<close> picks, turn by turn. It may pick the ticker although the
  context is cancelled, as both may be ready.
\<close>

fun trimLoop :: "bool list \<Rightarrow> push_broker \<Rightarrow> push_broker" where
  "trimLoop [] b = b"
| "trimLoop (stopped # picks) b = (if stopped then b else trimLoop picks (trimAll b))"

section \<open>What the life cycle means\<close>

lemma accept_edges2_first: "accept_edges2 (map Inr cs @ Inl e # as) = (cs, Some e)"
  by (induction cs) simp_all

lemma accept_edges2_waits: "accept_edges2 (map Inr cs) = (cs, None)"
  by (induction cs) simp_all

lemma Server_Run_accepts:
  "Server_Run (map EdgeAccepts cs @ evs) = (case Server_Run evs of (ds, r) \<Rightarrow> (cs @ ds, r))"
  by (induction cs) (auto split: prod.splits)

text \<open>A server runs until its first listener fails, and then its process fails. While the HTTP server listens
  and \<open>Accept\<close> succeeds nothing returns; the first error of \<open>Accept\<close>, a temporary one included,
  ends the process with status 1, and every connection accepted before was handled. Neither server can
  end with status 0 when \<open>ListenAndServe\<close> returns an error, as it always does.\<close>

lemma server_fails_with_first_listener:
  "Server_Run (edge_events (runEdgeListener2 addr None (map Inr cs @ Inl e # as)) @ evs) = (cs, Some (Some e))"
  "mux_server_main (edge_events (runEdgeListener2 addr None (map Inr cs @ Inl e # as)) @ evs) = Some 1"
  "mux_server_main (edge_events (runEdgeListener2 addr None (map Inr cs))) = None"
  by (simp_all add: runEdgeListener2_def accept_edges2_first accept_edges2_waits edge_events_def
      Server_Run_accepts [of _ "[]", simplified] Server_Run_accepts mux_server_main_def)

lemma server_never_exits_zero:
  assumes "\<forall>ev \<in> set evs. ev \<noteq> HttpReturns None \<and> ev \<noteq> EdgeReturns None"
  shows "mux_server_main evs \<in> {None, Some 1}"
  using assms
proof (induction evs)
  case (Cons ev evs)
  then show ?case
    by (cases ev) (auto simp: mux_server_main_def split: prod.splits option.splits)
qed (simp add: mux_server_main_def)

text \<open>Both versions close the same way: every listener that was made is closed whatever the other returned, and
  the error is the first that there was.\<close>

lemma close_ends_listening:
  "Server_Close1 e h l = Server_Close2 e h l"
  "snd (Server_Close1 e h l) = \<lparr>sl_edgeLn = map_option (\<lambda>_. False) (sl_edgeLn l),
     sl_httpSrv = map_option (\<lambda>_. False) (sl_httpSrv l), sl_done = True\<rparr>"
  "fst (Server_Close1 e h l) = (if sl_edgeLn l \<noteq> None \<and> e \<noteq> None then e else if sl_httpSrv l \<noteq> None then h else None)"
  by (cases l; simp add: Server_Close1_def Server_Close2_def close_part_def split: option.splits)+

end
