(* ===== verification/SlowConsumer.thy ===== *)
theory SlowConsumer
  imports Backend LocalHttp
begin

text \<open>
  What a consumer that stalls does to the edge node of v2 (\<^verbatim>\<open>mux/client/session.go\<close>). When the receive buffer of
  a stream is full, the read loop waits in \<open>handlePushData\<close>; pongs arrive on the same connection, so none is seen
  while it waits, and the ping loop of the session gives the connection up. \<open>while_waiting\<close> is what the other
  goroutines of the session can do meanwhile: consumers read, the acknowledgement ticker fires.
\<close>

inductive while_waiting :: "codec \<Rightarrow> client_session \<Rightarrow> client_session \<Rightarrow> bool" where
  wait_start: "while_waiting J s s"
| wait_read: "while_waiting J s s1 \<Longrightarrow> cl_Read name m s1 = Some (bs, e, s2) \<Longrightarrow> while_waiting J s s2"
| wait_ack: "while_waiting J s s1 \<Longrightarrow> while_waiting J s (ackLoop_tick J s1)"

lemma cl_push_frame [simp]:
  "cl_conn (cl_push name h s) = cl_conn s" "cl_ctx (cl_push name h s) = cl_ctx s"
  by (simp_all add: cl_push_def)

lemma sendPushAck_unconnected: "cl_conn s = None \<Longrightarrow> sendPushAck J name s = s"
  by (simp add: sendPushAck_def)

lemma ackLoop_tick_unconnected:
  assumes "cl_conn s = None"
  shows "ackLoop_tick J s = s"
proof -
  have "fold (\<lambda>(sid, n) s1. case map_of (cl_pushStreams s1) n of
         Some st \<Rightarrow> if pr_recvOffset st > pr_ackedOffset st then sendPushAck J n s1 else s1
       | None \<Rightarrow> s1) ids s = s" for ids
    using assms by (induction ids) (auto simp: sendPushAck_unconnected split: option.splits)
  then show ?thesis by (simp add: ackLoop_tick_def)
qed

lemma cl_Read_frame: "cl_Read name m s = Some (bs, e, s') \<Longrightarrow> cl_conn s' = cl_conn s \<and> cl_ctx s' = cl_ctx s"
  by (auto simp: cl_Read_def split: option.splits read_res.splits)

lemma cl_push_wake_frame:
  "cl_push_wake J name len rest s = (r, s') \<Longrightarrow> cl_conn s = None \<Longrightarrow> cl_conn s' = None \<and> cl_ctx s' = cl_ctx s"
  by (auto simp: cl_push_wake_def sendPushAck_unconnected Let_def split: option.splits push_out.splits if_splits)

lemma while_waiting_frame:
  "while_waiting J s s' \<Longrightarrow> cl_conn s = None \<Longrightarrow> cl_conn s' = None \<and> cl_ctx s' = cl_ctx s"
proof (induction rule: while_waiting.induct)
  case (wait_read J s s1 name m bs e s2)
  with cl_Read_frame [OF wait_read.hyps(2)] show ?case by simp
qed (simp_all add: ackLoop_tick_unconnected)

lemma cl_dispatch_waits:
  "cl_dispatch J (Inr f) s = (TurnWaits rest, s1) \<Longrightarrow> handlePushData J f s = (Some rest, s1)"
  by (auto simp: cl_dispatch_def split: if_splits prod.splits option.splits)

lemma handlePushData_waits_frame: "handlePushData J f s = (Some rest, s1) \<Longrightarrow> cl_ctx s1 = cl_ctx s"
  by (auto simp: handlePushData_def Let_def split: option.splits push_out.splits if_splits)

text \<open>C38: A stalled consumer ends the edge node. Let the read loop of a running session wait for room in the
  buffer of a stream, and the last pong be more than 35 seconds ago. The next tick of the ping loop drops
  the connection and ends that loop; whatever the consumers read and the acknowledgement ticker does
  afterwards, once the waiting write is done the read loop asks for the next frame without a
  connection to read from, which is a panic - no error is returned and nothing reconnects.\<close>

theorem slow_consumer_ends_process:
  assumes "cl_dispatch J (Inr f) s = (TurnWaits rest, s1)" and "cl_ctx s = None"
    and "clientPingInterval + clientPingTimeout < now - lastPong"
    and "while_waiting J (cl_closeConn s1) s2" and "cl_push_wake J name len rest s2 = (None, s3)"
  shows "cl_pingLoop_step (ClTick now) lastPong s1 = PingReturns (cl_closeConn s1) \<and>
    cl_dispatchLoop_turn J res s3 = None"
proof -
  have "cl_ctx s1 = None" using handlePushData_waits_frame [OF cl_dispatch_waits [OF assms(1)]] assms(2) by simp
  then have "cl_conn s2 = None \<and> cl_ctx s2 = None" using while_waiting_frame [OF assms(4)] by (simp add: cl_closeConn_def)
  with cl_push_wake_frame [OF assms(5)] have "cl_conn s3 = None \<and> cl_ctx s3 = None" by simp
  with assms(3) show ?thesis by (simp add: cl_pingLoop_step_def cl_dispatchLoop_turn_def)
qed

text \<open>A stream with a buffer of four bytes gets six; the consumer reads three of them too late.\<close>

definition stalled_stream :: "recv_buffer \<Rightarrow> int \<Rightarrow> push_recv" where
  "stalled_stream b off = \<lparr>pr_name = ''s'', pr_id = 2, pr_recvOffset = off, pr_ackedOffset = 0, pr_buf = b\<rparr>"

definition stalled_edge :: "recv_buffer \<Rightarrow> client_session" where
  "stalled_edge b = (NewEdgeClientSession ''n'' ''access:1'' [''s''] False)\<lparr>cl_pushStreams := [(''s'', stalled_stream b 0)],
     cl_pushByID := [(2, ''s'')], cl_conn := Some example_conn1\<rparr>"

definition six_bytes :: frame where
  "six_bytes = \<lparr>StreamID = 2, FType = TypePushData, FFlags = 0, Payload = [1, 2, 3, 4, 5, 6]\<rparr>"

lemma rb_Read_cap: "rb_Read b m = RRet bs e b' \<Longrightarrow> rb_cap b' = rb_cap b"
  by (auto simp: rb_Read_def rb_ringRead_def Let_def split: if_splits)

lemma rb_cap_NewRecvBuffer [simp]: "rb_cap (NewRecvBuffer n) = n" "rb_size (NewRecvBuffer n) = 0" "\<not> rb_closed (NewRecvBuffer n)"
  by (simp_all add: NewRecvBuffer_def)

lemma stalled_frame [simp]:
  "cl_ctx (stalled_edge b) = None" "cl_pushStreams (stalled_edge b) = [(''s'', stalled_stream b 0)]"
  "cl_pushByID (stalled_edge b) = [(2, ''s'')]"
  by (simp_all add: stalled_edge_def NewEdgeClientSession_def)

theorem slow_consumer_ends_process_witness:
  "\<exists>s1 s2 s3. cl_dispatch phase_example_codec (Inr six_bytes) (stalled_edge (NewRecvBuffer 4)) = (TurnWaits [5, 6], s1) \<and>
     while_waiting phase_example_codec (cl_closeConn s1) s2 \<and>
     cl_push_wake phase_example_codec ''s'' 6 [5, 6] s2 = (None, s3) \<and>
     cl_dispatchLoop_turn phase_example_codec (Inl ErrEOF) s3 = None"
proof -
  let ?J = phase_example_codec and ?s = "stalled_edge (NewRecvBuffer 4)"
  obtain b1 where b1: "rb_inv b1" "\<not> rb_closed b1" "rb_cap b1 = 4" "rb_content b1 = [1, 2, 3, 4]"
    "rb_Write None False (NewRecvBuffer 4) [1, 2, 3, 4, 5, 6] = WOBlocked [5, 6] b1"
    using rb_Write_open [of "NewRecvBuffer 4" "[1, 2, 3, 4, 5, 6]" None] by (auto simp: rb_room_def)
  define s1 where "s1 = cl_push ''s'' (\<lambda>_. stalled_stream b1 0) ?s"
  have w: "push_write None False 6 [1, 2, 3, 4, 5, 6] (stalled_stream (NewRecvBuffer 4) 0) = PushWaits [5, 6] (stalled_stream b1 0)"
    using b1(5) by (simp add: push_write_def stalled_stream_def)
  have f: "cl_byID (StreamID six_bytes) ?s = Some (stalled_stream (NewRecvBuffer 4) 0)" "cl_ctx ?s = None"
    "pr_name (stalled_stream (NewRecvBuffer 4) 0) = ''s''"
    by (simp_all add: cl_byID_def six_bytes_def) (simp add: stalled_stream_def)
  have "push_write (cl_ctx ?s) False (length (Payload six_bytes)) (Payload six_bytes) (stalled_stream (NewRecvBuffer 4) 0) =
      PushWaits [5, 6] (stalled_stream b1 0)" using w by (simp add: six_bytes_def eval_nat_numeral)
  then have "handlePushData ?J six_bytes ?s = (Some [5, 6], s1)"
    by (simp only: handlePushData_def f option.case push_out.case s1_def)
  then have d: "cl_dispatch ?J (Inr six_bytes) ?s = (TurnWaits [5, 6], s1)"
    by (simp add: cl_dispatch_def) (simp add: six_bytes_def ControlStreamID_def)
  have p1: "cl_pushStreams (cl_closeConn s1) = [(''s'', stalled_stream b1 0)]"
    by (simp add: s1_def cl_push_def cl_closeConn_def)
  obtain b2 where b2: "rb_Read b1 3 = RRet [1, 2, 3] None b2" "rb_content b2 = [4]" "rb_inv b2" "\<not> rb_closed b2"
    using rb_Read_cases [OF b1(1), of 3] b1 length_rb_content [of b1] by (auto split: if_splits)
  have c2: "rb_cap b2 = 4" "rb_size b2 = 1"
    using rb_Read_cap [OF b2(1)] b1(3) length_rb_content [of b2] b2(2) by auto
  obtain s2 where s2: "cl_Read ''s'' 3 (cl_closeConn s1) = Some ([1, 2, 3], None, s2)" "cl_pushStreams s2 = [(''s'', stalled_stream b2 0)]"
    using b2(1) p1 by (simp add: cl_Read_def cl_StreamReader_def cl_push_def stalled_stream_def)
  note v = wait_read [OF wait_start s2(1), of ?J]
  have n: "cl_ctx s2 = None" "cl_conn s2 = None"
    using cl_Read_frame [OF s2(1)] by (simp_all add: cl_closeConn_def s1_def)
  obtain b3 where b3: "rb_Write None True b2 [5, 6] = WODone None b3"
    using rb_Write_open [OF b2(3,4), of "[5, 6]" None] c2 by (auto simp: rb_Write_waited [of True] rb_room_def)
  have "push_write None True 6 [5, 6] (stalled_stream b2 0) = PushStored (stalled_stream b3 6)"
    using b3 by (simp add: push_write_def stalled_stream_def)
  then obtain s3 where s3: "cl_push_wake ?J ''s'' 6 [5, 6] s2 = (None, s3)"
    using s2(2) n by (simp add: cl_push_wake_def Let_def)
  from slow_consumer_ends_process [OF d _ _ v s3, of 40 0] d v s3 show ?thesis
    by (auto simp: clientPingInterval_def clientPingTimeout_def)
qed

end
