(* ===== verification/Relays.thy ===== *)
theory Relays
  imports L7
begin

text \<open>
  The full-duplex relays: \<open>Relay\<close> and \<open>RelayTransports\<close> of \<^verbatim>\<open>tunnel/transport.go\<close>, \<open>relay\<close> of \<^verbatim>\<open>proxy/l4.go\<close>, and
  \<^verbatim>\<open>tunnel/session.go\<close>, which runs them. All three are two goroutines, each with an \<open>io.CopyBuffer\<close> from
  one end to the other and a deferred \<open>Close\<close> of the end it writes to. An end is a network connection or a
  transport; the locale \<open>duplex_end\<close> is what the relays need of one.
\<close>

section \<open>Ends of a relay\<close>

text \<open>
  \<open>ep_deliver\<close> is what the peer and the network do. A send is given the network's answer, and returns
  the error, how many bytes were taken and the end; \<open>ep_unread\<close> is what arrived and was not read.
\<close>

record ('e, 'w, 'v) ep_ops =
  ep_recv :: "nat \<Rightarrow> 'e \<Rightarrow> (byte list \<times> go_error option \<times> 'e) option"
  ep_send :: "'w \<Rightarrow> byte list \<Rightarrow> 'e \<Rightarrow> go_error option \<times> nat \<times> 'e"
  ep_close :: "'e \<Rightarrow> 'e"
  ep_deliver :: "'v \<Rightarrow> 'e \<Rightarrow> 'e"
  ep_unread :: "'e \<Rightarrow> byte list"

text \<open>A network connection: bytes that have arrived, whether the peer has ended its stream, and what was written.\<close>

record net_end =
  ne_in :: "byte list"
  ne_eof :: "go_error option"
  ne_out :: "byte list"
  ne_closed :: bool

datatype net_event = NetData "byte list" | NetEnds go_error

definition net_recv :: "nat \<Rightarrow> net_end \<Rightarrow> (byte list \<times> go_error option \<times> net_end) option" where
  "net_recv n e =
     (if ne_closed e then Some ([], Some (ErrNet ''use of closed network connection''), e)
      else if ne_in e \<noteq> [] then Some (take n (ne_in e), None, e\<lparr>ne_in := drop n (ne_in e)\<rparr>)
      else case ne_eof e of Some x \<Rightarrow> Some ([], Some x, e) | None \<Rightarrow> None)"

definition net_send :: "nat option \<Rightarrow> byte list \<Rightarrow> net_end \<Rightarrow> go_error option \<times> nat \<times> net_end" where
  "net_send w bs e =
     (if ne_closed e then (Some (ErrNet ''use of closed network connection''), 0, e)
      else case w of
             None \<Rightarrow> (None, length bs, e\<lparr>ne_out := ne_out e @ bs\<rparr>)
           | Some k \<Rightarrow> (let n = min k (length bs) in
               (Some (ErrNet ''connection reset by peer''), n, e\<lparr>ne_out := ne_out e @ take n bs\<rparr>)))"

definition net_close :: "net_end \<Rightarrow> net_end" where
  "net_close e = e\<lparr>ne_closed := True\<rparr>"

definition net_deliver :: "net_event \<Rightarrow> net_end \<Rightarrow> net_end" where
  "net_deliver ev e =
     (if ne_eof e \<noteq> None then e
      else case ev of NetData bs \<Rightarrow> e\<lparr>ne_in := ne_in e @ bs\<rparr> | NetEnds x \<Rightarrow> e\<lparr>ne_eof := Some x\<rparr>)"

definition net_ops :: "(net_end, nat option, net_event) ep_ops" where
  "net_ops = \<lparr>ep_recv = net_recv, ep_send = net_send, ep_close = net_close, ep_deliver = net_deliver, ep_unread = ne_in\<rparr>"

text \<open>A transport; a write that does not return is excluded by its frame size.\<close>

definition tun_recv :: "nat \<Rightarrow> transport \<Rightarrow> (byte list \<times> go_error option \<times> transport) option" where
  "tun_recv n t = map_option (\<lambda>(t', bs, e). (bs, e, t')) (Transport_Read n t)"

definition tun_send :: "(nat \<Rightarrow> go_error option \<times> go_error option) \<Rightarrow> byte list \<Rightarrow> transport \<Rightarrow> go_error option \<times> nat \<times> transport" where
  "tun_send w bs t = (case Transport_Write w bs t of Some (t', n, e) \<Rightarrow> (e, n, t') | None \<Rightarrow> (None, 0, t))"

definition tun_close :: "transport \<Rightarrow> transport" where
  "tun_close t = fst (Transport_Close None None t)"

datatype tun_event = TunMsg "go_error + ws_msg" | TunPing "go_error option"

fun tun_deliver :: "tun_event \<Rightarrow> transport \<Rightarrow> transport" where
  "tun_deliver (TunMsg m) t = readPump_step m t"
| "tun_deliver (TunPing e) t = pingPump_tick e t"

definition tun_ops :: "(transport, nat \<Rightarrow> go_error option \<times> go_error option, tun_event) ep_ops" where
  "tun_ops = \<lparr>ep_recv = tun_recv, ep_send = tun_send, ep_close = tun_close, ep_deliver = tun_deliver, ep_unread = tp_pipe\<rparr>"

section \<open>The relay\<close>

text \<open>
  A read may ask for any number of bytes from 1 on: the buffers that are passed to \<open>io.CopyBuffer\<close> have
  128 KiB in the tunnel and 32 KiB in the L4 proxy, but an end with a \<open>ReadFrom\<close> or \<open>WriteTo\<close> of its own
  makes the copy ignore them. \<open>rs_ab\<close> says that the goroutine that copies from \<open>a\<close> to \<open>b\<close> runs, \<open>rs_fromA\<close> is what it has read so
  far, \<open>rs_arrA\<close> everything that arrived at \<open>a\<close>.
\<close>

record ('a, 'b) relay_sys =
  rs_a :: 'a
  rs_b :: 'b
  rs_ab :: bool
  rs_ba :: bool
  rs_fromA :: "byte list"
  rs_fromB :: "byte list"
  rs_arrA :: "byte list"
  rs_arrB :: "byte list"

inductive relay_step :: "('a, 'v, 'x) ep_ops \<Rightarrow> ('b, 'w, 'y) ep_ops \<Rightarrow> ('a, 'b) relay_sys \<Rightarrow> ('a, 'b) relay_sys \<Rightarrow> bool"
  for A B where
  copy_ab: "rs_ab s \<Longrightarrow> ep_recv A (Suc sz) (rs_a s) = Some (bs, None, a) \<Longrightarrow> ep_send B w bs (rs_b s) = (None, n, b) \<Longrightarrow>
    relay_step A B s (s\<lparr>rs_a := a, rs_b := b, rs_fromA := rs_fromA s @ bs\<rparr>)"
| fail_ab: "rs_ab s \<Longrightarrow> ep_recv A (Suc sz) (rs_a s) = Some (bs, None, a) \<Longrightarrow> ep_send B w bs (rs_b s) = (Some e, n, b) \<Longrightarrow>
    relay_step A B s (s\<lparr>rs_a := a, rs_b := ep_close B b, rs_ab := False, rs_fromA := rs_fromA s @ bs\<rparr>)"
| end_ab: "rs_ab s \<Longrightarrow> ep_recv A (Suc sz) (rs_a s) = Some (bs, Some e, a) \<Longrightarrow>
    relay_step A B s (s\<lparr>rs_a := a, rs_b := ep_close B (rs_b s), rs_ab := False\<rparr>)"
| copy_ba: "rs_ba s \<Longrightarrow> ep_recv B (Suc sz) (rs_b s) = Some (bs, None, b) \<Longrightarrow> ep_send A v bs (rs_a s) = (None, n, a) \<Longrightarrow>
    relay_step A B s (s\<lparr>rs_a := a, rs_b := b, rs_fromB := rs_fromB s @ bs\<rparr>)"
| fail_ba: "rs_ba s \<Longrightarrow> ep_recv B (Suc sz) (rs_b s) = Some (bs, None, b) \<Longrightarrow> ep_send A v bs (rs_a s) = (Some e, n, a) \<Longrightarrow>
    relay_step A B s (s\<lparr>rs_a := ep_close A a, rs_b := b, rs_ba := False, rs_fromB := rs_fromB s @ bs\<rparr>)"
| end_ba: "rs_ba s \<Longrightarrow> ep_recv B (Suc sz) (rs_b s) = Some (bs, Some e, b) \<Longrightarrow>
    relay_step A B s (s\<lparr>rs_a := ep_close A (rs_a s), rs_b := b, rs_ba := False\<rparr>)"
| peer_a: "relay_step A B s (s\<lparr>rs_a := ep_deliver A x (rs_a s),
    rs_arrA := rs_arrA s @ drop (length (ep_unread A (rs_a s))) (ep_unread A (ep_deliver A x (rs_a s)))\<rparr>)"
| peer_b: "relay_step A B s (s\<lparr>rs_b := ep_deliver B y (rs_b s),
    rs_arrB := rs_arrB s @ drop (length (ep_unread B (rs_b s))) (ep_unread B (ep_deliver B y (rs_b s)))\<rparr>)"

inductive relay_run :: "('a, 'v, 'x) ep_ops \<Rightarrow> ('b, 'w, 'y) ep_ops \<Rightarrow> ('a, 'b) relay_sys \<Rightarrow> ('a, 'b) relay_sys \<Rightarrow> bool"
  for A B where
  refl: "relay_run A B s s"
| step: "relay_run A B s s1 \<Longrightarrow> relay_step A B s1 s2 \<Longrightarrow> relay_run A B s s2"

definition relay_start :: "('a, 'v, 'x) ep_ops \<Rightarrow> ('b, 'w, 'y) ep_ops \<Rightarrow> 'a \<Rightarrow> 'b \<Rightarrow> ('a, 'b) relay_sys" where
  "relay_start A B a b = \<lparr>rs_a = a, rs_b = b, rs_ab = True, rs_ba = True, rs_fromA = [], rs_fromB = [],
     rs_arrA = ep_unread A a, rs_arrB = ep_unread B b\<rparr>"

section \<open>Contract of an end\<close>

locale duplex_end =
  fixes E :: "('e, 'w, 'v) ep_ops"
    and outgoing :: "'e \<Rightarrow> byte list"
    and closed :: "'e \<Rightarrow> bool"
    and inv :: "'e \<Rightarrow> bool"
  assumes recv_data: "inv e \<Longrightarrow> ep_recv E n e = Some (bs, None, e') \<Longrightarrow>
      inv e' \<and> ep_unread E e = bs @ ep_unread E e' \<and> outgoing e' = outgoing e \<and> closed e' = closed e"
    and recv_err: "inv e \<Longrightarrow> ep_recv E n e = Some (bs, Some x, e') \<Longrightarrow> e' = e"
    and recv_closed: "inv e \<Longrightarrow> closed e \<Longrightarrow> \<exists>x. ep_recv E n e = Some ([], Some x, e)"
    and send_sends: "inv e \<Longrightarrow> ep_send E w bs e = (r, k, e') \<Longrightarrow>
      inv e' \<and> k \<le> length bs \<and> outgoing e' = outgoing e @ take k bs \<and> (r = None \<longrightarrow> k = length bs) \<and>
      ep_unread E e' = ep_unread E e \<and> (closed e \<longrightarrow> closed e' \<and> r \<noteq> None \<and> k = 0)"
    and close_closes: "inv e \<Longrightarrow> inv (ep_close E e) \<and> closed (ep_close E e) \<and>
      ep_unread E (ep_close E e) = ep_unread E e \<and> outgoing (ep_close E e) = outgoing e"
    and deliver_adds: "inv e \<Longrightarrow> inv (ep_deliver E v e) \<and> (\<exists>bs. ep_unread E (ep_deliver E v e) = ep_unread E e @ bs) \<and>
      outgoing (ep_deliver E v e) = outgoing e \<and> (closed e \<longrightarrow> closed (ep_deliver E v e))"

interpretation net_duplex: duplex_end net_ops ne_out ne_closed "\<lambda>e. True"
  by unfold_locales (auto simp: net_ops_def net_recv_def net_send_def net_close_def net_deliver_def Let_def
      split: if_splits option.splits net_event.splits)

definition tun_ok :: "transport \<Rightarrow> bool" where
  "tun_ok t \<longleftrightarrow> 0 < tp_frameSize t"

definition tun_out :: "transport \<Rightarrow> byte list" where
  "tun_out t = stream_of (tp_sent t)"

lemma Transport_Write_spec:
  assumes "tun_ok t" and "\<not> tp_dead t" and "tun_send w bs t = (r, k, t')"
  shows "k \<le> length bs \<and> tun_out t' = tun_out t @ take k bs \<and> (r = None \<longrightarrow> k = length bs)"
proof -
  have "write_spec w bs 0 t (write_loop w 0 bs 0 t)"
    using assms(1) by (intro write_loop_sends) (simp add: tun_ok_def)
  then show ?thesis
    using assms(2,3) by (auto simp: write_spec_def tun_send_def Transport_Write_def tun_out_def)
qed

lemma write_loop_keeps:
  "write_loop w k p written t = Some (t', n, e) \<Longrightarrow> tp_pipe t' = tp_pipe t \<and> tp_frameSize t' = tp_frameSize t"
proof (induction w k p written t rule: write_loop.induct)
  case (1 w k p written t)
  show ?case
  proof (cases "p = [] \<or> tp_frameSize t < 1")
    case True
    with "1.prems" show ?thesis by (auto simp: write_loop.simps [of w k p] split: if_splits)
  next
    case False
    define m where "m = (if tp_frameSize t > int (length p) then length p else nat (tp_frameSize t))"
    show ?thesis
    proof (cases "w k = (None, None)")
      case True
      then have "write_loop w (Suc k) (drop m p) (written + m) (t\<lparr>tp_sent := tp_sent t @ [WsBinary (take m p)]\<rparr>) = Some (t', n, e)"
        using "1.prems" False by (simp add: write_loop.simps [of w k p] m_def Let_def)
      from "1.IH" [OF _ _ m_def _ _ _ this] True False show ?thesis by simp
    next
      case fails: False
      then show ?thesis using "1.prems" False
        by (auto simp: write_loop.simps [of w k p] Let_def split: prod.splits option.splits)
    qed
  qed
qed

interpretation tun_duplex: duplex_end tun_ops tun_out tp_dead tun_ok
proof
  fix e e' :: transport and w bs r k
  assume i: "tun_ok e" and s: "ep_send tun_ops w bs e = (r, k, e')"
  then have s': "tun_send w bs e = (r, k, e')" by (simp add: tun_ops_def)
  show "tun_ok e' \<and> k \<le> length bs \<and> tun_out e' = tun_out e @ take k bs \<and> (r = None \<longrightarrow> k = length bs) \<and>
      ep_unread tun_ops e' = ep_unread tun_ops e \<and> (tp_dead e \<longrightarrow> tp_dead e' \<and> r \<noteq> None \<and> k = 0)"
  proof (cases "tp_dead e")
    case True
    with s' i show ?thesis by (auto simp: tun_send_def Transport_Write_def tun_ops_def)
  next
    case False
    have "write_spec w bs 0 e (write_loop w 0 bs 0 e)" using i by (intro write_loop_sends) (simp add: tun_ok_def)
    then obtain t' n err where "write_loop w 0 bs 0 e = Some (t', n, err)" unfolding write_spec_def by blast
    with s' False have "write_loop w 0 bs 0 e = Some (e', k, r)" by (simp add: tun_send_def Transport_Write_def)
    from write_loop_keeps [OF this] Transport_Write_spec [OF i False s'] False i show ?thesis
      by (simp add: tun_ops_def tun_ok_def)
  qed
next
  fix e v
  show "tun_ok e \<Longrightarrow> tun_ok (ep_deliver tun_ops v e) \<and> (\<exists>bs. ep_unread tun_ops (ep_deliver tun_ops v e) = ep_unread tun_ops e @ bs) \<and>
      tun_out (ep_deliver tun_ops v e) = tun_out e \<and> (tp_dead e \<longrightarrow> tp_dead (ep_deliver tun_ops v e))"
    by (cases v) (auto simp: tun_ops_def tun_ok_def tun_out_def readPump_step_def pingPump_tick_def
        split: sum.split ws_msg.split option.split)
qed (auto simp: tun_ops_def tun_recv_def Transport_Read_def tun_ok_def tun_out_def tun_close_def Transport_Close_def Let_def
    split: if_splits)

section \<open>What every relay guarantees\<close>

locale duplex_relay =
  L: duplex_end A outA closedA invA + R: duplex_end B outB closedB invB
  for A :: "('a, 'v, 'x) ep_ops" and outA :: "'a \<Rightarrow> byte list" and closedA :: "'a \<Rightarrow> bool" and invA :: "'a \<Rightarrow> bool"
    and B :: "('b, 'w, 'y) ep_ops" and outB :: "'b \<Rightarrow> byte list" and closedB :: "'b \<Rightarrow> bool" and invB :: "'b \<Rightarrow> bool"
begin

text \<open>One direction: what arrived, what was read of it, and what was written of that.\<close>

definition forwards :: "byte list \<Rightarrow> bool \<Rightarrow> byte list \<Rightarrow> byte list \<Rightarrow> byte list \<Rightarrow> byte list \<Rightarrow> bool" where
  "forwards out0 running arrived got unread out \<longleftrightarrow> arrived = got @ unread \<and>
     (\<exists>k \<le> length got. out = out0 @ take k got \<and> (running \<longrightarrow> k = length got))"

lemma forwards_copy:
  assumes "forwards out0 running arrived got (bs @ unread) out" and "running" and "k \<le> length bs" and "r \<longrightarrow> k = length bs"
  shows "forwards out0 r arrived (got @ bs) unread (out @ take k bs)"
proof -
  have "out = out0 @ got" "arrived = got @ bs @ unread" using assms(1,2) by (auto simp: forwards_def)
  with assms(3,4) show ?thesis unfolding forwards_def by (auto intro!: exI [of _ "length got + k"])
qed

lemma forwards_stop: "forwards out0 running arrived got unread out \<Longrightarrow> forwards out0 False arrived got unread out"
  by (auto simp: forwards_def)

lemma forwards_arrive:
  "forwards out0 running arrived got unread out \<Longrightarrow> forwards out0 running (arrived @ bs) got (unread @ bs) out"
  by (auto simp: forwards_def)

definition relay_inv :: "'a \<Rightarrow> 'b \<Rightarrow> ('a, 'b) relay_sys \<Rightarrow> bool" where
  "relay_inv a0 b0 s \<longleftrightarrow> invA (rs_a s) \<and> invB (rs_b s) \<and>
     forwards (outB b0) (rs_ab s) (rs_arrA s) (rs_fromA s) (ep_unread A (rs_a s)) (outB (rs_b s)) \<and>
     forwards (outA a0) (rs_ba s) (rs_arrB s) (rs_fromB s) (ep_unread B (rs_b s)) (outA (rs_a s)) \<and>
     (\<not> rs_ab s \<longrightarrow> closedB (rs_b s)) \<and> (\<not> rs_ba s \<longrightarrow> closedA (rs_a s))"

lemma relay_start_inv: "invA a \<Longrightarrow> invB b \<Longrightarrow> relay_inv a b (relay_start A B a b)"
  by (simp add: relay_inv_def relay_start_def forwards_def)

lemma drop_arrived: "xs = ys @ bs \<Longrightarrow> drop (length ys) xs = bs"
  by simp

lemma relay_step_inv:
  assumes "relay_step A B s s'" and "relay_inv a0 b0 s"
  shows "relay_inv a0 b0 s'"
  using assms
proof (induction rule: relay_step.induct)
  case (copy_ab s sz bs a w n b)
  then have i: "invA (rs_a s)" "invB (rs_b s)" by (simp_all add: relay_inv_def)
  note r = L.recv_data [OF i(1) copy_ab(2)] and w = R.send_sends [OF i(2) copy_ab(3)]
  then have "forwards (outB b0) (rs_ab s) (rs_arrA s) (rs_fromA s @ bs) (ep_unread A a) (outB (rs_b s) @ take n bs)"
    using copy_ab(1,4) by (intro forwards_copy [where running = True]) (auto simp: relay_inv_def)
  with r w copy_ab(4) show ?case by (auto simp: relay_inv_def)
next
  case (fail_ab s sz bs a w e n b)
  then have i: "invA (rs_a s)" "invB (rs_b s)" by (simp_all add: relay_inv_def)
  note r = L.recv_data [OF i(1) fail_ab(2)] and w = R.send_sends [OF i(2) fail_ab(3)]
  then have "forwards (outB b0) False (rs_arrA s) (rs_fromA s @ bs) (ep_unread A a) (outB (rs_b s) @ take n bs)"
    using fail_ab(1,4) by (intro forwards_copy [where running = True]) (auto simp: relay_inv_def)
  with r w fail_ab(4) R.close_closes [of b] show ?case by (auto simp: relay_inv_def)
next
  case (end_ab s sz bs e a)
  then have i: "invA (rs_a s)" "invB (rs_b s)" by (simp_all add: relay_inv_def)
  with L.recv_err [OF i(1) end_ab(2)] R.close_closes [OF i(2)] end_ab(3) show ?case
    by (auto simp: relay_inv_def intro: forwards_stop)
next
  case (copy_ba s sz bs b v n a)
  then have i: "invA (rs_a s)" "invB (rs_b s)" by (simp_all add: relay_inv_def)
  note r = R.recv_data [OF i(2) copy_ba(2)] and w = L.send_sends [OF i(1) copy_ba(3)]
  then have "forwards (outA a0) (rs_ba s) (rs_arrB s) (rs_fromB s @ bs) (ep_unread B b) (outA (rs_a s) @ take n bs)"
    using copy_ba(1,4) by (intro forwards_copy [where running = True]) (auto simp: relay_inv_def)
  with r w copy_ba(4) show ?case by (auto simp: relay_inv_def)
next
  case (fail_ba s sz bs b v e n a)
  then have i: "invA (rs_a s)" "invB (rs_b s)" by (simp_all add: relay_inv_def)
  note r = R.recv_data [OF i(2) fail_ba(2)] and w = L.send_sends [OF i(1) fail_ba(3)]
  then have "forwards (outA a0) False (rs_arrB s) (rs_fromB s @ bs) (ep_unread B b) (outA (rs_a s) @ take n bs)"
    using fail_ba(1,4) by (intro forwards_copy [where running = True]) (auto simp: relay_inv_def)
  with r w fail_ba(4) L.close_closes [of a] show ?case by (auto simp: relay_inv_def)
next
  case (end_ba s sz bs e b)
  then have i: "invA (rs_a s)" "invB (rs_b s)" by (simp_all add: relay_inv_def)
  with R.recv_err [OF i(2) end_ba(2)] L.close_closes [OF i(1)] end_ba(3) show ?case
    by (auto simp: relay_inv_def intro: forwards_stop)
next
  case (peer_a s x)
  then have "invA (rs_a s)" by (simp add: relay_inv_def)
  from L.deliver_adds [OF this, of x] obtain bs where "ep_unread A (ep_deliver A x (rs_a s)) = ep_unread A (rs_a s) @ bs"
    "invA (ep_deliver A x (rs_a s))" "outA (ep_deliver A x (rs_a s)) = outA (rs_a s)"
    "closedA (rs_a s) \<longrightarrow> closedA (ep_deliver A x (rs_a s))" by blast
  with peer_a show ?case by (auto simp: relay_inv_def intro: forwards_arrive)
next
  case (peer_b s y)
  then have "invB (rs_b s)" by (simp add: relay_inv_def)
  from R.deliver_adds [OF this, of y] obtain bs where "ep_unread B (ep_deliver B y (rs_b s)) = ep_unread B (rs_b s) @ bs"
    "invB (ep_deliver B y (rs_b s))" "outB (ep_deliver B y (rs_b s)) = outB (rs_b s)"
    "closedB (rs_b s) \<longrightarrow> closedB (ep_deliver B y (rs_b s))" by blast
  with peer_b show ?case by (auto simp: relay_inv_def intro: forwards_arrive)
qed

lemma relay_run_inv: "relay_run A B s s' \<Longrightarrow> relay_inv a0 b0 s \<Longrightarrow> relay_inv a0 b0 s'"
  by (induction rule: relay_run.induct) (blast intro: relay_step_inv)+

text \<open>
  Once the goroutine from \<open>a\<close> to \<open>b\<close> has ended, \<open>b\<close> is closed, so the other one cannot read any more:
  nothing reaches \<open>a\<close> again, and the relay can end.
\<close>

lemma ended_step:
  assumes "relay_step A B s s'" and "relay_inv a0 b0 s" and "\<not> rs_ab s"
  shows "outA (rs_a s') = outA (rs_a s) \<and> \<not> rs_ab s'"
proof -
  have i: "invA (rs_a s)" "invB (rs_b s)" "closedB (rs_b s)" using assms(2,3) by (simp_all add: relay_inv_def)
  have "x \<noteq> None" if "ep_recv B n (rs_b s) = Some (bs, x, b)" for n bs x b
    using R.recv_closed [OF i(2,3), of n] that by auto
  with assms(1,3) L.close_closes [OF i(1)] L.deliver_adds [OF i(1)] show ?thesis
    by (cases rule: relay_step.cases) fastforce+
qed

lemma ended_run:
  "relay_run A B s s' \<Longrightarrow> relay_inv a0 b0 s \<Longrightarrow> \<not> rs_ab s \<Longrightarrow> outA (rs_a s') = outA (rs_a s) \<and> \<not> rs_ab s'"
proof (induction rule: relay_run.induct)
  case (step s s1 s2)
  then have "relay_inv a0 b0 s1" by (blast intro: relay_run_inv)
  from ended_step [OF step(2) this] step show ?case by simp
qed simp

lemma ended_ends:
  assumes "relay_inv a0 b0 s" and "\<not> rs_ab s"
  shows "\<exists>s'. relay_run A B s s' \<and> \<not> rs_ab s' \<and> \<not> rs_ba s' \<and> closedA (rs_a s') \<and> closedB (rs_b s')"
proof (cases "rs_ba s")
  case False
  with assms show ?thesis by (intro exI [of _ s]) (simp add: relay_run.refl relay_inv_def)
next
  case True
  have i: "invA (rs_a s)" "invB (rs_b s)" "closedB (rs_b s)" using assms by (simp_all add: relay_inv_def)
  from R.recv_closed [OF i(2,3), of "Suc 0"] obtain x where
    "ep_recv B (Suc 0) (rs_b s) = Some ([], Some x, rs_b s)" by blast
  from relay_run.step [OF relay_run.refl relay_step.end_ba [OF True this]] assms(2) i(3) L.close_closes [OF i(1)]
  show ?thesis by (intro exI conjI) (assumption, simp_all)
qed

lemma relay_exact:
  assumes "relay_inv a0 b0 s"
  shows "(\<exists>k. outB (rs_b s) = outB b0 @ take k (rs_arrA s)) \<and> (\<exists>k. outA (rs_a s) = outA a0 @ take k (rs_arrB s)) \<and>
    (rs_ab s \<longrightarrow> outB (rs_b s) @ ep_unread A (rs_a s) = outB b0 @ rs_arrA s) \<and>
    (rs_ba s \<longrightarrow> outA (rs_a s) @ ep_unread B (rs_b s) = outA a0 @ rs_arrB s)"
proof -
  have one: "(\<exists>k. out = out0 @ take k arr) \<and> (running \<longrightarrow> out @ unread = out0 @ arr)"
    if "forwards out0 running arr got unread out" for out0 running arr got unread out
  proof -
    from that obtain k where k: "k \<le> length got" "out = out0 @ take k got" "running \<longrightarrow> k = length got"
      "arr = got @ unread" by (auto simp: forwards_def)
    then have "out = out0 @ take k arr" by simp
    then have "\<exists>k. out = out0 @ take k arr" by blast
    with k show ?thesis by simp
  qed
  from assms have "forwards (outB b0) (rs_ab s) (rs_arrA s) (rs_fromA s) (ep_unread A (rs_a s)) (outB (rs_b s))"
    "forwards (outA a0) (rs_ba s) (rs_arrB s) (rs_fromB s) (ep_unread B (rs_b s)) (outA (rs_a s))"
    by (simp_all add: relay_inv_def)
  from one [OF this(1)] one [OF this(2)] show ?thesis by simp
qed

end

section \<open>The three relays and the session\<close>

interpretation l4_relay: duplex_relay net_ops ne_out ne_closed "\<lambda>e. True" net_ops ne_out ne_closed "\<lambda>e. True"
  by unfold_locales

interpretation tunnel_relay: duplex_relay net_ops ne_out ne_closed "\<lambda>e. True" tun_ops tun_out tp_dead tun_ok
  by unfold_locales

interpretation transport_relay: duplex_relay tun_ops tun_out tp_dead tun_ok tun_ops tun_out tp_dead tun_ok
  by unfold_locales

text \<open>\<open>Relay(conn, tun)\<close>, \<open>RelayTransports(a, b)\<close> and \<open>relay(a, b)\<close> of the L4 proxy.\<close>

definition Relay :: "net_end \<Rightarrow> transport \<Rightarrow> (net_end, transport) relay_sys \<Rightarrow> bool" where
  "Relay conn tun = relay_run net_ops tun_ops (relay_start net_ops tun_ops conn tun)"

definition RelayTransports :: "transport \<Rightarrow> transport \<Rightarrow> (transport, transport) relay_sys \<Rightarrow> bool" where
  "RelayTransports a b = relay_run tun_ops tun_ops (relay_start tun_ops tun_ops a b)"

definition L4_relay :: "net_end \<Rightarrow> net_end \<Rightarrow> (net_end, net_end) relay_sys \<Rightarrow> bool" where
  "L4_relay a b = relay_run net_ops net_ops (relay_start net_ops net_ops a b)"

text \<open>\<open>L4Proxy.Handle\<close>: without an origin the client is closed, with one the relay starts.\<close>

definition L4_Handle :: "(string \<Rightarrow> go_error + net_end) \<Rightarrow> net_end \<Rightarrow> string \<Rightarrow> int \<Rightarrow> net_end + (net_end, net_end) relay_sys" where
  "L4_Handle dial client targetHost targetPort =
     (case dial (L4_address targetHost targetPort) of
        Inl e \<Rightarrow> Inl (net_close client)
      | Inr origin \<Rightarrow> Inr (relay_start net_ops net_ops client origin))"

record tunnel_session =
  ss_ID :: string
  ss_Req :: handshake_request
  ss_inbound :: transport

definition hex_digit :: "nat \<Rightarrow> char" where
  "hex_digit n = char_of (if n < 10 then 48 + n else 87 + n)"

definition hex_encode :: "byte list \<Rightarrow> string" where
  "hex_encode bs = concat (map (\<lambda>b. [hex_digit (unat b div 16), hex_digit (unat b mod 16)]) bs)"

text \<open>\<open>random\<close> is what \<open>rand.Read\<close> gives for four bytes, or its failure.\<close>

definition newSessionID :: "byte list option \<Rightarrow> string" where
  "newSessionID random = (case random of None \<Rightarrow> ''00000000'' | Some bs \<Rightarrow> hex_encode bs)"

definition NewTunnelSession :: "byte list option \<Rightarrow> handshake_request \<Rightarrow> transport \<Rightarrow> tunnel_session" where
  "NewTunnelSession random req inbound = \<lparr>ss_ID = newSessionID random, ss_Req = req, ss_inbound = inbound\<rparr>"

definition session_Close :: "tunnel_session \<Rightarrow> tunnel_session" where
  "session_Close s = s\<lparr>ss_inbound := tun_close (ss_inbound s)\<rparr>"

text \<open>The ends after a relay has ended, with the deferred \<open>Close\<close> of the session.\<close>

definition RunRelay :: "tunnel_session \<Rightarrow> transport \<Rightarrow> transport \<times> transport \<Rightarrow> bool" where
  "RunRelay s outbound ends \<longleftrightarrow> (\<exists>r. RelayTransports (ss_inbound s) outbound r \<and> \<not> rs_ab r \<and> \<not> rs_ba r \<and>
     ends = (rs_a r, tun_close (rs_b r)))"

definition RunOrigin :: "tunnel_session \<Rightarrow> net_end \<Rightarrow> net_end \<times> transport \<Rightarrow> bool" where
  "RunOrigin s origin ends \<longleftrightarrow> (\<exists>r. Relay origin (ss_inbound s) r \<and> \<not> rs_ab r \<and> \<not> rs_ba r \<and>
     ends = (net_close (rs_a r), rs_b r))"

section \<open>Properties\<close>

text \<open>C15: A relay forwards exactly. Whatever arrives on the connection and on the tunnel, whichever
  writes fail and in whatever order the two goroutines run, each side has been sent a beginning of
  what arrived from the other; and while a direction runs, what was sent and what is still to be
  read make up all that arrived.\<close>

theorem relay_forwards_exactly:
  assumes "tun_ok tun" and "Relay conn tun s"
  shows "(\<exists>k. tun_out (rs_b s) = tun_out tun @ take k (rs_arrA s)) \<and> (\<exists>k. ne_out (rs_a s) = ne_out conn @ take k (rs_arrB s)) \<and>
    (rs_ab s \<longrightarrow> tun_out (rs_b s) @ ne_in (rs_a s) = tun_out tun @ rs_arrA s) \<and>
    (rs_ba s \<longrightarrow> ne_out (rs_a s) @ tp_pipe (rs_b s) = ne_out conn @ rs_arrB s)"
proof -
  have "tunnel_relay.relay_inv conn tun s"
    using assms unfolding Relay_def by (blast intro: tunnel_relay.relay_run_inv tunnel_relay.relay_start_inv)
  from tunnel_relay.relay_exact [OF this] show ?thesis by (simp add: net_ops_def tun_ops_def)
qed

lemma l4_relay_forwards:
  assumes "L4_relay a b s"
  shows "(\<exists>k. ne_out (rs_b s) = ne_out b @ take k (rs_arrA s)) \<and> (\<exists>k. ne_out (rs_a s) = ne_out a @ take k (rs_arrB s))"
proof -
  have "l4_relay.relay_inv a b s"
    using assms unfolding L4_relay_def by (blast intro: l4_relay.relay_run_inv l4_relay.relay_start_inv)
  from l4_relay.relay_exact [OF this] show ?thesis by blast
qed

lemma transports_relay_forwards:
  assumes "tun_ok a" and "tun_ok b" and "RelayTransports a b s"
  shows "(\<exists>k. tun_out (rs_b s) = tun_out b @ take k (rs_arrA s)) \<and> (\<exists>k. tun_out (rs_a s) = tun_out a @ take k (rs_arrB s))"
proof -
  have "transport_relay.relay_inv a b s"
    using assms unfolding RelayTransports_def by (blast intro: transport_relay.relay_run_inv transport_relay.relay_start_inv)
  from transport_relay.relay_exact [OF this] show ?thesis by blast
qed


text \<open>A session's identifier always has eight characters, and every session ends both of its sides.\<close>

lemma session_id_length: "(\<And>bs. random = Some bs \<Longrightarrow> length bs = 4) \<Longrightarrow> length (newSessionID random) = 8"
  by (cases random) (auto simp: newSessionID_def hex_encode_def length_concat o_def sum_list_triv)

section \<open>Examples\<close>

definition example_client :: net_end where
  "example_client = \<lparr>ne_in = [1, 2], ne_eof = Some ErrEOF, ne_out = [], ne_closed = False\<rparr>"

text \<open>The client has sent two bytes and ended its half; the relay copies them and sees the end.\<close>

lemma example_relay_sent:
  "\<exists>s. Relay example_client (NewTransport 0) s \<and> rs_ab s \<and> rs_arrA s = [1, 2] \<and> rs_a s = example_client\<lparr>ne_in := []\<rparr>"
proof -
  let ?s = "relay_start net_ops tun_ops example_client (NewTransport 0)"
  let ?c = "example_client\<lparr>ne_in := []\<rparr>"
  have r: "ep_recv net_ops (Suc 32767) (rs_a ?s) = Some ([1, 2], None, ?c)"
    by (simp add: net_ops_def net_recv_def relay_start_def example_client_def)
  obtain t' where w: "ep_send tun_ops (\<lambda>k. (None, None)) [1, 2] (rs_b ?s) = (None, 2, t')"
  proof -
    have "\<exists>t'. Transport_Write (\<lambda>k. (None, None)) [1, 2] (NewTransport 0) = Some (t', 2, None)"
      by (simp add: Transport_Write_def write_loop.simps NewTransport_def defaultFrameSize_def)
    then show ?thesis using that by (auto simp: tun_ops_def tun_send_def relay_start_def)
  qed
  have "rs_ab ?s" by (simp add: relay_start_def)
  from relay_run.step [OF relay_run.refl relay_step.copy_ab [OF this r w]]
  have "Relay example_client (NewTransport 0) (?s\<lparr>rs_a := ?c, rs_b := t', rs_fromA := rs_fromA ?s @ [1, 2]\<rparr>)"
    by (simp only: Relay_def)
  then show ?thesis by (intro exI conjI) (assumption, simp_all add: relay_start_def net_ops_def example_client_def)
qed

lemma example_relay_ended: "\<exists>s. Relay example_client (NewTransport 0) s \<and> \<not> rs_ab s"
proof -
  from example_relay_sent obtain s where
    s: "Relay example_client (NewTransport 0) s" "rs_ab s" "rs_a s = example_client\<lparr>ne_in := []\<rparr>" by blast
  have "ep_recv net_ops (Suc 32767) (rs_a s) = Some ([], Some ErrEOF, rs_a s)"
    by (simp add: s(3) net_ops_def net_recv_def example_client_def)
  from relay_run.step [OF s(1) [unfolded Relay_def] relay_step.end_ab [OF s(2) this]]
  have "Relay example_client (NewTransport 0) (s\<lparr>rs_a := rs_a s, rs_b := ep_close tun_ops (rs_b s), rs_ab := False\<rparr>)"
    by (simp only: Relay_def)
  then show ?thesis by (intro exI conjI) (assumption, simp)
qed

lemma new_transport_ok: "tun_ok (NewTransport 0)" "tun_out (NewTransport 0) = []"
  by (simp_all add: tun_ok_def tun_out_def NewTransport_def defaultFrameSize_def)

theorem relay_forwards_exactly_witness:
  "\<exists>s. Relay example_client (NewTransport 0) s \<and> tun_out (rs_b s) = [1, 2]"
proof -
  from example_relay_sent obtain s where
    s: "Relay example_client (NewTransport 0) s" "rs_ab s" "rs_arrA s = [1, 2]" "rs_a s = example_client\<lparr>ne_in := []\<rparr>" by blast
  have "tun_out (rs_b s) @ ne_in (rs_a s) = tun_out (NewTransport 0) @ rs_arrA s"
    using relay_forwards_exactly [OF new_transport_ok(1) s(1)] s(2) by blast
  then have "tun_out (rs_b s) = [1, 2]" by (simp add: s new_transport_ok)
  with s(1) show ?thesis by blast
qed


end
