(* ===== verification/TestTools.thy ===== *)
theory TestTools
  imports Relays "HOL-Library.Multiset"
begin

text \<open>
  The two test programs, \<^verbatim>\<open>cmd/proxy-test-client\<close> and \<^verbatim>\<open>cmd/proxy-test-server\<close>: the pool of workers that runs the
  client's tests, its statistics, the checks of each test, and the server that answers them. They are what
  the repository tests itself with, so the theorems say what a passed test means.
\<close>

section \<open>The pool of workers\<close>

text \<open>
  The channel of jobs is filled and closed before the workers start; \<open>wp_results\<close> is what they have put
  into the channel of results, which has room for all of them. A worker ends when no job is left.
\<close>

record 'r pool =
  wp_jobs :: "nat list"
  wp_busy :: "nat list"
  wp_idle :: nat
  wp_results :: "(nat \<times> 'r) list"

definition pool_start :: "nat \<Rightarrow> nat \<Rightarrow> 'r pool" where
  "pool_start n conc = \<lparr>wp_jobs = [0..<n], wp_busy = [], wp_idle = conc, wp_results = []\<rparr>"

inductive pool_step :: "'r pool \<Rightarrow> 'r pool \<Rightarrow> bool" where
  take_job: "wp_jobs p = jb # js \<Longrightarrow> wp_idle p = Suc w \<Longrightarrow>
    pool_step p (p\<lparr>wp_jobs := js, wp_busy := jb # wp_busy p, wp_idle := w\<rparr>)"
| finish: "jb \<in> set (wp_busy p) \<Longrightarrow>
    pool_step p (p\<lparr>wp_busy := remove1 jb (wp_busy p), wp_idle := Suc (wp_idle p), wp_results := wp_results p @ [(jb, r)]\<rparr>)"

inductive pool_run :: "nat \<Rightarrow> 'r pool \<Rightarrow> 'r pool \<Rightarrow> bool" where
  pool_begin: "pool_run 0 p p"
| pool_next: "pool_run k p q \<Longrightarrow> pool_step q q' \<Longrightarrow> pool_run (Suc k) p q'"

inductive_cases pool_stepE: "pool_step p p'"

definition pool_inv :: "nat \<Rightarrow> nat \<Rightarrow> nat \<Rightarrow> 'r pool \<Rightarrow> bool" where
  "pool_inv n conc k p \<longleftrightarrow> mset (wp_jobs p) + mset (wp_busy p) + mset (map fst (wp_results p)) = mset [0..<n] \<and>
     length (wp_busy p) + wp_idle p = conc \<and> k + 2 * length (wp_jobs p) + length (wp_busy p) = 2 * n"

lemma pool_step_inv:
  assumes "pool_step p p'" and "pool_inv n conc k p"
  shows "pool_inv n conc (Suc k) p'"
  using assms(1)
proof (cases rule: pool_step.cases)
  case (take_job jb js w)
  with assms(2) show ?thesis by (simp add: pool_inv_def)
next
  case (finish jb r)
  then have l: "length (wp_busy p) = Suc (length (remove1 jb (wp_busy p)))"
    by (simp add: length_remove1) (metis Suc_pred length_pos_if_in_set)
  have m: "mset (wp_busy p) = add_mset jb (mset (remove1 jb (wp_busy p)))" using finish by simp
  from assms(2) have "mset (wp_jobs p) + mset (wp_busy p) + mset (map fst (wp_results p)) = mset [0..<n]"
    "length (wp_busy p) + wp_idle p = conc" "k + 2 * length (wp_jobs p) + length (wp_busy p) = 2 * n"
    by (simp_all add: pool_inv_def)
  then show ?thesis unfolding pool_inv_def finish(1) l m by simp
qed

lemma pool_run_inv: "pool_run k p q \<Longrightarrow> p = pool_start n conc \<Longrightarrow> pool_inv n conc k q"
proof (induction rule: pool_run.induct)
  case (pool_begin p)
  then show ?case by (simp add: pool_inv_def pool_start_def)
qed (blast intro: pool_step_inv)

lemma pool_stuck:
  assumes "pool_inv n conc k p" and "0 < conc" and "\<And>p'. \<not> pool_step p p'"
  shows "wp_jobs p = [] \<and> wp_busy p = []"
proof -
  have b: "wp_busy p = []"
  proof (rule ccontr)
    assume "wp_busy p \<noteq> []"
    then have "hd (wp_busy p) \<in> set (wp_busy p)" by simp
    from pool_step.finish [OF this, of undefined] assms(3) show False by simp
  qed
  with assms(1,2) obtain w where "wp_idle p = Suc w" by (cases "wp_idle p") (auto simp: pool_inv_def)
  with assms(3) b pool_step.take_job [of p _ _ w] show ?thesis by (cases "wp_jobs p") auto
qed

text \<open>
  What the tests make of the results. \<open>runTCPEcho\<close> and \<open>runWSEcho\<close> wait for \<open>n\<close> results and divide by \<open>n\<close>;
  \<open>runHTTPParallel\<close> reads until the workers have ended. A negative \<open>n\<close> is no size for a channel.
\<close>

datatype run_result = RunWaits | RunPanics | RunReturns "go_error option"

definition failures :: "(nat \<times> go_error option) list \<Rightarrow> nat" where
  "failures rs = length (filter (\<lambda>(jb, err). err \<noteq> None) rs)"

definition run_summary :: "string \<Rightarrow> int \<Rightarrow> (nat \<times> go_error option) list \<Rightarrow> go_error option" where
  "run_summary what n rs =
     (if failures rs > 0 then Some (Errorf (''%d / %d '' @ what @ '' failed'') [ArgInt (int (failures rs)), ArgInt n]) else None)"

definition echo_result :: "string \<Rightarrow> int \<Rightarrow> go_error option pool \<Rightarrow> run_result" where
  "echo_result what n p =
     (if n < 0 then RunPanics
      else if length (wp_results p) < nat n then RunWaits
      else if n = 0 then RunPanics
      else RunReturns (run_summary what n (take (nat n) (wp_results p))))"

definition tcp_echo_result :: "int \<Rightarrow> go_error option pool \<Rightarrow> run_result" where
  "tcp_echo_result = echo_result ''connections''"

definition ws_echo_result :: "int \<Rightarrow> go_error option pool \<Rightarrow> run_result" where
  "ws_echo_result = echo_result ''WebSocket connections''"

definition http_parallel_result :: "int \<Rightarrow> nat \<Rightarrow> go_error option pool \<Rightarrow> run_result" where
  "http_parallel_result n conc p =
     (if n < 0 then RunPanics
      else if 0 < conc \<and> (wp_jobs p \<noteq> [] \<or> wp_busy p \<noteq> []) then RunWaits
      else RunReturns (run_summary ''requests'' n (wp_results p)))"

text \<open>\<open>main\<close> raises a number of workers below one to one.\<close>

definition test_conc :: "int \<Rightarrow> int" where
  "test_conc conc = (if conc < 1 then 1 else conc)"

text \<open>C31: A test run tests everything once. However many workers are asked for, a run over \<open>n\<close> jobs takes at
  most \<open>2 n\<close> steps; when it can go no further every job has been done exactly once, no summary waits,
  and each reports success exactly when every job succeeded.\<close>

theorem pool_tests_everything:
  assumes "pool_run k (pool_start (nat n) (nat (test_conc conc))) p" and "0 < n"
  shows "k \<le> 2 * nat n \<and> ((\<forall>p'. \<not> pool_step p p') \<longrightarrow>
    mset (map fst (wp_results p)) = mset [0..<nat n] \<and>
    (\<forall>result \<in> {tcp_echo_result n p, ws_echo_result n p, http_parallel_result n (nat (test_conc conc)) p}.
       result \<noteq> RunWaits \<and> (result = RunReturns None \<longleftrightarrow> (\<forall>(jb, err) \<in> set (wp_results p). err = None))))"
proof (intro conjI impI)
  note i = pool_run_inv [OF assms(1) HOL.refl]
  then show "k \<le> 2 * nat n" by (simp add: pool_inv_def)
  assume "\<forall>p'. \<not> pool_step p p'"
  with pool_stuck [OF i] have e: "wp_jobs p = []" "wp_busy p = []" by (auto simp: test_conc_def)
  with i show m: "mset (map fst (wp_results p)) = mset [0..<nat n]" by (simp add: pool_inv_def)
  then have "length (wp_results p) = nat n" by (metis length_map length_upt diff_zero size_mset)
  with assms(2) e have r: "tcp_echo_result n p = RunReturns (run_summary ''connections'' n (wp_results p))"
    "ws_echo_result n p = RunReturns (run_summary ''WebSocket connections'' n (wp_results p))"
    "http_parallel_result n (nat (test_conc conc)) p = RunReturns (run_summary ''requests'' n (wp_results p))"
    by (simp_all add: tcp_echo_result_def ws_echo_result_def echo_result_def http_parallel_result_def)
  have "run_summary what n rs = None \<longleftrightarrow> (\<forall>(jb, err) \<in> set rs. err = None)" for what rs
    by (auto simp: run_summary_def failures_def filter_empty_conv)
  with r show "\<forall>result \<in> {tcp_echo_result n p, ws_echo_result n p, http_parallel_result n (nat (test_conc conc)) p}.
      result \<noteq> RunWaits \<and> (result = RunReturns None \<longleftrightarrow> (\<forall>(jb, err) \<in> set (wp_results p). err = None))" by simp
qed

text \<open>
  \<open>main\<close>: \<open>run\<close> is what the test of a mode returns for the number of workers.
\<close>

record global_flags =
  gf_addr :: string
  gf_mode :: string
  gf_conc :: int

datatype test_exit = TestUsage string "fmt_arg list" | TestPassed | TestFailed go_error | TestHangs | TestPanics

definition test_modes :: "string list" where
  "test_modes = [''tcp-echo'', ''http-get'', ''http-post'', ''http-hdr'', ''large'', ''slow'', ''ws-echo'', ''ws-latency'', ''bench'']"

definition test_client_main :: "global_flags \<Rightarrow> (string \<Rightarrow> int \<Rightarrow> run_result) \<Rightarrow> test_exit" where
  "test_client_main g run =
     (if gf_addr g = '''' then TestUsage ''ERROR: -addr is required'' []
      else if gf_mode g = '''' then TestUsage ''ERROR: -mode is required'' []
      else if gf_mode g \<notin> set test_modes then TestUsage ''ERROR: unknown mode %q'' [ArgStr (gf_mode g)]
      else (case run (gf_mode g) (test_conc (gf_conc g)) of
              RunWaits \<Rightarrow> TestHangs
            | RunPanics \<Rightarrow> TestPanics
            | RunReturns None \<Rightarrow> TestPassed
            | RunReturns (Some e) \<Rightarrow> TestFailed e))"

section \<open>Latencies\<close>

definition sortDurations :: "int list \<Rightarrow> int list" where
  "sortDurations d = insertion_sort (\<lambda>a b. a < b) d"

definition percentile :: "int list \<Rightarrow> nat \<Rightarrow> int" where
  "percentile d p = (if length d = 0 then 0 else d ! ((length d - 1) * p div 100))"

lemma sortDurations_sort: "sortDurations d = sort d"
  using insertion_sort_is_sort_key [of "\<lambda>x. x" d] by (simp add: sortDurations_def)

text \<open>The printed percentiles are percentiles. On the sorted latencies of a run the \<open>p\<close>-th percentile is
  one of the latencies, at least \<open>p\<close> in a hundred of the others are no larger, it lies between the printed minimum
  and maximum and does not decrease with \<open>p\<close>.\<close>

theorem percentiles_sound:
  assumes "ds \<noteq> []" and "p \<le> q" and "q \<le> 100"
  shows "percentile (sortDurations ds) p \<in> set ds \<and>
    p * (length ds - 1) < 100 * length (filter (\<lambda>d. d \<le> percentile (sortDurations ds) p) ds) \<and>
    Min (set ds) \<le> percentile (sortDurations ds) p \<and>
    percentile (sortDurations ds) p \<le> percentile (sortDurations ds) q \<and> percentile (sortDurations ds) q \<le> Max (set ds)"
proof -
  let ?s = "sort ds" and ?n = "length ds"
  have n: "0 < ?n" using assms(1) by simp
  define i where "i = (?n - 1) * p div 100"
  define j where "j = (?n - 1) * q div 100"
  have v: "percentile (sortDurations ds) p = ?s ! i" "percentile (sortDurations ds) q = ?s ! j"
    using n by (simp_all add: percentile_def sortDurations_sort i_def j_def)
  have ij: "i \<le> j" unfolding i_def j_def by (intro div_le_mono mult_le_mono2 assms(2))
  have "(?n - 1) * q \<le> (?n - 1) * 100" using assms(3) by simp
  then have "j \<le> ?n - 1" unfolding j_def using div_le_mono [of _ "(?n - 1) * 100" 100] by fastforce
  with n have jn: "j < ?n" by linarith
  have mem: "?s ! k \<in> set ds" if "k < ?n" for k using that nth_mem [of k ?s] by simp
  have "length (filter (\<lambda>d. d \<le> ?s ! i) ds) = length (filter (\<lambda>d. d \<le> ?s ! i) ?s)"
    by (metis mset_filter mset_sort size_mset)
  moreover have "take (Suc i) ?s = filter (\<lambda>d. d \<le> ?s ! i) (take (Suc i) ?s)"
  proof -
    have "d \<le> ?s ! i" if "d \<in> set (take (Suc i) ?s)" for d
      using that sorted_nth_mono [OF sorted_sort, of _ i ds] ij jn by (auto simp: in_set_conv_nth less_Suc_eq_le)
    then show ?thesis by (simp add: filter_id_conv)
  qed
  moreover have "length (filter (\<lambda>d. d \<le> ?s ! i) (take (Suc i) ?s)) \<le> length (filter (\<lambda>d. d \<le> ?s ! i) ?s)"
    by (metis append_take_drop_id filter_append length_append le_add1)
  ultimately have c: "Suc i \<le> length (filter (\<lambda>d. d \<le> ?s ! i) ds)"
    using ij jn by (metis Suc_leI length_sort length_take min.absorb2 order_le_less_trans)
  have "(?n - 1) * p < 100 * Suc i"
    unfolding i_def by (simp add: mult.commute [of 100])
  with c have "p * (?n - 1) < 100 * length (filter (\<lambda>d. d \<le> ?s ! i) ds)" by (simp add: mult.commute)
  moreover have "?s ! i \<le> ?s ! j" using sorted_nth_mono [OF sorted_sort ij, of ds] jn by simp
  ultimately show ?thesis
    unfolding v using mem [of i] mem [of j] ij jn by simp
qed

text \<open>\<open>runBench\<close> keeps the latency of every request that succeeded, in the order of completion, and counts the others;
  a negative \<open>n\<close> has no slice.\<close>

definition bench_collect :: "int option list \<Rightarrow> int list \<times> nat" where
  "bench_collect outcomes = (List.map_filter (\<lambda>r. r) outcomes, length (filter (\<lambda>r. r = None) outcomes))"

definition bench_result :: "nat \<Rightarrow> int option list \<Rightarrow> int \<times> int \<times> int \<times> go_error option" where
  "bench_result n outcomes =
     (case bench_collect outcomes of (lat, errs) \<Rightarrow>
        let d = sortDurations lat
        in (percentile d 50, percentile d 95, percentile d 99,
            if errs > n div 10 then Some (Errorf ''too many errors: %d / %d'' [ArgInt (int errs), ArgInt (int n)]) else None))"

lemma bench_counts: "bench_collect outcomes = (lat, errs) \<Longrightarrow> length lat + errs = length outcomes"
  by (induction outcomes arbitrary: lat errs) (auto simp: bench_collect_def map_filter_simps split: option.split)

text \<open>\<open>runWSLatency\<close> prints the minimum and maximum as well: without a message it indexes an empty slice.\<close>

definition ws_latency_result :: "int list \<Rightarrow> (int \<times> int \<times> int \<times> int \<times> int) option" where
  "ws_latency_result latencies =
     (let d = sortDurations latencies
      in if d = [] then None
         else Some (percentile d 50, percentile d 95, percentile d 99, d ! 0, d ! (length d - 1)))"

text \<open>
  The loop of \<open>runWSLatency\<close>: for each message, \<open>peer\<close> gives the result of the write, of the read and the time
  between the two; \<open>parse\<close> is \<open>json.Unmarshal\<close> into the envelope of time and payload.
\<close>

definition latency_payload :: "nat \<Rightarrow> nat \<Rightarrow> string" where
  "latency_payload c m = ''conn='' @ show_int (int c) @ '' msg='' @ show_int (int m)"

definition latency_plan :: "int \<Rightarrow> int \<Rightarrow> (nat \<times> nat) list" where
  "latency_plan n msgs = List.product [0..<nat n] [0..<nat msgs]"

type_synonym latency_peer = "nat \<Rightarrow> nat \<Rightarrow> string \<Rightarrow> go_error option \<times> (go_error + string) \<times> int"

definition latency_turn ::
  "(string \<Rightarrow> go_error + string \<times> string) \<Rightarrow> latency_peer \<Rightarrow> nat \<Rightarrow> nat \<Rightarrow> go_error + int" where
  "latency_turn parse peer c m =
     (let args = [ArgInt (int c), ArgInt (int m)]
      in case peer c m (latency_payload c m) of
           (Some e, _) \<Rightarrow> Inl (Wrapf ''write c=%d m=%d: %w'' args e)
         | (None, Inl e, _) \<Rightarrow> Inl (Wrapf ''read c=%d m=%d: %w'' args e)
         | (None, Inr raw, rtt) \<Rightarrow>
             (case parse raw of
                Inl e \<Rightarrow> Inl (Wrapf ''parse reply c=%d m=%d: %w'' args e)
              | Inr (recvAt, payload) \<Rightarrow>
                  if payload \<noteq> latency_payload c m
                  then Inl (Errorf ''payload mismatch c=%d m=%d: got %q'' (args @ [ArgStr payload]))
                  else Inr rtt))"

fun latency_loop ::
  "(string \<Rightarrow> go_error + string \<times> string) \<Rightarrow> latency_peer \<Rightarrow> (nat \<times> nat) list \<Rightarrow> int list \<Rightarrow> go_error + int list" where
  "latency_loop parse peer [] lat = Inr lat"
| "latency_loop parse peer ((c, m) # plan) lat =
     (case latency_turn parse peer c m of
        Inl e \<Rightarrow> Inl e
      | Inr rtt \<Rightarrow> latency_loop parse peer plan (lat @ [rtt]))"

text \<open>\<open>None\<close> is a panic: the slice of a negative capacity, or the empty slice at the end.\<close>

definition runWSLatency ::
  "go_error option \<Rightarrow> (string \<Rightarrow> go_error + string \<times> string) \<Rightarrow> latency_peer \<Rightarrow> int \<Rightarrow> int
     \<Rightarrow> (go_error + int \<times> int \<times> int \<times> int \<times> int) option" where
  "runWSLatency dial parse peer n msgsPerConn =
     (case dial of
        Some e \<Rightarrow> Some (Inl (Wrapf ''dial: %w'' [] e))
      | None \<Rightarrow>
          if go_int64 (n * msgsPerConn) < 0 then None
          else (case latency_loop parse peer (latency_plan n msgsPerConn) [] of
                  Inl e \<Rightarrow> Some (Inl e)
                | Inr lat \<Rightarrow> map_option Inr (ws_latency_result lat)))"

text \<open>The server's reply to a message that it receives at the time \<open>now\<close>.\<close>

definition latency_reply :: "((string \<times> string) list \<Rightarrow> string) \<Rightarrow> string \<Rightarrow> string \<Rightarrow> string" where
  "latency_reply json now msg = json [(''recv_at'', now), (''payload'', msg)]"

lemma latency_loop_collects:
  assumes "\<And>c m. (c, m) \<in> set plan \<Longrightarrow> latency_turn parse peer c m = Inr (rtt c m)"
  shows "latency_loop parse peer plan lat = Inr (lat @ map (\<lambda>(c, m). rtt c m) plan)"
  using assms
proof (induction plan arbitrary: lat)
  case (Cons cm plan)
  then show ?case by (cases cm) simp
qed simp

text \<open>Against the server the latency test measures every message once, and prints the statistics of all of them.\<close>

lemma latency_test_measures:
  assumes "\<And>t x. parse (json [(''recv_at'', t), (''payload'', x)]) = Inr (t, x)"
    and "\<And>c m x. peer c m x = (None, Inr (latency_reply json (now c m) x), rtt c m)"
    and "0 < n" and "0 < msgs" and "n * msgs < 2 ^ 63"
  shows "runWSLatency None parse peer n msgs =
    map_option Inr (ws_latency_result (map (\<lambda>(c, m). rtt c m) (latency_plan n msgs)))"
    and "length (latency_plan n msgs) = nat (n * msgs)"
proof -
  have "latency_turn parse peer c m = Inr (rtt c m)" for c m
    using assms(1,2) by (simp add: latency_turn_def latency_reply_def Let_def)
  then have "latency_loop parse peer (latency_plan n msgs) [] = Inr (map (\<lambda>(c, m). rtt c m) (latency_plan n msgs))"
    using latency_loop_collects [of "latency_plan n msgs" parse peer rtt "[]"] by simp
  moreover have "0 < n * msgs" using assms(3,4) by simp
  moreover have "go_int64 (n * msgs) = n * msgs"
  proof (rule go_int64_id)
    show "- 9223372036854775808 \<le> n * msgs" using \<open>0 < n * msgs\<close> by linarith
    show "n * msgs < 9223372036854775808" using assms(5) by simp
  qed
  ultimately show "runWSLatency None parse peer n msgs =
      map_option Inr (ws_latency_result (map (\<lambda>(c, m). rtt c m) (latency_plan n msgs)))"
    by (simp add: runWSLatency_def not_less less_imp_le)
  show "length (latency_plan n msgs) = nat (n * msgs)"
    using assms(3,4) by (simp add: latency_plan_def nat_mult_distrib)
qed

section \<open>The large download\<close>

definition large_size :: "int option \<Rightarrow> int" where
  "large_size n = (case n of Some v \<Rightarrow> if v > 0 then v else 1024 * 1024 | None \<Rightarrow> 1024 * 1024)"

function large_writes :: "int \<Rightarrow> byte list list" where
  "large_writes remaining =
     (if remaining > 0
      then let w = (if 32 * 1024 > remaining then remaining else 32 * 1024)
           in replicate (nat w) 65 # large_writes (remaining - w)
      else [])"
  by pat_completeness auto
termination
  by (relation "measure nat") auto

declare large_writes.simps [simp del]

datatype large_result = LargeWaits | LargeReturns "go_error option"

definition corruption :: "byte list \<Rightarrow> nat option" where
  "corruption bs = (let i = length (takeWhile (\<lambda>b. b = 65) bs) in if i < length bs then Some i else None)"

text \<open>The client's loop over the results of \<open>Read\<close>; \<open>LargeWaits\<close> when there is no further one.\<close>

fun large_read :: "(byte list \<times> go_error option) list \<Rightarrow> int \<Rightarrow> int \<Rightarrow> large_result" where
  "large_read [] want tot = LargeWaits"
| "large_read ((bs, err) # sc) want tot =
     (case corruption bs of
        Some i \<Rightarrow> LargeReturns (Some (Errorf ''corruption at offset %d: got %q'' [ArgInt (tot + int i), ArgInt (uint (bs ! i))]))
      | None \<Rightarrow>
          (let tot1 = tot + int (length bs)
           in if err = Some ErrEOF
              then LargeReturns (if tot1 \<noteq> want then Some (Errorf ''size mismatch: expected %d got %d'' [ArgInt want, ArgInt tot1]) else None)
              else (case err of
                      Some e \<Rightarrow> LargeReturns (Some (Wrapf ''read at offset %d: %w'' [ArgInt tot1] e))
                    | None \<Rightarrow> large_read sc want tot1)))"

definition runLarge :: "go_error + int \<times> (byte list \<times> go_error option) list \<Rightarrow> int \<Rightarrow> large_result" where
  "runLarge resp want =
     (case resp of
        Inl e \<Rightarrow> LargeReturns (Some (Wrapf ''GET: %w'' [] e))
      | Inr (status, body) \<Rightarrow>
          if status \<noteq> 200 then LargeReturns (Some (Errorf ''status %d'' [ArgInt status])) else large_read body want 0)"

text \<open>The body that a sequence of reads gives, and how it ends.\<close>

fun reads :: "(byte list \<times> go_error option) list \<Rightarrow> byte list \<times> go_error option" where
  "reads [] = ([], None)"
| "reads ((bs, Some e) # sc) = (bs, Some e)"
| "reads ((bs, None) # sc) = (case reads sc of (cs, e) \<Rightarrow> (bs @ cs, e))"

lemma concat_large_writes: "concat (large_writes n) = replicate (nat n) 65"
proof (induction n rule: large_writes.induct)
  case (1 n)
  show ?case
  proof (cases "n > 0")
    case True
    define w where "w = (if 32 * 1024 > n then n else 32 * 1024)"
    have w: "0 \<le> w" "w \<le> n" using True by (simp_all add: w_def)
    have "concat (large_writes n) = replicate (nat w) 65 @ concat (large_writes (n - w))"
      using True by (subst large_writes.simps) (simp add: w_def Let_def)
    also have "\<dots> = replicate (nat w + nat (n - w)) 65"
      using 1 [OF True w_def] by (simp add: replicate_add)
    finally show ?thesis using w by (simp add: nat_add_distrib [symmetric])
  qed (simp add: large_writes.simps)
qed

lemma corruption_None: "corruption bs = None \<longleftrightarrow> (\<forall>b \<in> set bs. b = 65)"
proof -
  have "length (takeWhile (\<lambda>b. b = 65) bs) < length bs \<longleftrightarrow> \<not> (\<forall>b \<in> set bs. b = 65)"
    by (induction bs) auto
  then show ?thesis by (simp add: corruption_def Let_def)
qed

lemma large_read_exact:
  "large_read sc want tot = LargeReturns None \<longleftrightarrow>
     (\<exists>bs. reads sc = (bs, Some ErrEOF) \<and> (\<forall>b \<in> set bs. b = 65) \<and> tot + int (length bs) = want)"
proof (induction sc arbitrary: tot)
  case (Cons r sc)
  obtain bs err where r: "r = (bs, err)" by (cases r)
  show ?case
  proof (cases "corruption bs")
    case (Some i)
    then have "\<not> (\<forall>b \<in> set bs. b = 65)" using corruption_None [of bs] by simp
    with Some show ?thesis unfolding r by (cases err) (auto split: prod.splits)
  next
    case None
    then have "\<forall>b \<in> set bs. b = 65" by (simp add: corruption_None)
    with None Cons.IH [of "tot + int (length bs)"] show ?thesis
      unfolding r by (cases err; cases "reads sc") (auto simp: Let_def add.assoc)
  qed
qed simp

lemma all_replicate: "(\<forall>b \<in> set bs. b = a) \<and> int (length bs) = n \<longleftrightarrow> 0 \<le> n \<and> bs = replicate (nat n) a"
proof
  assume a: "(\<forall>b \<in> set bs. b = a) \<and> int (length bs) = n"
  then have "replicate (length bs) a = bs" by (metis replicate_length_same)
  with a show "0 \<le> n \<and> bs = replicate (nat n) a" by auto
qed auto

text \<open>The download test accepts exactly what the server sends. For a positive size the client reports success
  if and only if the status is 200 and the reads, in whatever pieces, give the bytes that the server writes
  for this size and then end cleanly; for a size below one the server sends a megabyte, and the test can
  only pass with an empty answer to size zero.\<close>

theorem large_test_exact:
  "runLarge (Inr (status, sc)) want = LargeReturns None \<longleftrightarrow>
     status = 200 \<and> (if want > 0 then reads sc = (concat (large_writes (large_size (Some want))), Some ErrEOF)
       else want = 0 \<and> reads sc = ([], Some ErrEOF))"
proof -
  have "large_read sc want 0 = LargeReturns None \<longleftrightarrow> 0 \<le> want \<and> reads sc = (replicate (nat want) 65, Some ErrEOF)"
  proof -
    have "(\<exists>bs. reads sc = (bs, Some ErrEOF) \<and> (\<forall>b \<in> set bs. b = 65) \<and> int (length bs) = want) \<longleftrightarrow>
        0 \<le> want \<and> reads sc = (replicate (nat want) 65, Some ErrEOF)"
      unfolding all_replicate by blast
    with large_read_exact [of sc want 0] show ?thesis by simp
  qed
  also have "\<dots> \<longleftrightarrow> (if want > 0 then reads sc = (concat (large_writes (large_size (Some want))), Some ErrEOF)
       else want = 0 \<and> reads sc = ([], Some ErrEOF))"
    by (auto simp: concat_large_writes large_size_def)
  finally show ?thesis by (simp add: runLarge_def)
qed

section \<open>The server\<close>

record test_stats =
  ts_TCPConns :: int
  ts_HTTPReqs :: int
  ts_WSConns :: int
  ts_WSMessages :: int
  ts_BytesEchoed :: int

text \<open>
  What the handlers use of a request: \<open>tr_n\<close> and \<open>tr_ms\<close> are the query parameters as \<open>strconv\<close> parses them, the
  headers are listed in the order of the loop over them, the body is text.
\<close>

record test_request =
  tr_Method :: string
  tr_Path :: string
  tr_n :: "int option"
  tr_ms :: "int option"
  tr_Header :: "(string \<times> string list) list"
  tr_Body :: string

datatype test_reply =
    TestText string
  | TestLarge int "byte list list"
  | TestSlow int string
  | TestStats test_stats
  | TestWebSocket
  | TestWebSocketLatency
  | TestNotFound

definition newline :: string where "newline = [char_of (10 :: nat)]"

text \<open>\<open>strings.Join\<close> with a comma and a space.\<close>

fun join_values :: "string list \<Rightarrow> string" where
  "join_values [] = ''''"
| "join_values [v] = v"
| "join_values (v # vs) = v @ '', '' @ join_values vs"

definition headers_text :: "(string \<times> string list) list \<Rightarrow> string" where
  "headers_text hs = concat (map (\<lambda>(name, vals). name @ '': '' @ join_values vals @ newline) hs)"

definition slow_delay :: "int option \<Rightarrow> int" where
  "slow_delay ms = (case ms of Some v \<Rightarrow> if v \<ge> 0 then v else 500 | None \<Rightarrow> 500)"

definition count_request :: "test_stats \<Rightarrow> test_stats" where
  "count_request st = st\<lparr>ts_HTTPReqs := ts_HTTPReqs st + 1\<rparr>"

definition test_serve :: "test_request \<Rightarrow> test_stats \<Rightarrow> test_reply \<times> test_stats" where
  "test_serve r st =
     (if tr_Path r = ''/hello'' then (TestText (''Hello from origin'' @ newline), count_request st)
      else if tr_Path r = ''/echo'' then (TestText (tr_Method r @ '' '' @ tr_Path r @ newline), count_request st)
      else if tr_Path r = ''/headers'' then (TestText (headers_text (tr_Header r)), count_request st)
      else if tr_Path r = ''/body'' then (TestText (tr_Body r), count_request st)
      else if tr_Path r = ''/large'' then (TestLarge (large_size (tr_n r)) (large_writes (large_size (tr_n r))), count_request st)
      else if tr_Path r = ''/slow''
      then (TestSlow (slow_delay (tr_ms r)) (''slept '' @ show_int (slow_delay (tr_ms r)) @ '' ms'' @ newline), count_request st)
      else if tr_Path r = ''/stats'' then (TestStats st, st)
      else if tr_Path r = ''/ws'' then (TestWebSocket, count_request st)
      else if tr_Path r = ''/ws-latency'' then (TestWebSocketLatency, count_request st)
      else (TestNotFound, st))"

text \<open>\<open>/ws\<close> sends every message back with its type; the loop ends with the first error. A message is its type and payload.\<close>

fun ws_echo_loop :: "(go_error + nat \<times> byte list) list \<Rightarrow> (nat \<Rightarrow> go_error option) \<Rightarrow> nat \<Rightarrow> test_stats
    \<Rightarrow> (nat \<times> byte list) list \<times> test_stats" where
  "ws_echo_loop [] w k st = ([], st)"
| "ws_echo_loop (Inl e # ms) w k st = ([], st)"
| "ws_echo_loop (Inr m # ms) w k st =
     (let st1 = st\<lparr>ts_WSMessages := ts_WSMessages st + 1\<rparr>
      in if w k \<noteq> None then ([], st1)
         else (case ws_echo_loop ms w (Suc k) st1 of (out, st2) \<Rightarrow> (m # out, st2)))"

text \<open>\<open>serveTCP\<close>: what \<open>Accept\<close> gives, turn by turn; the loop ends with the first error.\<close>

fun serveTCP :: "go_error option list \<Rightarrow> test_stats \<Rightarrow> test_stats" where
  "serveTCP [] st = st"
| "serveTCP (Some e # as) st = st"
| "serveTCP (None # as) st = serveTCP as (st\<lparr>ts_TCPConns := ts_TCPConns st + 1\<rparr>)"

text \<open>One turn of the copy loop of \<open>handleTCPConn\<close>, whose source and destination are one connection.\<close>

definition echo_turn :: "nat \<Rightarrow> nat option \<Rightarrow> net_end \<Rightarrow> (bool \<times> net_end) option" where
  "echo_turn n w e =
     (case net_recv n e of
        None \<Rightarrow> None
      | Some (bs, Some x, e1) \<Rightarrow> Some (False, e1)
      | Some (bs, None, e1) \<Rightarrow> (case net_send w bs e1 of (r, k, e2) \<Rightarrow> Some (r = None, e2)))"

lemma echo_turn_exact:
  assumes "echo_turn n w e = Some (go_on, e')" and "go_on"
  shows "ne_out e' @ ne_in e' = ne_out e @ ne_in e"
  using assms by (auto simp: echo_turn_def net_recv_def net_send_def Let_def split: option.splits prod.splits if_splits)

section \<open>The client's checks\<close>

definition doTCPEcho ::
  "go_error option \<Rightarrow> go_error option \<Rightarrow> byte list \<times> go_error option \<Rightarrow> byte list \<Rightarrow> go_error option" where
  "doTCPEcho dial write got msg =
     (if dial \<noteq> None then Some (Wrapf ''dial: %w'' [] (the dial))
      else if write \<noteq> None then Some (Wrapf ''write: %w'' [] (the write))
      else (case got of
              (bs, Some e) \<Rightarrow> Some (Wrapf ''read: %w'' [] e)
            | (bs, None) \<Rightarrow> if bs \<noteq> msg then Some (Errorf ''echo mismatch: sent %q got %q'' [ArgStr (map (\<lambda>b. char_of (unat b)) msg), ArgStr (map (\<lambda>b. char_of (unat b)) bs)]) else None))"

definition get_check :: "go_error + int \<times> string \<Rightarrow> go_error option" where
  "get_check resp =
     (case resp of
        Inl e \<Rightarrow> Some (Wrapf ''GET: %w'' [] e)
      | Inr (status, body) \<Rightarrow>
          if status \<noteq> 200 then Some (Errorf ''status %d'' [ArgInt status])
          else if \<not> str_contains body ''Hello from origin'' then Some (Errorf ''unexpected body: %q'' [ArgStr body]) else None)"

definition post_payload :: string where "post_payload = ''test payload from proxy-test-client''"

definition post_check :: "go_error + int \<times> string \<Rightarrow> go_error option" where
  "post_check resp =
     (case resp of
        Inl e \<Rightarrow> Some (Wrapf ''POST: %w'' [] e)
      | Inr (status, body) \<Rightarrow>
          if status \<noteq> 200 then Some (Errorf ''status %d'' [ArgInt status])
          else if body \<noteq> post_payload then Some (Errorf ''body mismatch: got %q'' [ArgStr body]) else None)"

fun expect_headers :: "string \<Rightarrow> string list \<Rightarrow> go_error option" where
  "expect_headers body [] = None"
| "expect_headers body (h # hs) =
     (if \<not> str_contains body h then Some (Errorf ''expected header %q not found'' [ArgStr h]) else expect_headers body hs)"

definition headers_check :: "go_error + string \<Rightarrow> go_error option" where
  "headers_check resp =
     (case resp of Inl e \<Rightarrow> Some (Wrapf ''GET /headers: %w'' [] e) | Inr body \<Rightarrow> expect_headers body [''X-Forwarded-For'', ''Via''])"

text \<open>\<open>runSlow\<close>: times in milliseconds.\<close>

definition slow_check :: "go_error + int \<Rightarrow> int \<Rightarrow> int \<Rightarrow> go_error option" where
  "slow_check resp dur delay =
     (case resp of
        Inl e \<Rightarrow> Some (Wrapf ''GET: %w'' [] e)
      | Inr status \<Rightarrow>
          if status \<noteq> 200 then Some (Errorf ''status %d'' [ArgInt status])
          else if dur - delay > 500
          then Some (Errorf ''proxy overhead %v exceeds threshold %v'' [ArgInt (dur - delay), ArgInt 500]) else None)"

text \<open>\<open>doWSEcho\<close> after the upgrade: for the \<open>i\<close>-th message the peer gives the result of the write and of the read.\<close>

definition ws_payload :: "int \<Rightarrow> nat \<Rightarrow> string" where
  "ws_payload cid i = ''conn='' @ show_int cid @ '' msg='' @ show_int (int i) @ '' payload=accel-proxy-ws-test''"

definition ws_text :: nat where "ws_text = 1"

definition ws_message :: "int \<Rightarrow> (nat \<Rightarrow> string \<Rightarrow> go_error option \<times> (go_error + nat \<times> string)) \<Rightarrow> nat \<Rightarrow> go_error option" where
  "ws_message cid peer i =
     (case peer i (ws_payload cid i) of
        (Some e, got) \<Rightarrow> Some (Wrapf ''msg %d write: %w'' [ArgInt (int i)] e)
      | (None, Inl e) \<Rightarrow> Some (Wrapf ''msg %d read: %w'' [ArgInt (int i)] e)
      | (None, Inr (msgType, got)) \<Rightarrow>
          if msgType \<noteq> ws_text then Some (Errorf ''msg %d: expected text frame, got type %d'' [ArgInt (int i), ArgInt (int msgType)])
          else if got \<noteq> ws_payload cid i then Some (Errorf (''msg %d echo mismatch:'' @ newline @ ''  sent: %q'' @ newline @ ''  got:  %q'')
            [ArgInt (int i), ArgStr (ws_payload cid i), ArgStr got]) else None)"

fun first_error :: "go_error option list \<Rightarrow> go_error option" where
  "first_error [] = None"
| "first_error (Some e # rs) = Some e"
| "first_error (None # rs) = first_error rs"

definition doWSEcho :: "int \<Rightarrow> nat \<Rightarrow> (nat \<Rightarrow> string \<Rightarrow> go_error option \<times> (go_error + nat \<times> string)) \<Rightarrow> go_error option" where
  "doWSEcho cid msgsPerConn peer = first_error (map (ws_message cid peer) [0..<msgsPerConn])"

lemma doWSEcho_exact:
  "doWSEcho cid n peer = None \<longleftrightarrow>
     (\<forall>i < n. peer i (ws_payload cid i) = (None, Inr (ws_text, ws_payload cid i)))"
proof -
  have "first_error rs = None \<longleftrightarrow> (\<forall>r \<in> set rs. r = None)" for rs
    by (induction rs rule: first_error.induct) auto
  moreover have "ws_message cid peer i = None \<longleftrightarrow> peer i (ws_payload cid i) = (None, Inr (ws_text, ws_payload cid i))" for i
    by (auto simp: ws_message_def split: prod.split option.split sum.split)
  ultimately show ?thesis by (auto simp: doWSEcho_def)
qed

section \<open>The header test shows the proxy\<close>

lemma has_prefix_append: "has_prefix p (p @ b)"
  by (induction p) simp_all

lemma str_contains_append: "str_contains (a @ p @ b) p"
proof (induction a)
  case Nil
  then show ?case using has_prefix_append [of p b] by (cases "p @ b") simp_all
qed simp

lemma headers_text_contains: "(k, vs) \<in> set hs \<Longrightarrow> str_contains (headers_text hs) k"
proof -
  assume "(k, vs) \<in> set hs"
  then obtain as bs where "hs = as @ (k, vs) # bs" by (meson split_list)
  then have "headers_text hs = headers_text as @ k @ ('': '' @ join_values vs @ newline @ headers_text bs)"
    by (simp add: headers_text_def)
  then show ?thesis by (simp only: str_contains_append)
qed

definition keeps_headers :: "service_config \<Rightarrow> bool" where
  "keeps_headers svc \<longleftrightarrow>
     (\<forall>h \<in> set (hc_RemoveRequestHeaders (sc_HTTP svc)). canonical_key h \<noteq> ''X-Forwarded-For'' \<and> canonical_key h \<noteq> ''Via'')"

lemma fold_hdr_Set_keeps: "h k \<noteq> None \<Longrightarrow> fold (\<lambda>(k, v). hdr_Set k v) hs h k \<noteq> None"
  by (induction hs arbitrary: h) (auto simp: hdr_Set_def)

lemma fold_hdr_Del_keeps: "h k \<noteq> None \<Longrightarrow> \<forall>d \<in> set ds. canonical_key d \<noteq> k \<Longrightarrow> fold hdr_Del ds h k \<noteq> None"
  by (induction ds arbitrary: h) (auto simp: hdr_Del_def)

lemma proxy_keys: "canonical_key ''X-Forwarded-For'' = ''X-Forwarded-For''" "canonical_key ''Via'' = ''Via''"
  "canonical_key ''X-Real-IP'' = ''X-Real-Ip''" "canonical_key ''X-Forwarded-Proto'' = ''X-Forwarded-Proto''"
  "map canonical_key hopByHopHeaders = [''Connection'', ''Keep-Alive'', ''Proxy-Authenticate'', ''Proxy-Authorization'', ''Te'', ''Trailers'']"
  by code_simp+

text \<open>The header test passes behind the proxy. Whatever headers a client sends, the origin's listing of the
  headers of the request that the HTTP handler forwards names \<open>X-Forwarded-For\<close> and \<open>Via\<close>, in any order of
  the listing, unless the service is configured to remove one of them; so the test's check succeeds.\<close>

theorem header_test_behind_proxy:
  assumes "keeps_headers svc" and "map_of hs = lq_Header (mutateRequest svc ip r)"
    and "test_serve (req\<lparr>tr_Path := ''/headers'', tr_Header := hs\<rparr>) st = (reply, st')"
  shows "\<exists>text. reply = TestText text \<and> headers_check (Inr text) = None \<and> ts_HTTPReqs st' = ts_HTTPReqs st + 1"
proof -
  let ?f = "forward_headers svc ip (lq_Header r)"
  let ?h = "configured_headers svc ?f"
  have "lq_Header (mutateRequest svc ip r) k \<noteq> None" if k: "k = ''X-Forwarded-For'' \<or> k = ''Via''" for k
  proof -
    have "?f k \<noteq> None" using k by (auto simp: forward_headers_def hdr_Set_def Let_def proxy_keys)
    then have c: "?h k \<noteq> None"
      using assms(1) k unfolding configured_headers_def keeps_headers_def
      by (intro fold_hdr_Set_keeps fold_hdr_Del_keeps) auto
    have "k \<notin> set (map canonical_key hopByHopHeaders)" unfolding proxy_keys using k by auto
    then have "fold hdr_Del hopByHopHeaders ?h k \<noteq> None" by (intro fold_hdr_Del_keeps c) auto
    with c show ?thesis by (simp add: mutate_header Let_def)
  qed
  then have "\<exists>vs. (k, vs) \<in> set hs" if "k = ''X-Forwarded-For'' \<or> k = ''Via''" for k
    using that assms(2) by (metis map_of_SomeD not_None_eq)
  then have "str_contains (headers_text hs) ''X-Forwarded-For''" "str_contains (headers_text hs) ''Via''"
    using headers_text_contains by blast+
  with assms(3) show ?thesis by (auto simp: test_serve_def headers_check_def count_request_def)
qed

section \<open>Examples\<close>

text \<open>Two workers do two jobs, the second of which fails.\<close>

definition example_pool :: "go_error option pool" where
  "example_pool = \<lparr>wp_jobs = [], wp_busy = [], wp_idle = 2, wp_results = [(1, Some ErrEOF), (0, None)]\<rparr>"

lemma example_pool_run: "pool_run 4 (pool_start 2 2) example_pool"
proof -
  have n: "4 = Suc (Suc (Suc (Suc 0)))" by simp
  have s: "pool_start 2 2 = (\<lparr>wp_jobs = [0, 1], wp_busy = [], wp_idle = 2, wp_results = []\<rparr> :: go_error option pool)"
    by (simp add: pool_start_def upt_rec)
  have r: "pool_step \<lparr>wp_jobs = jb # js, wp_busy = bs, wp_idle = Suc w, wp_results = rs\<rparr>
      \<lparr>wp_jobs = js, wp_busy = jb # bs, wp_idle = w, wp_results = rs\<rparr>" for jb js bs w and rs :: "(nat \<times> go_error option) list"
    using pool_step.take_job [of "\<lparr>wp_jobs = jb # js, wp_busy = bs, wp_idle = Suc w, wp_results = rs\<rparr>"] by simp
  have f: "pool_step \<lparr>wp_jobs = js, wp_busy = jb # bs, wp_idle = w, wp_results = rs\<rparr>
      \<lparr>wp_jobs = js, wp_busy = bs, wp_idle = Suc w, wp_results = rs @ [(jb, x)]\<rparr>" for jb js bs w x and rs :: "(nat \<times> go_error option) list"
    using pool_step.finish [of jb "\<lparr>wp_jobs = js, wp_busy = jb # bs, wp_idle = w, wp_results = rs\<rparr>" x] by simp
  note p1 = pool_next [OF pool_begin r [of 0 "[1]" "[]" "Suc 0" "[]"]]
  note p2 = pool_next [OF p1 r [of 1 "[]" "[0]" 0 "[]"]]
  note p3 = pool_next [OF p2 f [of "[]" 1 "[0]" 0 "[]" "Some ErrEOF"]]
  note p4 = pool_next [OF p3 f [of "[]" 0 "[]" "Suc 0" "[] @ [(1, Some ErrEOF)]" None]]
  show ?thesis unfolding n s using p4 by (simp add: example_pool_def numeral_2_eq_2)
qed

theorem pool_tests_everything_witness:
  "mset (map fst (wp_results example_pool)) = mset [0..<2] \<and> tcp_echo_result 2 example_pool \<notin> {RunWaits, RunReturns None}"
proof -
  have "\<not> pool_step example_pool p" for p by (auto simp: example_pool_def elim: pool_stepE)
  moreover have "pool_run 4 (pool_start (nat 2) (nat (test_conc 2))) example_pool"
    using example_pool_run by (simp add: test_conc_def)
  from pool_tests_everything [OF this] have "(\<forall>p'. \<not> pool_step example_pool p') \<longrightarrow>
      mset (map fst (wp_results example_pool)) = mset [0..<nat 2] \<and> tcp_echo_result 2 example_pool \<noteq> RunWaits \<and>
      (tcp_echo_result 2 example_pool = RunReturns None \<longleftrightarrow> (\<forall>(jb, err) \<in> set (wp_results example_pool). err = None))"
    by simp
  ultimately show ?thesis by (simp add: example_pool_def)
qed

theorem percentiles_sound_witness:
  "percentile (sortDurations [30, 10, 20]) 50 \<le> percentile (sortDurations [30, 10, 20]) 95 \<and>
   percentile (sortDurations [30, 10, 20]) 50 \<in> {10, 20, 30}"
  using percentiles_sound [of "[30, 10, 20]" 50 95] by auto

definition example_get :: l7_request where
  "example_get = \<lparr>lq_Method = ''GET'', lq_Host = ''a'', lq_URLHost = '''', lq_URLScheme = '''',
     lq_Header = Map.empty, lq_ProtoMajor = 1, lq_ProtoMinor = 1\<rparr>"

definition example_listing :: "(string \<times> string list) list" where
  "example_listing = [(''Via'', [''1.1 accel-proxy'']), (''X-Real-Ip'', [''ip'']), (''X-Forwarded-Proto'', [''http'']),
     (''X-Forwarded-For'', [''ip''])]"

lemma example_listing_forwarded: "map_of example_listing = lq_Header (mutateRequest example_service ''ip'' example_get)"
proof -
  let ?h = "configured_headers example_service (forward_headers example_service ''ip'' (lq_Header example_get))"
  have h: "?h = map_of example_listing"
    by (auto simp: configured_headers_def forward_headers_def example_service_def example_get_def hdr_Set_def hdr_Get_def
        proxy_keys example_listing_def fun_eq_iff Let_def)
  have u: "canonical_key ''Upgrade'' = ''Upgrade''" by code_simp
  have e: "\<not> equal_fold '''' ''websocket''" by code_simp
  have "\<not> isWebSocketUpgrade (example_get\<lparr>lq_Header := map_of example_listing\<rparr>)"
    using e by (simp add: isWebSocketUpgrade_def hdr_Get_def u example_listing_def)
  moreover have "fold hdr_Del hopByHopHeaders (map_of example_listing) k = map_of example_listing k" for k
  proof -
    have "fold hdr_Del ds m k = m k" if "m k = None \<or> k \<notin> set (map canonical_key ds)" for ds m
      using that by (induction ds arbitrary: m) (auto simp: hdr_Del_def)
    moreover have "map_of example_listing k = None \<or> k \<notin> set (map canonical_key hopByHopHeaders)"
      unfolding proxy_keys by (simp add: example_listing_def)
    ultimately show ?thesis by blast
  qed
  ultimately show ?thesis by (simp add: mutate_header h Let_def fun_eq_iff)
qed

theorem header_test_behind_proxy_witness:
  "headers_check (Inr (headers_text example_listing)) = None"
proof -
  let ?r = "\<lparr>tr_Method = ''GET'', tr_Path = '''', tr_n = None, tr_ms = None, tr_Header = [], tr_Body = ''''\<rparr>"
  let ?st = "\<lparr>ts_TCPConns = 0, ts_HTTPReqs = 0, ts_WSConns = 0, ts_WSMessages = 0, ts_BytesEchoed = 0\<rparr>"
  have k: "keeps_headers example_service" by (simp add: keeps_headers_def example_service_def)
  have s: "test_serve (?r\<lparr>tr_Path := ''/headers'', tr_Header := example_listing\<rparr>) ?st =
      (TestText (headers_text example_listing), count_request ?st)" by (simp add: test_serve_def)
  from header_test_behind_proxy [OF k example_listing_forwarded s] show ?thesis by blast
qed

end
