(* ===== verification/Nodes.thy ===== *)
theory Nodes
  imports Transport
begin

text \<open>
  \<^verbatim>\<open>internal/node\<close> and \<^verbatim>\<open>internal/tunnel/session.go\<close>: the three roles of a process. An access node
  accepts client connections and dials a tunnel, a relay node receives a tunnel and dials the next,
  an egress node receives a tunnel and dials the origin; a process may hold several roles. Go's maps
  are functions to options; a loop over a map whose turns are independent is the map of its turns.
  Sockets, clocks and the order of a map iteration are arguments.
\<close>

section \<open>Host and port\<close>

text \<open>\<open>net.SplitHostPort\<close>: \<open>None\<close> is an error.\<close>

definition SplitHostPort :: "string \<Rightarrow> (string \<times> string) option" where
  "SplitHostPort s =
     (let port = rev (takeWhile (\<lambda>c. c \<noteq> CHR '':'') (rev s));
          before = take (length s - length port - 1) s in
      if CHR '':'' \<notin> set s then None
      else if hd s = CHR ''['' then
        (if CHR '']'' \<notin> set s then None
         else (let host = takeWhile (\<lambda>c. c \<noteq> CHR '']'') (tl s) in
           if length host + 2 \<noteq> length s - length port - 1 then None
           else if CHR ''['' \<in> set (tl s) \<or> CHR '']'' \<in> set (drop (length host + 2) s) then None
           else Some (host, port)))
      else if CHR '':'' \<in> set before then None
      else if CHR ''['' \<in> set s \<or> CHR '']'' \<in> set s then None
      else Some (before, port))"

section \<open>Reload messages\<close>

record origin_update =
  ou_Host :: string
  ou_Port :: int
  ou_TLS :: bool
  ou_DialTimeout :: int

record reloadable_config =
  rl_AccessServices :: "service_config list"
  rl_Groups :: "string \<Rightarrow> route_group list option"
  rl_Routes :: "string \<Rightarrow> idc_route list option"
  rl_Origins :: "string \<Rightarrow> origin_update option"

section \<open>Access node\<close>

record 'l service_state =
  ss_pool :: "'l hop_pool"   \<comment> \<open>the pool of the state's dialer\<close>
  ss_targetIDC :: string

record 'l service_instance =
  si_cfg :: service_config
  si_state :: "'l service_state"
  si_l7handler :: bool
  si_frameSize :: int
  si_psk :: string
  si_running :: bool

definition is_http :: "string \<Rightarrow> bool" where
  "is_http protocol \<longleftrightarrow> protocol = ProtocolHTTP \<or> protocol = ProtocolHTTPS"

definition newServiceInstance ::
  "'l float_ops \<Rightarrow> service_config \<Rightarrow> int \<Rightarrow> string \<Rightarrow> go_error + 'l service_instance" where
  "newServiceInstance fo svc frameSize psk =
     (let hops = ServiceConfig_SortedHops svc in
      if length hops = 0 then Inl (Errorf ''service %q: no hops configured'' [ArgStr (sc_ID svc)])
      else Inr \<lparr>si_cfg = svc,
        si_state = \<lparr>ss_pool = NewHopPool fo hops None, ss_targetIDC = sc_TargetIDC svc\<rparr>,
        si_l7handler = is_http (sc_Protocol svc), si_frameSize = frameSize, si_psk = psk, si_running = False\<rparr>)"

text \<open>\<open>listen\<close> is what listening on the port answers.\<close>

definition instance_start ::
  "(int \<Rightarrow> go_error option) \<Rightarrow> 'l service_instance \<Rightarrow> 'l service_instance \<times> go_error option" where
  "instance_start listen inst = (case listen (sc_Port (si_cfg inst)) of
     Some err \<Rightarrow> (inst, Some (Wrapf ''listen port %d (service %q): %w''
       [ArgInt (sc_Port (si_cfg inst)), ArgStr (sc_ID (si_cfg inst))] err))
   | None \<Rightarrow> (inst\<lparr>si_running := True\<rparr>, None))"

definition instance_stop :: "'l service_instance \<Rightarrow> 'l service_instance" where
  "instance_stop inst = inst\<lparr>si_running := False\<rparr>"

definition reloadGroups :: "'l float_ops \<Rightarrow> route_group list \<Rightarrow> 'l service_instance \<Rightarrow> 'l service_instance" where
  "reloadGroups fo groups inst =
     (let hops = SortGroups groups in
      if length hops = 0 then inst
      else inst\<lparr>si_state := \<lparr>ss_pool = NewHopPool fo hops None, ss_targetIDC = sc_TargetIDC (si_cfg inst)\<rparr>\<rparr>)"

text \<open>What becomes of an accepted client connection. \<open>ConnPanic\<close>: the selection strategy panics.\<close>

datatype conn_outcome =
    ConnDialFailed go_error
  | ConnL7 dialed
  | ConnRelay dialed
  | ConnPanic

definition access_request :: "'l service_instance \<Rightarrow> string \<Rightarrow> handshake_request" where
  "access_request inst remote =
     \<lparr>hr_Version = tunnel_Version, hr_ServiceID = sc_ID (si_cfg inst),
      hr_TargetIDC = ss_targetIDC (si_state inst), hr_Protocol = sc_Protocol (si_cfg inst),
      hr_ClientIP = (case SplitHostPort remote of Some (h, p) \<Rightarrow> h | None \<Rightarrow> ''''),
      hr_HopCount = 0, hr_Metadata = [], hr_Timestamp = 0, hr_Signature = ''''\<rparr>"

definition handleConn ::
  "tunnel_env \<Rightarrow> 'l::linorder float_ops \<Rightarrow> (nat \<Rightarrow> dial_target \<Rightarrow> dial_net) \<Rightarrow> string \<Rightarrow>
   'l service_instance \<Rightarrow> 'l service_instance \<times> conn_outcome" where
  "handleConn env fo net remote inst =
     (case DialWithFallback env fo (si_psk inst) net (ss_pool (si_state inst)) (access_request inst remote) of
        None \<Rightarrow> (inst, ConnPanic)
      | Some (res, pool, req) \<Rightarrow>
          (let inst' = inst\<lparr>si_state := (si_state inst)\<lparr>ss_pool := pool\<rparr>\<rparr> in
           case res of
             Inl err \<Rightarrow> (inst', ConnDialFailed err)
           | Inr tun \<Rightarrow> (inst', if is_http (sc_Protocol (si_cfg inst)) then ConnL7 tun else ConnRelay tun)))"

record 'l access_node =
  an_frameSize :: int
  an_psk :: string
  an_services :: "string \<Rightarrow> 'l service_instance option"

definition defaultAccessFrameSize :: int where "defaultAccessFrameSize = 64 * 1024"

fun new_instances ::
  "'l float_ops \<Rightarrow> int \<Rightarrow> string \<Rightarrow> service_config list \<Rightarrow> (string \<Rightarrow> 'l service_instance option) \<Rightarrow>
   go_error + (string \<Rightarrow> 'l service_instance option)" where
  "new_instances fo frameSize psk [] m = Inr m"
| "new_instances fo frameSize psk (svc # svcs) m = (case newServiceInstance fo svc frameSize psk of
     Inl err \<Rightarrow> Inl err
   | Inr inst \<Rightarrow> new_instances fo frameSize psk svcs (m(sc_ID svc \<mapsto> inst)))"

definition NewAccessNode :: "'l float_ops \<Rightarrow> access_config \<Rightarrow> string \<Rightarrow> go_error + 'l access_node" where
  "NewAccessNode fo cfg psk =
     (let frameSize = (if ac_MaxFrameSize cfg = 0 then defaultAccessFrameSize else ac_MaxFrameSize cfg) in
      map_sum id (\<lambda>m. \<lparr>an_frameSize = frameSize, an_psk = psk, an_services = m\<rparr>)
        (new_instances fo frameSize psk (ac_Services cfg) Map.empty))"

text \<open>\<open>Start\<close>, over the services in the order of the iteration; \<open>started\<close> are the ones to roll back.\<close>

fun access_start_loop ::
  "(int \<Rightarrow> go_error option) \<Rightarrow> string list \<Rightarrow> string list \<Rightarrow> (string \<Rightarrow> 'l service_instance option) \<Rightarrow>
   go_error option \<times> (string \<Rightarrow> 'l service_instance option)" where
  "access_start_loop listen [] started m = (None, m)"
| "access_start_loop listen (i # is) started m = (case m i of
     None \<Rightarrow> access_start_loop listen is started m
   | Some inst \<Rightarrow> (case instance_start listen inst of
       (inst', None) \<Rightarrow> access_start_loop listen is (started @ [i]) (m(i \<mapsto> inst'))
     | (inst', Some err) \<Rightarrow>
         (Some err, \<lambda>j. if j \<in> set started then map_option instance_stop (m j) else m j)))"

definition AccessNode_Start ::
  "(int \<Rightarrow> go_error option) \<Rightarrow> string list \<Rightarrow> 'l access_node \<Rightarrow> go_error option \<times> 'l access_node" where
  "AccessNode_Start listen order n =
     (let (err, m) = access_start_loop listen order [] (an_services n) in (err, n\<lparr>an_services := m\<rparr>))"

definition AccessNode_Stop :: "'l access_node \<Rightarrow> 'l access_node" where
  "AccessNode_Stop n = n\<lparr>an_services := (\<lambda>i. map_option instance_stop (an_services n i))\<rparr>"

definition incoming_services :: "service_config list \<Rightarrow> string \<Rightarrow> service_config option" where
  "incoming_services svcs = map_of (rev (map (\<lambda>s. (sc_ID s, s)) svcs))"

text \<open>What a reload makes of the entry of one service: removed services are stopped and forgotten,
  running ones may get new groups, new ones are created and started.\<close>

definition reload_entry ::
  "'l float_ops \<Rightarrow> (int \<Rightarrow> go_error option) \<Rightarrow> reloadable_config \<Rightarrow> 'l access_node \<Rightarrow> string \<Rightarrow>
   'l service_instance option" where
  "reload_entry fo listen rc n i = (case incoming_services (rl_AccessServices rc) i of
     None \<Rightarrow> None
   | Some svc \<Rightarrow> (case an_services n i of
       Some inst \<Rightarrow> (case rl_Groups rc i of
           Some groups \<Rightarrow> Some (reloadGroups fo groups inst)
         | None \<Rightarrow> Some inst)
     | None \<Rightarrow> (case newServiceInstance fo svc (an_frameSize n) (an_psk n) of
           Inl err \<Rightarrow> None
         | Inr inst \<Rightarrow> (case instance_start listen inst of
             (inst', None) \<Rightarrow> Some inst'
           | (inst', Some err) \<Rightarrow> None))))"

definition AccessNode_Reload ::
  "'l float_ops \<Rightarrow> (int \<Rightarrow> go_error option) \<Rightarrow> reloadable_config \<Rightarrow> 'l access_node \<Rightarrow> 'l access_node" where
  "AccessNode_Reload fo listen rc n = n\<lparr>an_services := reload_entry fo listen rc n\<rparr>"

section \<open>Relay node\<close>

type_synonym route_table = "string \<Rightarrow> idc_route list option"

record 'l relay_node =
  rn_nodeID :: string
  rn_psk :: string
  rn_routes :: route_table
  rn_dialers :: "string \<times> string \<Rightarrow> 'l hop_pool option"   \<comment> \<open>the pool of the key's dialer\<close>
  rn_frameSize :: int

fun build_routes :: "service_config list \<Rightarrow> route_table \<Rightarrow> go_error + route_table" where
  "build_routes [] tbl = Inr tbl"
| "build_routes (svc # svcs) tbl =
     (if length (sc_Routes svc) = 0 then Inl (Errorf ''relay service %q has no routes'' [ArgStr (sc_ID svc)])
      else build_routes svcs (tbl(sc_ID svc \<mapsto> sc_Routes svc)))"

definition buildRouteTable :: "service_config list \<Rightarrow> go_error + route_table" where
  "buildRouteTable services = build_routes services Map.empty"

definition NewRelayNode :: "string \<Rightarrow> relay_config \<Rightarrow> go_error + 'l relay_node" where
  "NewRelayNode nodeID cfg =
     map_sum id (\<lambda>tbl. \<lparr>rn_nodeID = nodeID, rn_psk = tn_PSK (rc_Tunnel cfg), rn_routes = tbl,
       rn_dialers = Map.empty, rn_frameSize = tn_MaxFrameSize (rc_Tunnel cfg)\<rparr>)
     (buildRouteTable (rc_Services cfg))"

definition valid_key :: "route_table \<Rightarrow> string \<times> string \<Rightarrow> bool" where
  "valid_key routes = (\<lambda>(sid, idc). case routes sid of None \<Rightarrow> False | Some rs \<Rightarrow> idc \<in> ir_IDC ` set rs)"

definition cleanStaleDialers :: "route_table \<Rightarrow> 'l relay_node \<Rightarrow> 'l relay_node" where
  "cleanStaleDialers routes n =
     n\<lparr>rn_dialers := (\<lambda>key. if valid_key routes key then rn_dialers n key else None)\<rparr>"

text \<open>\<open>nonempty\<close> is the answer to \<open>len(rc.Routes) == 0\<close>, negated.\<close>

definition RelayNode_Reload :: "bool \<Rightarrow> reloadable_config \<Rightarrow> 'l relay_node \<Rightarrow> 'l relay_node" where
  "RelayNode_Reload nonempty rc n =
     (if \<not> nonempty then n
      else (let next = rn_routes n ++ rl_Routes rc in cleanStaleDialers next (n\<lparr>rn_routes := next\<rparr>)))"

definition dialerFor ::
  "'l float_ops \<Rightarrow> string \<Rightarrow> string \<Rightarrow> hop_addr list \<Rightarrow> 'l relay_node \<Rightarrow> 'l relay_node \<times> 'l hop_pool" where
  "dialerFor fo sid idc nextHops n =
     (case rn_dialers n (sid, idc) of
        Some d \<Rightarrow>
          (if EqualHopAddrs (Addrs d) nextHops then (n, d)
           else (let d' = UpdateEndpoints fo nextHops d
                 in (n\<lparr>rn_dialers := (rn_dialers n)((sid, idc) \<mapsto> d')\<rparr>, d')))
      | None \<Rightarrow>
          (let d' = NewHopPool fo nextHops None
           in (n\<lparr>rn_dialers := (rn_dialers n)((sid, idc) \<mapsto> d')\<rparr>, d')))"

datatype relay_outcome =
    RelayUnknownService
  | RelayNoRoute
  | RelayHopCount
  | RelayDialFailed go_error
  | RelayForward dialed
  | RelayPanic

definition RelayNode_handleTunnel ::
  "tunnel_env \<Rightarrow> 'l::linorder float_ops \<Rightarrow> (nat \<Rightarrow> dial_target \<Rightarrow> dial_net) \<Rightarrow> handshake_request \<Rightarrow>
   'l relay_node \<Rightarrow> 'l relay_node \<times> relay_outcome" where
  "RelayNode_handleTunnel env fo net req n =
     (case rn_routes n (hr_ServiceID req) of
        None \<Rightarrow> (n, RelayUnknownService)
      | Some idcRoutes \<Rightarrow>
          (let nextHops = HopsForIDC idcRoutes (hr_TargetIDC req) in
           if length nextHops = 0 then (n, RelayNoRoute)
           else (let forwardReq = req\<lparr>hr_HopCount := go_int64 (hr_HopCount req + 1)\<rparr> in
             if hr_HopCount forwardReq > MaxHopCount then (n, RelayHopCount)
             else (let (n1, d) = dialerFor fo (hr_ServiceID req) (hr_TargetIDC req) nextHops n in
               case DialWithFallback env fo (rn_psk n) net d forwardReq of
                 None \<Rightarrow> (n1, RelayPanic)
               | Some (res, d', r) \<Rightarrow>
                   (n1\<lparr>rn_dialers := (rn_dialers n1)((hr_ServiceID req, hr_TargetIDC req) \<mapsto> d')\<rparr>,
                    case res of Inl err \<Rightarrow> RelayDialFailed err | Inr tun \<Rightarrow> RelayForward tun)))))"

section \<open>Egress node\<close>

record origin_entry =
  oe_host :: string
  oe_port :: int
  oe_useTLS :: bool
  oe_dialTimeout :: int

definition origin_addr :: "origin_entry \<Rightarrow> string" where
  "origin_addr e = oe_host e @ '':'' @ show_int (oe_port e)"

definition defaultDialTimeout :: int where "defaultDialTimeout = 10 * 1000000000"

record egress_node =
  en_nodeID :: string
  en_nodeIDC :: string
  en_origins :: "string \<Rightarrow> origin_entry option"

definition origin_of_service :: "service_config \<Rightarrow> origin_entry" where
  "origin_of_service svc =
     \<lparr>oe_host = oc_Host (sc_Origin svc), oe_port = oc_Port (sc_Origin svc), oe_useTLS = oc_TLS (sc_Origin svc),
      oe_dialTimeout = (if oc_DialTimeout (sc_Origin svc) = 0 then defaultDialTimeout
        else oc_DialTimeout (sc_Origin svc))\<rparr>"

definition buildOriginTable :: "service_config list \<Rightarrow> string \<Rightarrow> origin_entry option" where
  "buildOriginTable services = fold (\<lambda>svc tbl. tbl(sc_ID svc \<mapsto> origin_of_service svc)) services Map.empty"

definition NewEgressNode :: "string \<Rightarrow> string \<Rightarrow> egress_config \<Rightarrow> egress_node" where
  "NewEgressNode nodeID nodeIDC cfg =
     \<lparr>en_nodeID = nodeID, en_nodeIDC = nodeIDC, en_origins = buildOriginTable (ec_Services cfg)\<rparr>"

definition origin_of_update :: "origin_update \<Rightarrow> origin_entry" where
  "origin_of_update u =
     \<lparr>oe_host = ou_Host u, oe_port = ou_Port u, oe_useTLS = ou_TLS u,
      oe_dialTimeout = (if ou_DialTimeout u = 0 then defaultDialTimeout else ou_DialTimeout u)\<rparr>"

definition EgressNode_Reload :: "bool \<Rightarrow> reloadable_config \<Rightarrow> egress_node \<Rightarrow> egress_node" where
  "EgressNode_Reload nonempty rc n =
     (if \<not> nonempty then n
      else n\<lparr>en_origins := en_origins n ++ (\<lambda>i. map_option origin_of_update (rl_Origins rc i))\<rparr>)"

text \<open>What the network answers while an origin is dialed: the TCP dial, setting the deadline, the TLS
  handshake for the server name, clearing the deadline.\<close>

record origin_net =
  og_dial :: "string \<Rightarrow> go_error option"
  og_deadline :: "go_error option"
  og_tls :: "string \<Rightarrow> go_error option"
  og_clear :: "go_error option"

record origin_conn =
  og_addr :: string
  og_serverName :: "string option"

definition dialOrigin :: "origin_net \<Rightarrow> string \<Rightarrow> bool \<Rightarrow> go_error + origin_conn" where
  "dialOrigin net addr useTLS = (case og_dial net addr of
     Some err \<Rightarrow> Inl (Wrapf ''tcp dial %q: %w'' [ArgStr addr] err)
   | None \<Rightarrow>
       (if \<not> useTLS then Inr \<lparr>og_addr = addr, og_serverName = None\<rparr>
        else case og_deadline net of
          Some err \<Rightarrow> Inl (Wrapf ''set deadline %q: %w'' [ArgStr addr] err)
        | None \<Rightarrow>
            (let host = (case SplitHostPort addr of Some (h, p) \<Rightarrow> h | None \<Rightarrow> '''') in
             case og_tls net host of
               Some err \<Rightarrow> Inl (Wrapf ''tls handshake %q: %w'' [ArgStr addr] err)
             | None \<Rightarrow> (case og_clear net of
                 Some err \<Rightarrow> Inl (Wrapf ''clear deadline %q: %w'' [ArgStr addr] err)
               | None \<Rightarrow> Inr \<lparr>og_addr = addr, og_serverName = Some host\<rparr>))))"

datatype egress_outcome =
    EgressMismatch
  | EgressUnknownService
  | EgressDialFailed go_error
  | EgressOrigin origin_conn

definition EgressNode_handleTunnel ::
  "origin_net \<Rightarrow> handshake_request \<Rightarrow> egress_node \<Rightarrow> egress_outcome" where
  "EgressNode_handleTunnel net req n =
     (if hr_TargetIDC req \<noteq> en_nodeIDC n then EgressMismatch
      else case en_origins n (hr_ServiceID req) of
        None \<Rightarrow> EgressUnknownService
      | Some entry \<Rightarrow>
          (case dialOrigin net (origin_addr entry) (oe_useTLS entry \<or> hr_Protocol req = ''https'') of
             Inl err \<Rightarrow> EgressDialFailed err
           | Inr conn \<Rightarrow> EgressOrigin conn))"

section \<open>The process\<close>

record 'l proxy_server =
  ps_access :: "'l access_node option"
  ps_relay :: "'l relay_node option"
  ps_egress :: "egress_node option"

text \<open>The key for the access role's dialers: the relay's, or else the egress's, or else none.\<close>

definition process_psk :: "proxy_config \<Rightarrow> string" where
  "process_psk c = (case cf_Relay c of
     Some r \<Rightarrow> tn_PSK (rc_Tunnel r)
   | None \<Rightarrow> (case cf_Egress c of Some e \<Rightarrow> tn_PSK (ec_Tunnel e) | None \<Rightarrow> ''''))"

fun opt_result :: "('a \<Rightarrow> go_error + 'b) \<Rightarrow> string \<Rightarrow> 'a option \<Rightarrow> go_error + 'b option" where
  "opt_result f msg None = Inr None"
| "opt_result f msg (Some a) = (case f a of Inl err \<Rightarrow> Inl (Wrapf msg [] err) | Inr b \<Rightarrow> Inr (Some b))"

definition NewProxyServer :: "'l float_ops \<Rightarrow> proxy_config \<Rightarrow> go_error + 'l proxy_server" where
  "NewProxyServer fo c =
     (case opt_result (\<lambda>a. NewAccessNode fo a (process_psk c)) ''access role: %w'' (cf_Access c) of
        Inl err \<Rightarrow> Inl err
      | Inr access \<Rightarrow>
          (case opt_result (NewRelayNode (nc_ID (cf_Node c))) ''relay role: %w'' (cf_Relay c) of
             Inl err \<Rightarrow> Inl err
           | Inr relay \<Rightarrow>
               Inr \<lparr>ps_access = access, ps_relay = relay,
                 ps_egress = map_option (NewEgressNode (nc_ID (cf_Node c)) (nc_IDC (cf_Node c))) (cf_Egress c)\<rparr>))"

definition ProxyServer_Reload ::
  "'l float_ops \<Rightarrow> (int \<Rightarrow> go_error option) \<Rightarrow> bool \<Rightarrow> bool \<Rightarrow> reloadable_config \<Rightarrow> 'l proxy_server \<Rightarrow> 'l proxy_server" where
  "ProxyServer_Reload fo listen routes origins rc s =
     s\<lparr>ps_access := map_option (AccessNode_Reload fo listen rc) (ps_access s),
       ps_relay := map_option (RelayNode_Reload routes rc) (ps_relay s),
       ps_egress := map_option (EgressNode_Reload origins rc) (ps_egress s)\<rparr>"

text \<open>\<open>Start\<close>: the access role may fail; the servers of the other roles run in the background.\<close>

definition ProxyServer_Start ::
  "(int \<Rightarrow> go_error option) \<Rightarrow> string list \<Rightarrow> 'l proxy_server \<Rightarrow> go_error option \<times> 'l proxy_server" where
  "ProxyServer_Start listen order s = (case ps_access s of
     None \<Rightarrow> (None, s)
   | Some a \<Rightarrow> (case AccessNode_Start listen order a of
       (None, a') \<Rightarrow> (None, s\<lparr>ps_access := Some a'\<rparr>)
     | (Some err, a') \<Rightarrow> (Some (Wrapf ''start access: %w'' [] err), s\<lparr>ps_access := Some a'\<rparr>)))"

definition ProxyServer_Stop :: "'l proxy_server \<Rightarrow> 'l proxy_server" where
  "ProxyServer_Stop s = s\<lparr>ps_access := map_option AccessNode_Stop (ps_access s)\<rparr>"

section \<open>Addresses\<close>

lemma set_show_nat: "set (show_nat n) \<subseteq> {c. (of_char c :: nat) \<in> {48..57}}"
proof (induction n rule: show_nat.induct)
  case (1 n)
  show ?case
  proof (cases "n < 10")
    case True
    then show ?thesis by (subst show_nat.simps) simp
  next
    case False
    with 1 show ?thesis by (subst show_nat.simps) auto
  qed
qed

lemma show_int_chars:
  assumes "c \<in> {CHR '':'', CHR ''['', CHR '']''}"
  shows "c \<notin> set (show_int i)"
proof
  assume "c \<in> set (show_int i)"
  then have "c = CHR ''-'' \<or> (of_char c :: nat) \<in> {48..57}"
    using set_show_nat by (fastforce simp: show_int_def split: if_splits)
  with assms show False by auto
qed

lemma takeWhile_port:
  "CHR '':'' \<notin> set p \<Longrightarrow> rev (takeWhile (\<lambda>c. c \<noteq> CHR '':'') (rev (h @ CHR '':'' # p))) = p"
proof -
  assume "CHR '':'' \<notin> set p"
  then have "takeWhile (\<lambda>c. c \<noteq> CHR '':'') (rev p @ CHR '':'' # rev h) = rev p"
    by (subst takeWhile_append2) auto
  then show ?thesis by simp
qed

lemma Split_plain:
  assumes "set h \<inter> {CHR ''['', CHR '']''} = {}" and "set p \<inter> {CHR '':'', CHR ''['', CHR '']''} = {}"
  shows "SplitHostPort (h @ '':'' @ p) = (if CHR '':'' \<in> set h then None else Some (h, p))"
proof -
  have t: "rev (takeWhile (\<lambda>c. c \<noteq> CHR '':'') (rev (h @ '':'' @ p))) = p"
    using takeWhile_port [of p h] assms(2) by simp
  have "hd (h @ '':'' @ p) \<noteq> CHR ''[''" using assms(1) by (cases h) auto
  with assms show ?thesis unfolding SplitHostPort_def t by (auto simp: Let_def)
qed

lemma Split_bracket:
  assumes "set h \<inter> {CHR ''['', CHR '']''} = {}" and "set p \<inter> {CHR '':'', CHR ''['', CHR '']''} = {}"
  shows "SplitHostPort (''['' @ h @ '']:'' @ p) = Some (h, p)"
proof -
  have t: "rev (takeWhile (\<lambda>c. c \<noteq> CHR '':'') (rev (''['' @ h @ '']:'' @ p))) = p"
    using takeWhile_port [of p "''['' @ h @ '']''"] assms(2) by simp
  have "takeWhile (\<lambda>c. c \<noteq> CHR '']'') (h @ CHR '']'' # CHR '':'' # p) = h"
    using assms(1) by (subst takeWhile_append2) auto
  with assms show ?thesis unfolding SplitHostPort_def t by (auto simp: Let_def)
qed

text \<open>Host and port can be read back from a hop's dial address, whatever kind of address it holds; the
  egress's origin address cannot be, when the origin is an IPv6 literal, since its parts are joined
  by a bare colon.\<close>

theorem addresses_read_back:
  assumes "set (ha_Addr a) \<inter> {CHR ''['', CHR '']''} = {}" and "oe_host e = ha_Addr a" and "oe_port e = ha_Port a"
  shows "SplitHostPort (DialAddr a) = Some (ha_Addr a, show_int (ha_Port a))"
    and "SplitHostPort (origin_addr e) =
      (if CHR '':'' \<in> set (ha_Addr a) then None else Some (ha_Addr a, show_int (ha_Port a)))"
proof -
  have p: "set (show_int (ha_Port a)) \<inter> {CHR '':'', CHR ''['', CHR '']''} = {}" using show_int_chars by auto
  show "SplitHostPort (DialAddr a) = Some (ha_Addr a, show_int (ha_Port a))"
    using Split_plain [OF assms(1) p] Split_bracket [OF assms(1) p] by (simp add: DialAddr_def JoinHostPort_def)
  show "SplitHostPort (origin_addr e) =
      (if CHR '':'' \<in> set (ha_Addr a) then None else Some (ha_Addr a, show_int (ha_Port a)))"
    using Split_plain [OF assms(1) p] by (simp add: origin_addr_def assms(2,3))
qed

theorem addresses_read_back_witness:
  "SplitHostPort (DialAddr (example_addr 80\<lparr>ha_Addr := ''2001:db8::1''\<rparr>)) = Some (''2001:db8::1'', ''80'') \<and>
   SplitHostPort (origin_addr \<lparr>oe_host = ''2001:db8::1'', oe_port = 80, oe_useTLS = False, oe_dialTimeout = 0\<rparr>) = None"
proof -
  have s: "show_int 80 = ''80''" by code_simp
  show ?thesis
    using addresses_read_back [of "example_addr 80\<lparr>ha_Addr := ''2001:db8::1''\<rparr>"
        "\<lparr>oe_host = ''2001:db8::1'', oe_port = 80, oe_useTLS = False, oe_dialTimeout = 0\<rparr>"]
    by (simp add: example_addr_def s)
qed

section \<open>Where a relay forwards to\<close>

lemma rr_fill_within: "alive \<noteq> [] \<Longrightarrow> rr_fill start alive is = Some r \<Longrightarrow> set r \<subseteq> set alive"
proof (induction "is" arbitrary: r)
  case (Cons i "is")
  then show ?case by (auto simp: rr_index_def Let_def split: option.splits if_splits)
qed simp

lemma pick_endpoints:
  assumes "pick p = Some (p', r)"
  shows "set r \<subseteq> set (hp_endpoints p) \<and> hp_store p' = hp_store p \<and> hp_endpoints p' = hp_endpoints p"
proof (cases "hp_selector p")
  case (RoundRobinSelector c)
  with assms obtain r' where "rr_fill (sint c smod int (length (candidates (hp_store p) (hp_endpoints p))))
      (candidates (hp_store p) (hp_endpoints p)) [0..<length (candidates (hp_store p) (hp_endpoints p))] = Some r"
    "candidates (hp_store p) (hp_endpoints p) \<noteq> []" "hp_store p' = hp_store p" "hp_endpoints p' = hp_endpoints p"
    by (auto simp: pick_def selector_Pick_def RoundRobin_Pick_def Let_def split: if_splits)
  with rr_fill_within set_candidates show ?thesis by blast
next
  case LatencySelector
  with assms have "r = Latency_Pick (hp_store p) (hp_endpoints p)" "hp_store p' = hp_store p"
    "hp_endpoints p' = hp_endpoints p" by (auto simp: pick_def selector_Pick_def)
  then show ?thesis using set_candidates [of "hp_store p" "hp_endpoints p"] by (simp add: Latency_Pick_sorts)
qed

lemma dial_loop_facts:
  assumes "dial_loop env fo psk net k es p req = (res, p', req')"
  shows "pool_ok p' = pool_ok p \<and> hp_endpoints p' = hp_endpoints p \<and> Addrs p' = Addrs p \<and>
    (\<forall>d. res = Inr d \<longrightarrow> same_request req (dd_sent d) \<and> dd_target d \<in> ep_target p ` set es)"
  using assms
proof (induction es arbitrary: k p req)
  case (Cons e es)
  obtain req1 where s: "same_request req req1" and t: "if dial_ok env (net k (ep_target p e))
     then tryEndpoint env psk (net k) (ep_addr (hp_store p ! e)) req =
       (Inr \<lparr>dd_target = ep_target p e, dd_sent = req1\<rparr>, dn_ms (net k (ep_target p e)), req1)
     else \<exists>err. tryEndpoint env psk (net k) (ep_addr (hp_store p ! e)) req = (Inl err, dn_ms (net k (ep_target p e)), req1)"
    using tryEndpoint_cases [of req env "net k" "ep_addr (hp_store p ! e)" psk] by blast
  let ?p = "reportResult fo e False (dn_ms (net k (ep_target p e))) p"
  show ?case
  proof (cases "dial_ok env (net k (ep_target p e))")
    case True
    with t Cons.prems s show ?thesis by auto
  next
    case False
    with t Cons.prems have "dial_loop env fo psk net (Suc k) es ?p req1 = (res, p', req')" by auto
    from Cons.IH [OF this] same_request_trans [OF s] show ?thesis by auto
  qed
qed auto

lemma DialWithFallback_facts:
  assumes "DialWithFallback env fo psk net p req = Some (res, p', req')"
  shows "pool_ok p' = pool_ok p \<and> hp_endpoints p' = hp_endpoints p \<and> Addrs p' = Addrs p \<and>
    (\<forall>d. res = Inr d \<longrightarrow> same_request req (dd_sent d) \<and> dd_target d \<in> dialWebSocketAddr ` set (Addrs p))"
proof -
  from assms obtain q es where pk: "pick p = Some (q, es)" and l: "dial_loop env fo psk net 0 es q req = (res, p', req')"
    by (auto simp: DialWithFallback_def split: option.splits)
  from pick_endpoints [OF pk] have q: "set es \<subseteq> set (hp_endpoints p)" "hp_store q = hp_store p" "hp_endpoints q = hp_endpoints p"
    by simp_all
  then have "pool_ok q = pool_ok p" "Addrs q = Addrs p" "ep_target q ` set es \<subseteq> dialWebSocketAddr ` set (Addrs p)"
    by (auto simp: pool_ok_def Addrs_def)
  with dial_loop_facts [OF l] q(3) show ?thesis by auto
qed

text \<open>The invariant of a relay: every dialer's pool is well formed.\<close>

definition relay_ok :: "'l relay_node \<Rightarrow> bool" where
  "relay_ok n \<longleftrightarrow> (\<forall>key p. rn_dialers n key = Some p \<longrightarrow> pool_ok p)"

lemma relay_ok_update:
  "relay_ok n \<Longrightarrow> pool_ok p \<Longrightarrow> relay_ok (n\<lparr>rn_dialers := (rn_dialers n)(key \<mapsto> p)\<rparr>)"
  by (simp add: relay_ok_def)

lemma dialerFor_facts:
  assumes ok: "relay_ok n" and d: "dialerFor fo sid idc hops n = (n1, d)"
  shows "pool_ok d \<and> relay_ok n1 \<and> set (Addrs d) \<subseteq> set hops \<and> rn_routes n1 = rn_routes n \<and> rn_psk n1 = rn_psk n"
proof (cases "rn_dialers n (sid, idc)")
  case None
  with d NewHopPool_ok [of fo hops None] relay_ok_update [OF ok, of "NewHopPool fo hops None" "(sid, idc)"]
  show ?thesis by (auto simp: dialerFor_def Let_def)
next
  case (Some p)
  with ok have p: "pool_ok p" by (simp add: relay_ok_def)
  from UpdateEndpoints_within [OF p, of fo hops] relay_ok_update [OF ok, of "UpdateEndpoints fo hops p" "(sid, idc)"]
    Some d p ok show ?thesis
    by (auto simp: dialerFor_def Let_def split: if_splits)
qed

lemma handleTunnel_forward:
  assumes "RelayNode_handleTunnel env fo net req n = (n', RelayForward d)"
  obtains rs n1 p p' r where "rn_routes n (hr_ServiceID req) = Some rs"
    and "dialerFor fo (hr_ServiceID req) (hr_TargetIDC req) (HopsForIDC rs (hr_TargetIDC req)) n = (n1, p)"
    and "DialWithFallback env fo (rn_psk n) net p (req\<lparr>hr_HopCount := go_int64 (hr_HopCount req + 1)\<rparr>) =
      Some (Inr d, p', r)"
    and "n' = n1\<lparr>rn_dialers := (rn_dialers n1)((hr_ServiceID req, hr_TargetIDC req) \<mapsto> p')\<rparr>"
    and "go_int64 (hr_HopCount req + 1) \<le> MaxHopCount"
proof -
  from assms obtain rs where rs: "rn_routes n (hr_ServiceID req) = Some rs"
    by (auto simp: RelayNode_handleTunnel_def split: option.splits)
  let ?hops = "HopsForIDC rs (hr_TargetIDC req)"
  from assms rs have hc: "go_int64 (hr_HopCount req + 1) \<le> MaxHopCount" "?hops \<noteq> []"
    by (auto simp: RelayNode_handleTunnel_def Let_def split: if_splits)
  obtain n1 p where df: "dialerFor fo (hr_ServiceID req) (hr_TargetIDC req) ?hops n = (n1, p)" by fastforce
  from assms rs hc df obtain p' r where
    "DialWithFallback env fo (rn_psk n) net p (req\<lparr>hr_HopCount := go_int64 (hr_HopCount req + 1)\<rparr>) = Some (Inr d, p', r)"
    "n' = n1\<lparr>rn_dialers := (rn_dialers n1)((hr_ServiceID req, hr_TargetIDC req) \<mapsto> p')\<rparr>"
    by (auto simp: RelayNode_handleTunnel_def Let_def split: option.splits sum.splits if_splits)
  with that rs df hc show thesis by blast
qed

lemma forward_request:
  assumes "RelayNode_handleTunnel env fo net req n = (n', RelayForward d)"
  shows "same_request (req\<lparr>hr_HopCount := go_int64 (hr_HopCount req + 1)\<rparr>) (dd_sent d) \<and>
    hr_HopCount (dd_sent d) \<le> MaxHopCount"
proof -
  from assms obtain rs n1 p p' r where
    dl: "DialWithFallback env fo (rn_psk n) net p (req\<lparr>hr_HopCount := go_int64 (hr_HopCount req + 1)\<rparr>) =
      Some (Inr d, p', r)" and hc: "go_int64 (hr_HopCount req + 1) \<le> MaxHopCount"
    by (rule handleTunnel_forward)
  from DialWithFallback_facts [OF dl] have "same_request (req\<lparr>hr_HopCount := go_int64 (hr_HopCount req + 1)\<rparr>) (dd_sent d)"
    by blast
  with same_request_fields [OF this] hc show ?thesis by simp
qed

lemma forward_target:
  assumes "relay_ok n" and "RelayNode_handleTunnel env fo net req n = (n', RelayForward d)"
  shows "(\<exists>rs. rn_routes n (hr_ServiceID req) = Some rs \<and>
      dd_target d \<in> dialWebSocketAddr ` set (HopsForIDC rs (hr_TargetIDC req))) \<and>
    relay_ok n' \<and> rn_routes n' = rn_routes n"
proof -
  from assms(2) obtain rs n1 p p' r where rs: "rn_routes n (hr_ServiceID req) = Some rs"
    and df: "dialerFor fo (hr_ServiceID req) (hr_TargetIDC req) (HopsForIDC rs (hr_TargetIDC req)) n = (n1, p)"
    and dl: "DialWithFallback env fo (rn_psk n) net p (req\<lparr>hr_HopCount := go_int64 (hr_HopCount req + 1)\<rparr>) =
      Some (Inr d, p', r)"
    and n': "n' = n1\<lparr>rn_dialers := (rn_dialers n1)((hr_ServiceID req, hr_TargetIDC req) \<mapsto> p')\<rparr>"
    by (rule handleTunnel_forward)
  note f = dialerFor_facts [OF assms(1) df] and g = DialWithFallback_facts [OF dl]
  have "dd_target d \<in> dialWebSocketAddr ` set (HopsForIDC rs (hr_TargetIDC req))" using f g by auto
  moreover have "pool_ok p'" using f g by simp
  ultimately show ?thesis using f rs n' relay_ok_update [of n1 p'] by simp
qed

text \<open>C14: A relay forwards along its current routes. When a tunnel request is forwarded, it goes to one of
  the hops that the routing table in force names for the request's service and data centre - whatever
  the dialer of that pair held before - and the forwarded request is the received one with its hop
  count one higher and at most the maximum; the relay's invariant is kept.\<close>

theorem relay_forwards_on_current_routes:
  assumes "relay_ok n" and "RelayNode_handleTunnel env fo net req n = (n', RelayForward d)"
  shows "(\<exists>rs. rn_routes n (hr_ServiceID req) = Some rs \<and>
      dd_target d \<in> dialWebSocketAddr ` set (HopsForIDC rs (hr_TargetIDC req))) \<and>
    same_request (req\<lparr>hr_HopCount := go_int64 (hr_HopCount req + 1)\<rparr>) (dd_sent d) \<and>
    hr_HopCount (dd_sent d) \<le> MaxHopCount \<and> relay_ok n' \<and> rn_routes n' = rn_routes n"
  using forward_target [OF assms] forward_request [OF assms(2)] by blast

definition example_relay :: "int relay_node" where
  "example_relay = \<lparr>rn_nodeID = ''r1'', rn_psk = ''k'',
     rn_routes = [''web'' \<mapsto> [\<lparr>ir_IDC = ''sh'', ir_Groups =
       [\<lparr>rg_Name = '''', rg_Priority = 1, rg_Weight = 0, rg_Hops = [example_addr 1, example_addr 2]\<rparr>]\<rparr>]],
     rn_dialers = Map.empty, rn_frameSize = 0\<rparr>"

definition example_forward :: "int relay_node \<times> relay_outcome" where
  "example_forward = RelayNode_handleTunnel example_env example_floats (\<lambda>k t. net_up) example_signed example_relay"

definition example_dialed :: dialed where
  "example_dialed = \<lparr>dd_target = dialWebSocketAddr (example_addr 1),
     dd_sent = SignRequest example_env 1000 ''k'' (example_signed\<lparr>hr_HopCount := 1\<rparr>)\<rparr>"

lemma example_forwards: "snd example_forward = RelayForward example_dialed"
  by code_simp

lemma example_relay_ok: "relay_ok example_relay"
  by (simp add: relay_ok_def example_relay_def)

theorem relay_forwards_on_current_routes_witness:
  "hr_HopCount (dd_sent example_dialed) \<le> MaxHopCount \<and> relay_ok (fst example_forward)"
proof -
  have "RelayNode_handleTunnel example_env example_floats (\<lambda>k t. net_up) example_signed example_relay =
      (fst example_forward, RelayForward example_dialed)"
    unfolding example_forwards [symmetric] by (simp add: example_forward_def)
  from relay_forwards_on_current_routes [OF example_relay_ok this] show ?thesis by blast
qed

section \<open>The loop guard\<close>

text \<open>
  \<open>forwarded env fo k r r'\<close>: the request \<open>r\<close> was sent and, over \<open>k\<close> relays, became \<open>r'\<close>. At each relay the
  server receives the request as it was sent and accepts it, and the node forwards it. The relays,
  their routes, keys, clocks and networks are arbitrary.
\<close>

inductive forwarded ::
  "tunnel_env \<Rightarrow> 'l::linorder float_ops \<Rightarrow> nat \<Rightarrow> handshake_request \<Rightarrow> handshake_request \<Rightarrow> bool"
  for env fo where
  sent: "forwarded env fo 0 r r"
| relay: "forwarded env fo k r r1 \<Longrightarrow>
    handleWebSocket env psk node now None (Inr (te_enc_req env r1)) = (resps, Some r1) \<Longrightarrow>
    RelayNode_handleTunnel env fo net r1 n = (n', RelayForward d) \<Longrightarrow>
    forwarded env fo (Suc k) r (dd_sent d)"

inductive_cases forwarded_SucE: "forwarded env fo (Suc k) r r'"

lemma forwarded_facts:
  assumes "forwarded env fo k r r'" and "0 \<le> hr_HopCount r" and "hr_HopCount r \<le> MaxHopCount"
  shows "hr_HopCount r' = hr_HopCount r + int k \<and> hr_HopCount r' \<le> MaxHopCount \<and>
    hr_ServiceID r' = hr_ServiceID r \<and> hr_TargetIDC r' = hr_TargetIDC r"
  using assms
proof (induction k r r' rule: forwarded.induct)
  case (relay k r r1 psk node now resps net n n' d)
  note ih = relay.IH [OF relay.prems]
  then have "go_int64 (hr_HopCount r1 + 1) = hr_HopCount r1 + 1"
    using relay.prems by (intro go_int64_id) (simp_all add: MaxHopCount_def)
  with forward_request [OF relay.hyps(3)] ih show ?case
    using same_request_fields [of "r1\<lparr>hr_HopCount := go_int64 (hr_HopCount r1 + 1)\<rparr>" "dd_sent d"] by simp
qed simp

text \<open>C13: Routing loops are cut. However the relays are configured, a request that starts with a hop count
  in range crosses at most as many relays as the count leaves to the maximum of 16; each adds one,
  and the service and the data centre that it names never change on the way.\<close>

theorem relays_crossed_bounded:
  assumes "forwarded env fo k r r'" and "0 \<le> hr_HopCount r" and "hr_HopCount r \<le> MaxHopCount"
  shows "int k \<le> MaxHopCount - hr_HopCount r \<and> hr_HopCount r' = hr_HopCount r + int k \<and>
    hr_ServiceID r' = hr_ServiceID r \<and> hr_TargetIDC r' = hr_TargetIDC r"
  using forwarded_facts [OF assms] by auto

lemma example_signed_accepted:
  "handleWebSocket example_env ''k'' ''r1'' 1000 None (Inr (te_enc_req example_env example_signed)) =
     ([OKResponse ''r1''], Some example_signed)"
  by code_simp

lemma example_forwarded: "forwarded example_env example_floats 1 example_signed (dd_sent example_dialed)"
proof -
  have "RelayNode_handleTunnel example_env example_floats (\<lambda>k t. net_up) example_signed example_relay =
      (fst example_forward, RelayForward example_dialed)"
    unfolding example_forwards [symmetric] by (simp add: example_forward_def)
  from forwarded.relay [OF forwarded.sent example_signed_accepted this] show ?thesis by simp
qed

theorem relays_crossed_bounded_witness:
  "hr_HopCount (dd_sent example_dialed) = hr_HopCount example_signed + 1 \<and> hr_ServiceID (dd_sent example_dialed) = ''web''"
proof -
  have h: "hr_HopCount example_signed = 0" "hr_ServiceID example_signed = ''web''" by code_simp+
  then have "0 \<le> hr_HopCount example_signed" "hr_HopCount example_signed \<le> MaxHopCount" by (simp_all add: MaxHopCount_def)
  from relays_crossed_bounded [OF example_forwarded this] h show ?thesis by simp
qed

section \<open>From the client to the origin\<close>

text \<open>C12: A connection reaches the origin of its service. If an access instance opens a tunnel for a client,
  relays forward the request, and an egress node connects it to an origin, then the egress is in the
  data centre that the instance targets, the origin is the one that the egress holds for the
  instance's service, and the request crossed at most 16 relays.\<close>

theorem client_reaches_its_origin:
  assumes "handleConn env fo net remote inst = (inst', out)" and "out = ConnRelay d \<or> out = ConnL7 d"
    and "forwarded env fo k (dd_sent d) r" and "EgressNode_handleTunnel onet r eg = EgressOrigin conn"
  shows "en_nodeIDC eg = ss_targetIDC (si_state inst) \<and> k \<le> 16 \<and>
    (\<exists>e. en_origins eg (sc_ID (si_cfg inst)) = Some e \<and> og_addr conn = origin_addr e)"
proof -
  let ?req = "access_request inst remote"
  from assms(1,2) obtain p q where
    "DialWithFallback env fo (si_psk inst) net (ss_pool (si_state inst)) ?req = Some (Inr d, p, q)"
    by (auto simp: handleConn_def Let_def split: option.splits sum.splits if_splits)
  then have "same_request ?req (dd_sent d)" using DialWithFallback_facts by blast
  from same_request_fields [OF this] have d: "hr_HopCount (dd_sent d) = 0" "hr_ServiceID (dd_sent d) = sc_ID (si_cfg inst)"
    "hr_TargetIDC (dd_sent d) = ss_targetIDC (si_state inst)" by (simp_all add: access_request_def)
  with forwarded_facts [OF assms(3)] have r: "int k \<le> MaxHopCount" "hr_ServiceID r = sc_ID (si_cfg inst)"
    "hr_TargetIDC r = ss_targetIDC (si_state inst)" by (auto simp: MaxHopCount_def)
  have addr: "og_addr conn = a" if "dialOrigin onet a tls = Inr conn" for a tls
    using that by (auto simp: dialOrigin_def Let_def split: option.splits if_splits)
  from assms(4) r addr show ?thesis
    by (auto simp: EgressNode_handleTunnel_def MaxHopCount_def split: if_splits option.splits sum.splits)
qed

definition example_instance :: "int service_instance" where
  "example_instance = \<lparr>si_cfg = example_service\<lparr>sc_TargetIDC := ''sh''\<rparr>,
     si_state = \<lparr>ss_pool = NewHopPool example_floats [example_addr 1] None, ss_targetIDC = ''sh''\<rparr>,
     si_l7handler = False, si_frameSize = 0, si_psk = ''k'', si_running = True\<rparr>"

definition example_egress :: egress_node where
  "example_egress = \<lparr>en_nodeID = ''e1'', en_nodeIDC = ''sh'', en_origins = [''web'' \<mapsto>
     \<lparr>oe_host = ''10.9.0.1'', oe_port = 80, oe_useTLS = False, oe_dialTimeout = 5\<rparr>]\<rparr>"

definition example_origin_net :: origin_net where
  "example_origin_net = \<lparr>og_dial = (\<lambda>a. None), og_deadline = None, og_tls = (\<lambda>h. None), og_clear = None\<rparr>"

definition example_accepted :: "int service_instance \<times> conn_outcome" where
  "example_accepted = handleConn example_env example_floats (\<lambda>k t. net_up) ''198.51.100.7:5555'' example_instance"

lemma example_chain:
  "snd example_accepted = ConnRelay \<lparr>dd_target = dialWebSocketAddr (example_addr 1), dd_sent = example_signed\<rparr>"
  "EgressNode_handleTunnel example_origin_net (dd_sent example_dialed) example_egress =
     EgressOrigin \<lparr>og_addr = ''10.9.0.1:80'', og_serverName = None\<rparr>"
  by code_simp+

theorem client_reaches_its_origin_witness:
  "en_nodeIDC example_egress = ss_targetIDC (si_state example_instance) \<and>
   (\<exists>e. en_origins example_egress (sc_ID (si_cfg example_instance)) = Some e \<and> ''10.9.0.1:80'' = origin_addr e)"
proof -
  let ?d = "\<lparr>dd_target = dialWebSocketAddr (example_addr 1), dd_sent = example_signed\<rparr>"
  have "handleConn example_env example_floats (\<lambda>k t. net_up) ''198.51.100.7:5555'' example_instance =
      (fst example_accepted, ConnRelay ?d)"
    unfolding example_chain(1) [symmetric] by (simp add: example_accepted_def)
  moreover have "forwarded example_env example_floats 1 (dd_sent ?d) (dd_sent example_dialed)"
    using example_forwarded by simp
  ultimately show ?thesis
    using client_reaches_its_origin [OF _ disjI1 [OF refl] _ example_chain(2)] by fastforce
qed

section \<open>Configuration and start\<close>

lemma new_instances_ok:
  assumes "list_all access_service_ok svcs"
  shows "\<exists>m'. new_instances fo fs psk svcs m = Inr m'"
  using assms
proof (induction svcs arbitrary: m)
  case (Cons s svcs)
  then have "groups_ok (sc_Groups s)" by (simp add: access_service_ok_def)
  from groups_ok_sorted [OF this] obtain inst where "newServiceInstance fo s fs psk = Inr inst"
    by (auto simp: newServiceInstance_def ServiceConfig_SortedHops_def Let_def)
  with Cons show ?case by simp
qed simp

lemma build_routes_ok:
  "list_all relay_service_ok svcs \<Longrightarrow> \<exists>tbl'. build_routes svcs tbl = Inr tbl'"
  by (induction svcs arbitrary: tbl) (auto simp: relay_service_ok_def)

text \<open>Validation is enough to construct the process: from a configuration that \<open>Load\<close> accepts, every
  configured role can be built - no constructor error is reachable - and no other role is.\<close>

theorem validated_config_constructs:
  assumes "Load (Inr c0) = Inr c"
  shows "\<exists>s :: 'l proxy_server. NewProxyServer fo c = Inr s \<and>
    (ps_access s = None \<longleftrightarrow> cf_Access c = None) \<and> (ps_relay s = None \<longleftrightarrow> cf_Relay c = None) \<and>
    (ps_egress s = None \<longleftrightarrow> cf_Egress c = None)"
proof -
  have ok: "config_ok c" by (rule Load_ok [OF assms])
  have "\<exists>x. opt_result (\<lambda>a. NewAccessNode fo a (process_psk c)) ''access role: %w'' (cf_Access c) = Inr x \<and>
      (x = None \<longleftrightarrow> cf_Access c = None)"
  proof (cases "cf_Access c")
    case (Some a)
    with ok have "list_all access_service_ok (ac_Services a)" by (simp add: config_ok_def)
    from new_instances_ok [OF this, of fo "if ac_MaxFrameSize a = 0 then defaultAccessFrameSize else ac_MaxFrameSize a"
        "process_psk c" Map.empty] obtain m where
      "new_instances fo (if ac_MaxFrameSize a = 0 then defaultAccessFrameSize else ac_MaxFrameSize a)
        (process_psk c) (ac_Services a) Map.empty = Inr m" by blast
    with Some show ?thesis by (simp add: NewAccessNode_def Let_def)
  qed simp
  moreover have "\<exists>x :: 'l relay_node option. opt_result (NewRelayNode (nc_ID (cf_Node c))) ''relay role: %w'' (cf_Relay c) = Inr x \<and>
      (x = None \<longleftrightarrow> cf_Relay c = None)"
  proof (cases "cf_Relay c")
    case (Some r)
    with ok have "list_all relay_service_ok (rc_Services r)" by (simp add: config_ok_def)
    from build_routes_ok [OF this, of Map.empty] obtain tbl where "build_routes (rc_Services r) Map.empty = Inr tbl" by blast
    with Some show ?thesis by (simp add: NewRelayNode_def buildRouteTable_def)
  qed simp
  ultimately show ?thesis by (auto simp: NewProxyServer_def)
qed

theorem validated_config_constructs_witness:
  "\<exists>s :: int proxy_server. NewProxyServer example_floats (example_config\<lparr>cf_Relay :=
     Some \<lparr>rc_Tunnel = default_timeouts example_tunnel, rc_Services = [example_service]\<rparr>\<rparr>) = Inr s \<and> ps_relay s \<noteq> None"
proof -
  have "Load (Inr example_config) = Inr (example_config\<lparr>cf_Relay :=
     Some \<lparr>rc_Tunnel = default_timeouts example_tunnel, rc_Services = [example_service]\<rparr>\<rparr>)"
    by (simp add: Load_def example_config_valid)
  from validated_config_constructs [OF this, of example_floats] show ?thesis by auto
qed

text \<open>A process with the access role alone has no key: its requests are not signed.\<close>

lemma access_only_unsigned:
  assumes "cf_Relay c = None" and "cf_Egress c = None" and "NewProxyServer fo c = Inr s" and "ps_access s = Some a"
  shows "an_psk a = ''''"
  using assms
  by (cases "cf_Access c") (auto simp: NewProxyServer_def process_psk_def NewAccessNode_def Let_def map_sum_def
      split: sum.splits)

section \<open>Frame sizes of two nodes\<close>

lemma readPump_closed: "tp_pwClosed t \<Longrightarrow> readPump ms t = t"
  by (induction ms) (simp_all add: readPump_def readPump_step_def)

lemma readPump_oversized:
  assumes "int (length b) > tp_readLimit t"
  shows "tp_pwClosed (readPump (WsBinary b # ms) t) \<and> tp_pipe (readPump (WsBinary b # ms) t) = tp_pipe t"
  using assms readPump_closed [of "t\<lparr>tp_pwClosed := True\<rparr>" ms] readPump_closed [of t ms]
  by (cases "tp_pwClosed t") (auto simp: readPump_def readPump_step_def)

lemma write_first_message:
  assumes "p \<noteq> []" and "0 < tp_frameSize t" and "\<And>k. w k = (None, None)"
  shows "\<exists>t' ms. write_loop w k p 0 t = Some (t', length p, None) \<and>
    tp_sent t' = tp_sent t @ WsBinary (take (nat (tp_frameSize t)) p) # ms"
proof -
  define n where "n = (if tp_frameSize t > int (length p) then length p else nat (tp_frameSize t))"
  have n: "n \<le> length p" "take n p = take (nat (tp_frameSize t)) p" using assms(2) by (auto simp: n_def)
  let ?t = "t\<lparr>tp_sent := tp_sent t @ [WsBinary (take n p)]\<rparr>"
  have f: "(tp_frameSize t < 1) = False" using assms(2) by simp
  have step: "write_loop w k p 0 t = write_loop w (Suc k) (drop n p) (0 + n) ?t"
    by (subst write_loop.simps) (simp only: assms(1,3) f if_False Let_def n_def [symmetric] prod.case option.case)
  have "0 < tp_frameSize ?t" using assms(2) by simp
  from write_loop_sends [OF this, of w "drop n p" "0 + n" "Suc k"] obtain t' m err ms where
    "write_loop w (Suc k) (drop n p) (0 + n) ?t = Some (t', 0 + n + m, err)" "tp_sent t' = tp_sent ?t @ ms"
    "err = None \<longrightarrow> m = length (drop n p) \<and> t' = ?t\<lparr>tp_sent := tp_sent ?t @ ms\<rparr>"
    "(\<forall>i. w i = (None, None)) \<longrightarrow> err = None" unfolding write_spec_def by blast
  with step n assms(3) show ?thesis by (intro exI [of _ t'] exI [of _ ms]) auto
qed

text \<open>The default frame sizes do not fit together. An access node without \<open>max_frame_size\<close> writes
  messages of up to 64 KiB, a relay or egress without one reads messages of at most 32 KiB and 512
  bytes: a write of more than that succeeds at the access node and ends the peer's read pump with
  none of its bytes delivered.\<close>

theorem default_frame_sizes_clash:
  assumes "NewAccessNode fo a psk = Inr n" and "ac_MaxFrameSize a = 0"
    and "length p > 33280" and "\<And>k. w k = (None, None)"
  shows "\<exists>t'. Transport_Write w p (NewTransport (an_frameSize n)) = Some (t', length p, None) \<and>
    tp_pwClosed (readPump (tp_sent t') (NewTransport 0)) \<and> tp_pipe (readPump (tp_sent t') (NewTransport 0)) = []"
proof -
  from assms(1,2) have "an_frameSize n = 65536"
    by (auto simp: NewAccessNode_def Let_def map_sum_def defaultAccessFrameSize_def split: sum.splits)
  then have t: "NewTransport (an_frameSize n) = NewTransport 65536" by simp
  have "p \<noteq> []" using assms(3) by auto
  from write_first_message [where t = "NewTransport 65536" and k = 0 and w = w, OF this _ assms(4)] obtain t' ms where
    l: "write_loop w 0 p 0 (NewTransport 65536) = Some (t', length p, None)"
      "tp_sent t' = WsBinary (take 65536 p) # ms"
    by (auto simp: NewTransport_def)
  have "int (length (take 65536 p)) > tp_readLimit (NewTransport 0)"
    using assms(3) by (simp add: tp_readLimit_def NewTransport_def defaultFrameSize_def)
  from readPump_oversized [OF this, of ms] l show ?thesis
    by (simp add: t Transport_Write_def) (simp add: NewTransport_def)
qed

definition example_access :: access_config where
  "example_access = \<lparr>ac_MaxFrameSize = 0, ac_Services = []\<rparr>"

theorem default_frame_sizes_clash_witness:
  "\<exists>t'. tp_pwClosed (readPump (tp_sent t') (NewTransport 0)) \<and>
    Transport_Write (\<lambda>k. (None, None)) (replicate 40000 0) (NewTransport 65536) = Some (t', 40000, None)"
proof -
  have "NewAccessNode example_floats example_access ''k'' =
      Inr \<lparr>an_frameSize = 65536, an_psk = ''k'', an_services = Map.empty\<rparr>"
    by (simp add: NewAccessNode_def example_access_def defaultAccessFrameSize_def)
  from default_frame_sizes_clash [OF this, of "replicate 40000 0" "\<lambda>k. (None, None)"] show ?thesis
    by (auto simp: example_access_def)
qed

section \<open>Hot reload\<close>

text \<open>What an access reload changes. Services that the new configuration does not name are gone; a
  running one that it names keeps its port, protocol and target, whatever the new entry says, and its
  hops become those of the new groups if there are any; and a reload of unchanged groups forgets the
  health that was learnt, since the pool is a new one.\<close>

theorem access_reload_effects:
  assumes "an_services n i = Some inst" and "n' = AccessNode_Reload fo listen rc n"
  shows "an_services n' i = None \<longleftrightarrow> incoming_services (rl_AccessServices rc) i = None"
    and "an_services n' i = Some inst' \<Longrightarrow> si_cfg inst' = si_cfg inst \<and> si_running inst' = si_running inst \<and>
      Addrs (ss_pool (si_state inst')) =
        (case rl_Groups rc i of Some gs \<Rightarrow> if SortGroups gs = [] then Addrs (ss_pool (si_state inst)) else SortGroups gs
         | None \<Rightarrow> Addrs (ss_pool (si_state inst)))"
    and "an_services n' i = Some inst' \<Longrightarrow> rl_Groups rc i = Some gs \<Longrightarrow> SortGroups gs \<noteq> [] \<Longrightarrow>
      ss_targetIDC (si_state inst') = sc_TargetIDC (si_cfg inst) \<and>
      ss_pool (si_state inst') = NewHopPool fo (SortGroups gs) None"
  using assms
  by (auto simp: AccessNode_Reload_def reload_entry_def reloadGroups_def Let_def split: option.splits if_splits)

definition example_access_node :: "int access_node" where
  "example_access_node = \<lparr>an_frameSize = 65536, an_psk = ''k'', an_services = [''web'' \<mapsto> example_instance]\<rparr>"

definition example_reload :: reloadable_config where
  "example_reload = \<lparr>rl_AccessServices = [example_service\<lparr>sc_TargetIDC := ''bj''\<rparr>],
     rl_Groups = [''web'' \<mapsto> [\<lparr>rg_Name = '''', rg_Priority = 0, rg_Weight = 0, rg_Hops = [example_addr 7]\<rparr>]],
     rl_Routes = Map.empty, rl_Origins = Map.empty\<rparr>"

theorem access_reload_effects_witness:
  "an_services (AccessNode_Reload example_floats (\<lambda>p. None) example_reload example_access_node) ''web'' \<noteq> None"
proof -
  have "an_services example_access_node ''web'' = Some example_instance"
    by (simp add: example_access_node_def)
  moreover have "incoming_services (rl_AccessServices example_reload) ''web'' \<noteq> None"
    by (simp add: example_reload_def incoming_services_def example_service_def)
  ultimately show ?thesis using access_reload_effects(1) [OF _ refl] by metis
qed

text \<open>A relay reload overlays the new routes on the old, and afterwards every cached dialer belongs to a
  service and data centre that the table names; an untouched service keeps its routes and the
  invariant holds. A service that the new configuration dropped is still served.\<close>

theorem relay_reload_effects:
  assumes "relay_ok n" and "n' = RelayNode_Reload True rc n"
  shows "rn_routes n' sid = (case rl_Routes rc sid of Some rs \<Rightarrow> Some rs | None \<Rightarrow> rn_routes n sid)"
    and "rn_dialers n' key = Some p \<Longrightarrow> valid_key (rn_routes n') key \<and> rn_dialers n key = Some p"
    and "relay_ok n'"
  using assms
  by (auto simp: RelayNode_Reload_def cleanStaleDialers_def Let_def map_add_def relay_ok_def split: option.splits if_splits)

theorem relay_reload_effects_witness:
  "rn_routes (RelayNode_Reload True example_reload example_relay) ''web'' = rn_routes example_relay ''web'' \<and>
   relay_ok (RelayNode_Reload True example_reload example_relay)"
  using relay_reload_effects(1,3) [OF example_relay_ok refl, of example_reload] by (simp add: example_reload_def)

end
