(* ===== verification/Process.thy ===== *)
theory Process
  imports Nodes
begin

text \<open>
  \<^verbatim>\<open>cmd/proxy/main.go\<close>: what a \<open>SIGHUP\<close> does. The configuration file is read and validated again; when
  that succeeds its reloadable part goes to every role of the process. The certificates and the log level are
  in \<open>Lifecycle\<close>.
\<close>

definition collect :: "('s \<Rightarrow> bool) \<Rightarrow> ('s \<Rightarrow> string) \<Rightarrow> ('s \<Rightarrow> 'v) \<Rightarrow> 's list \<Rightarrow> string \<Rightarrow> 'v option" where
  "collect keep key val svcs = fold (\<lambda>s m. if keep s then m(key s \<mapsto> val s) else m) svcs Map.empty"

definition has_routes :: "service_config \<Rightarrow> bool" where
  "has_routes s \<longleftrightarrow> length (sc_Routes s) > 0"

definition has_origin :: "service_config \<Rightarrow> bool" where
  "has_origin s \<longleftrightarrow> oc_Host (sc_Origin s) \<noteq> ''''"

definition origin_update_of :: "service_config \<Rightarrow> origin_update" where
  "origin_update_of s = \<lparr>ou_Host = oc_Host (sc_Origin s), ou_Port = oc_Port (sc_Origin s),
     ou_TLS = oc_TLS (sc_Origin s), ou_DialTimeout = oc_DialTimeout (sc_Origin s)\<rparr>"

definition services_of :: "('c \<Rightarrow> service_config list) \<Rightarrow> 'c option \<Rightarrow> service_config list" where
  "services_of f c = (case c of None \<Rightarrow> [] | Some x \<Rightarrow> f x)"

definition buildReloadableConfig :: "proxy_config \<Rightarrow> reloadable_config" where
  "buildReloadableConfig c =
     \<lparr>rl_AccessServices = services_of ac_Services (cf_Access c),
      rl_Groups = collect (\<lambda>s. length (sc_Groups s) > 0) sc_ID sc_Groups (services_of ac_Services (cf_Access c)),
      rl_Routes = collect has_routes sc_ID sc_Routes (services_of rc_Services (cf_Relay c)),
      rl_Origins = collect has_origin sc_ID origin_update_of (services_of ec_Services (cf_Egress c))\<rparr>"

text \<open>\<open>handleReload\<close>: \<open>parsed\<close> is what reading and parsing the file gives now. The roles ignore an empty
  map of routes or origins.\<close>

definition handleReload ::
  "'l float_ops \<Rightarrow> (int \<Rightarrow> go_error option) \<Rightarrow> go_error + proxy_config \<Rightarrow> 'l proxy_server \<times> proxy_config \<Rightarrow>
   'l proxy_server \<times> proxy_config" where
  "handleReload fo listen parsed = (\<lambda>(srv, live). case Load parsed of
     Inl err \<Rightarrow> (srv, live)
   | Inr c \<Rightarrow>
       (ProxyServer_Reload fo listen
          (list_ex has_routes (services_of rc_Services (cf_Relay c)))
          (list_ex has_origin (services_of ec_Services (cf_Egress c)))
          (buildReloadableConfig c) srv, c))"

definition activeRoles :: "proxy_config \<Rightarrow> string list" where
  "activeRoles c = (if cf_Access c \<noteq> None then [''access''] else []) @
     (if cf_Relay c \<noteq> None then [''relay''] else []) @ (if cf_Egress c \<noteq> None then [''egress''] else [])"

section \<open>A reload takes effect\<close>

lemma collect_absent: "k \<notin> key ` set svcs \<Longrightarrow> fold (\<lambda>s m. if keep s then m(key s \<mapsto> val s) else m) svcs m k = m k"
  by (induction svcs arbitrary: m) auto

lemma collect_distinct:
  assumes "distinct (map key svcs)" and "s \<in> set svcs"
  shows "collect keep key val svcs (key s) = (if keep s then Some (val s) else None)"
proof -
  have "fold (\<lambda>s m. if keep s then m(key s \<mapsto> val s) else m) svcs m (key s) =
      (if keep s then Some (val s) else m (key s))" for m
    using assms
  proof (induction svcs arbitrary: m)
    case (Cons t svcs)
    show ?case
    proof (cases "s = t")
      case True
      with Cons.prems have "key s \<notin> key ` set svcs" by auto
      with True show ?thesis by (simp add: collect_absent)
    next
      case False
      with Cons.prems(2) have s: "s \<in> set svcs" by simp
      then have "key s \<in> key ` set svcs" by (rule imageI)
      with Cons.prems(1) have "key s \<noteq> key t" by auto
      with Cons.IH [OF _ s] Cons.prems(1) show ?thesis by simp
    qed
  qed simp
  then show ?thesis by (simp add: collect_def)
qed

text \<open>A reload takes effect. When the new file is accepted and names each relay service once, a
  process with a relay serves every service of the new file along exactly the new routes: a request
  that it then forwards goes to a hop that the new file names for the service and data centre.\<close>

theorem reload_takes_effect:
  assumes "handleReload fo listen parsed (srv, live) = (srv', c)" and "Load parsed = Inr c"
    and "cf_Relay c = Some r" and "distinct (map sc_ID (rc_Services r))" and "s \<in> set (rc_Services r)"
    and "ps_relay srv = Some n" and "relay_ok n"
  shows "\<exists>n'. ps_relay srv' = Some n' \<and> relay_ok n' \<and> rn_routes n' (sc_ID s) = Some (sc_Routes s) \<and>
    (\<forall>env net req n'' d. hr_ServiceID req = sc_ID s \<longrightarrow>
      RelayNode_handleTunnel env fo net req n' = (n'', RelayForward d) \<longrightarrow>
      dd_target d \<in> dialWebSocketAddr ` set (HopsForIDC (sc_Routes s) (hr_TargetIDC req)))"
proof -
  have "config_ok c" by (rule Load_ok [OF assms(2)])
  with assms(3) have all: "list_all relay_service_ok (rc_Services r)" by (simp add: config_ok_def)
  then have s: "has_routes s" using assms(5) by (auto simp: list_all_iff relay_service_ok_def has_routes_def)
  then have ne: "list_ex has_routes (services_of rc_Services (cf_Relay c))"
    using assms(3,5) by (auto simp: services_of_def list_ex_iff)
  let ?rc = "buildReloadableConfig c"
  let ?n = "RelayNode_Reload True ?rc n"
  have n': "ps_relay srv' = Some ?n"
    using assms(1,2,6) ne by (auto simp: handleReload_def ProxyServer_Reload_def)
  have "rl_Routes ?rc (sc_ID s) = Some (sc_Routes s)"
    using collect_distinct [OF assms(4,5), of has_routes sc_Routes] s assms(3)
    by (simp add: buildReloadableConfig_def services_of_def)
  then have rt: "rn_routes ?n (sc_ID s) = Some (sc_Routes s)"
    by (simp add: RelayNode_Reload_def cleanStaleDialers_def Let_def)
  have ok: "relay_ok ?n"
    using assms(7) by (auto simp: RelayNode_Reload_def cleanStaleDialers_def Let_def relay_ok_def)
  have "dd_target d \<in> dialWebSocketAddr ` set (HopsForIDC (sc_Routes s) (hr_TargetIDC req))"
    if "hr_ServiceID req = sc_ID s" "RelayNode_handleTunnel env fo net req ?n = (n'', RelayForward d)"
    for env net req n'' d
    using forward_target [OF ok that(2)] that(1) rt by simp
  with n' ok rt show ?thesis by blast
qed

definition example_server :: "int proxy_server" where
  "example_server = \<lparr>ps_access = None, ps_relay = Some example_relay, ps_egress = None\<rparr>"

theorem reload_takes_effect_witness:
  "\<exists>n'. ps_relay (fst (handleReload example_floats (\<lambda>p. None) (Inr example_config) (example_server, example_config))) = Some n' \<and>
     rn_routes n' ''web'' = Some (sc_Routes example_service)"
proof -
  let ?c = "example_config\<lparr>cf_Relay := Some \<lparr>rc_Tunnel = default_timeouts example_tunnel, rc_Services = [example_service]\<rparr>\<rparr>"
  let ?h = "handleReload example_floats (\<lambda>p. None) (Inr example_config) (example_server, example_config)"
  have l: "Load (Inr example_config) = Inr ?c" by (simp add: Load_def example_config_valid)
  then have "?h = (fst ?h, ?c)" by (simp add: handleReload_def)
  moreover have "cf_Relay ?c = Some \<lparr>rc_Tunnel = default_timeouts example_tunnel, rc_Services = [example_service]\<rparr>"
    "ps_relay example_server = Some example_relay" "sc_ID example_service = ''web''"
    by (simp_all add: example_server_def example_service_def)
  ultimately show ?thesis
    using reload_takes_effect [where s = example_service and n = example_relay, OF _ l _ _ _ _ example_relay_ok]
    by fastforce
qed

end
