(* ===== verification/CertReload.thy ===== *)
theory CertReload
  imports Prelude
begin

text \<open>
  \<^verbatim>\<open>tunnel/cert_reloader.go\<close>, the set-up of \<^verbatim>\<open>tunnel/server.go\<close> and the life cycle of \<^verbatim>\<open>node/node.go\<close>. A
  file has a modification time and a content; times count from Go's zero time. A load reads the disk
  four times, and the files may change in between: the two \<open>os.Stat\<close>, then the certificate and the key
  by \<open>tls.LoadX509KeyPair\<close>. How a pair is parsed, \<open>x509\<close>, is an argument.
\<close>

section \<open>The reloader\<close>

type_synonym disk = "string \<Rightarrow> (int \<times> byte list) option"

definition zero_time :: int where "zero_time = 0"

record 'c cert_reloader =
  cr_certFile :: string
  cr_keyFile :: string
  cr_cert :: "'c option"
  cr_certModTime :: int
  cr_keyModTime :: int
  cr_stopped :: bool

definition os_Stat :: "disk \<Rightarrow> string \<Rightarrow> go_error + int" where
  "os_Stat d file = (case d file of Some (m, b) \<Rightarrow> Inr m | None \<Rightarrow> Inl (ErrNet ''no such file or directory''))"

definition os_ReadFile :: "disk \<Rightarrow> string \<Rightarrow> go_error + byte list" where
  "os_ReadFile d file = (case d file of Some (m, b) \<Rightarrow> Inr b | None \<Rightarrow> Inl (ErrNet ''no such file or directory''))"

definition LoadX509KeyPair ::
  "(byte list \<Rightarrow> byte list \<Rightarrow> go_error + 'c) \<Rightarrow> disk \<Rightarrow> disk \<Rightarrow> string \<Rightarrow> string \<Rightarrow> go_error + 'c" where
  "LoadX509KeyPair x509 d3 d4 certFile keyFile =
     (case os_ReadFile d3 certFile of
        Inl e \<Rightarrow> Inl e
      | Inr c \<Rightarrow> (case os_ReadFile d4 keyFile of Inl e \<Rightarrow> Inl e | Inr k \<Rightarrow> x509 c k))"

definition cr_load ::
  "(byte list \<Rightarrow> byte list \<Rightarrow> go_error + 'c) \<Rightarrow> disk \<Rightarrow> disk \<Rightarrow> disk \<Rightarrow> disk \<Rightarrow> 'c cert_reloader
     \<Rightarrow> go_error option \<times> 'c cert_reloader" where
  "cr_load x509 d1 d2 d3 d4 r =
     (case os_Stat d1 (cr_certFile r) of
        Inl e \<Rightarrow> (Some (Wrapf ''stat cert file %q: %w'' [ArgStr (cr_certFile r)] e), r)
      | Inr certTime \<Rightarrow>
          (case os_Stat d2 (cr_keyFile r) of
             Inl e \<Rightarrow> (Some (Wrapf ''stat key file %q: %w'' [ArgStr (cr_keyFile r)] e), r)
           | Inr keyTime \<Rightarrow>
               if certTime = cr_certModTime r \<and> keyTime = cr_keyModTime r then (None, r)
               else (case LoadX509KeyPair x509 d3 d4 (cr_certFile r) (cr_keyFile r) of
                       Inl e \<Rightarrow> (Some (Wrapf ''load x509 key pair: %w'' [] e), r)
                     | Inr c \<Rightarrow> (None, r\<lparr>cr_cert := Some c, cr_certModTime := certTime, cr_keyModTime := keyTime\<rparr>))))"

definition NewCertReloader ::
  "(byte list \<Rightarrow> byte list \<Rightarrow> go_error + 'c) \<Rightarrow> disk \<Rightarrow> disk \<Rightarrow> disk \<Rightarrow> disk \<Rightarrow> string \<Rightarrow> string
     \<Rightarrow> go_error + 'c cert_reloader" where
  "NewCertReloader x509 d1 d2 d3 d4 certFile keyFile =
     (case cr_load x509 d1 d2 d3 d4 \<lparr>cr_certFile = certFile, cr_keyFile = keyFile, cr_cert = None,
        cr_certModTime = zero_time, cr_keyModTime = zero_time, cr_stopped = False\<rparr> of
        (Some e, r) \<Rightarrow> Inl (Wrapf ''initial cert load: %w'' [] e)
      | (None, r) \<Rightarrow> Inr r)"

text \<open>The interval between polls, in seconds.\<close>

definition poll_interval :: "int \<Rightarrow> int" where
  "poll_interval pollInterval = (if pollInterval \<le> 0 then 30 else pollInterval)"

definition GetCertificate :: "'c cert_reloader \<Rightarrow> 'c option" where
  "GetCertificate r = cr_cert r"

text \<open>\<open>GetConfigForClient\<close> dereferences the certificate: \<open>None\<close> is its panic.\<close>

definition GetConfigForClient :: "'c cert_reloader \<Rightarrow> 'c list option" where
  "GetConfigForClient r = map_option (\<lambda>c. [c]) (cr_cert r)"

definition cr_Reload ::
  "(byte list \<Rightarrow> byte list \<Rightarrow> go_error + 'c) \<Rightarrow> disk \<Rightarrow> disk \<Rightarrow> disk \<Rightarrow> disk \<Rightarrow> 'c cert_reloader
     \<Rightarrow> go_error option \<times> 'c cert_reloader" where
  "cr_Reload x509 d1 d2 d3 d4 r = cr_load x509 d1 d2 d3 d4 r"

text \<open>\<open>Stop\<close> closes a channel: closing it again panics, the result is then \<open>None\<close>.\<close>

definition cr_Stop :: "'c cert_reloader \<Rightarrow> 'c cert_reloader option" where
  "cr_Stop r = (if cr_stopped r then None else Some (r\<lparr>cr_stopped := True\<rparr>))"

definition pollLoop_tick ::
  "(byte list \<Rightarrow> byte list \<Rightarrow> go_error + 'c) \<Rightarrow> disk \<Rightarrow> disk \<Rightarrow> disk \<Rightarrow> disk \<Rightarrow> 'c cert_reloader \<Rightarrow> 'c cert_reloader" where
  "pollLoop_tick x509 d1 d2 d3 d4 r = snd (cr_load x509 d1 d2 d3 d4 r)"

record 'n cert_info =
  ci_CertFile :: string
  ci_KeyFile :: string
  ci_leaf :: "'n option"

definition CertInfo :: "('c \<Rightarrow> 'n option) \<Rightarrow> 'c cert_reloader \<Rightarrow> 'n cert_info" where
  "CertInfo parse r = \<lparr>ci_CertFile = cr_certFile r, ci_KeyFile = cr_keyFile r,
     ci_leaf = (case cr_cert r of None \<Rightarrow> None | Some c \<Rightarrow> parse c)\<rparr>"

section \<open>The tunnel server\<close>

record 'c tunnel_server =
  ts_addr :: string
  ts_path :: string
  ts_bufferSize :: int
  ts_tls :: bool
  ts_certFile :: string
  ts_keyFile :: string
  ts_reloader :: "'c cert_reloader option"
  ts_serving :: bool

definition NewTunnelServer :: "string \<Rightarrow> string \<Rightarrow> int \<Rightarrow> bool \<Rightarrow> string \<Rightarrow> string \<Rightarrow> 'c tunnel_server" where
  "NewTunnelServer addr path maxFrameSize tls certFile keyFile =
     \<lparr>ts_addr = addr, ts_path = (if path = '''' then ''/tunnel'' else path),
      ts_bufferSize = go_int64 (maxFrameSize + 512), ts_tls = tls, ts_certFile = certFile, ts_keyFile = keyFile,
      ts_reloader = None, ts_serving = False\<rparr>"

text \<open>\<open>Start\<close> up to \<open>Serve\<close>, given what \<open>net.Listen\<close> returns.\<close>

definition ts_Start ::
  "(byte list \<Rightarrow> byte list \<Rightarrow> go_error + 'c) \<Rightarrow> disk \<Rightarrow> disk \<Rightarrow> disk \<Rightarrow> disk \<Rightarrow> go_error option \<Rightarrow> 'c tunnel_server
     \<Rightarrow> go_error option \<times> 'c tunnel_server" where
  "ts_Start x509 d1 d2 d3 d4 listen s =
     (case listen of
        Some e \<Rightarrow> (Some (Wrapf ''tunnel server listen %q: %w'' [ArgStr (ts_addr s)] e), s)
      | None \<Rightarrow>
          if ts_tls s
          then (case NewCertReloader x509 d1 d2 d3 d4 (ts_certFile s) (ts_keyFile s) of
                  Inl e \<Rightarrow> (Some (Wrapf ''init cert reloader: %w'' [] e), s)
                | Inr r \<Rightarrow> (None, s\<lparr>ts_reloader := Some r, ts_serving := True\<rparr>))
          else (None, s\<lparr>ts_serving := True\<rparr>))"

definition ts_Stop :: "'c tunnel_server \<Rightarrow> 'c tunnel_server option" where
  "ts_Stop s =
     (case ts_reloader s of
        None \<Rightarrow> Some (s\<lparr>ts_serving := False\<rparr>)
      | Some r \<Rightarrow> map_option (\<lambda>r. s\<lparr>ts_reloader := Some r, ts_serving := False\<rparr>) (cr_Stop r))"

definition ts_ReloadCert ::
  "(byte list \<Rightarrow> byte list \<Rightarrow> go_error + 'c) \<Rightarrow> disk \<Rightarrow> disk \<Rightarrow> disk \<Rightarrow> disk \<Rightarrow> 'c tunnel_server
     \<Rightarrow> go_error option \<times> 'c tunnel_server" where
  "ts_ReloadCert x509 d1 d2 d3 d4 s =
     (case ts_reloader s of
        None \<Rightarrow> (Some (Errorf ''TLS is not enabled on this server'' []), s)
      | Some r \<Rightarrow> (case cr_Reload x509 d1 d2 d3 d4 r of (e, r') \<Rightarrow> (e, s\<lparr>ts_reloader := Some r'\<rparr>)))"

text \<open>\<open>handleHealth\<close>: the status and the body.\<close>

definition handleHealth :: "int \<times> string" where
  "handleHealth = (200, ''ok'')"

text \<open>
  \<open>startServer\<close> starts the server in a goroutine of its own and returns \<open>nil\<close>; what \<open>Start\<close> returned
  is only logged.
\<close>

definition startServer ::
  "(byte list \<Rightarrow> byte list \<Rightarrow> go_error + 'c) \<Rightarrow> disk \<Rightarrow> disk \<Rightarrow> disk \<Rightarrow> disk \<Rightarrow> go_error option \<Rightarrow> 'c tunnel_server
     \<Rightarrow> go_error option \<times> 'c tunnel_server" where
  "startServer x509 d1 d2 d3 d4 listen s = (None, snd (ts_Start x509 d1 d2 d3 d4 listen s))"

definition reloadCert ::
  "(byte list \<Rightarrow> byte list \<Rightarrow> go_error + 'c) \<Rightarrow> disk \<Rightarrow> disk \<Rightarrow> disk \<Rightarrow> disk \<Rightarrow> 'c tunnel_server
     \<Rightarrow> go_error option \<times> 'c tunnel_server" where
  "reloadCert x509 d1 d2 d3 d4 s = ts_ReloadCert x509 d1 d2 d3 d4 s"

text \<open>\<open>ProxyServer.ReloadCert\<close>: errors of a role are logged, the result is always \<open>nil\<close>.\<close>

definition ProxyServer_ReloadCert ::
  "(byte list \<Rightarrow> byte list \<Rightarrow> go_error + 'c) \<Rightarrow> disk \<Rightarrow> disk \<Rightarrow> disk \<Rightarrow> disk
     \<Rightarrow> 'c tunnel_server option \<Rightarrow> 'c tunnel_server option
     \<Rightarrow> go_error option \<times> 'c tunnel_server option \<times> 'c tunnel_server option" where
  "ProxyServer_ReloadCert x509 d1 d2 d3 d4 relay egress =
     (None, map_option (\<lambda>s. snd (reloadCert x509 d1 d2 d3 d4 s)) relay,
        map_option (\<lambda>s. snd (reloadCert x509 d1 d2 d3 d4 s)) egress)"

section \<open>Reloads over time\<close>

text \<open>
  \<open>files t\<close> is the disk at time \<open>t\<close>. A history of the reloader is its start and any number of loads,
  by polls or signals, each with its four reads in order, one load after the other.
\<close>

definition load_at ::
  "(byte list \<Rightarrow> byte list \<Rightarrow> go_error + 'c) \<Rightarrow> (nat \<Rightarrow> disk) \<Rightarrow> nat \<Rightarrow> nat \<Rightarrow> nat \<Rightarrow> nat \<Rightarrow> 'c cert_reloader
     \<Rightarrow> go_error option \<times> 'c cert_reloader" where
  "load_at x509 files t1 t2 t3 t4 r = cr_load x509 (files t1) (files t2) (files t3) (files t4) r"

inductive cert_run ::
  "(byte list \<Rightarrow> byte list \<Rightarrow> go_error + 'c) \<Rightarrow> (nat \<Rightarrow> disk) \<Rightarrow> string \<Rightarrow> string \<Rightarrow> nat \<Rightarrow> 'c cert_reloader \<Rightarrow> bool"
  for x509 files certFile keyFile where
  start: "t1 \<le> t2 \<Longrightarrow> t2 \<le> t3 \<Longrightarrow> t3 \<le> t4 \<Longrightarrow>
    NewCertReloader x509 (files t1) (files t2) (files t3) (files t4) certFile keyFile = Inr r \<Longrightarrow>
    cert_run x509 files certFile keyFile t4 r"
| load: "cert_run x509 files certFile keyFile t r \<Longrightarrow> t \<le> t1 \<Longrightarrow> t1 \<le> t2 \<Longrightarrow> t2 \<le> t3 \<Longrightarrow> t3 \<le> t4 \<Longrightarrow>
    load_at x509 files t1 t2 t3 t4 r = (e, r') \<Longrightarrow> cert_run x509 files certFile keyFile t4 r'"

text \<open>
  A modification time is not used again: a file that shows it twice has not changed in between. And
  no file carries the zero time.
\<close>

definition mtimes_fresh :: "(nat \<Rightarrow> disk) \<Rightarrow> string \<Rightarrow> bool" where
  "mtimes_fresh files f \<longleftrightarrow>
     (\<forall>t t' u m b b'. files t f = Some (m, b) \<longrightarrow> files t' f = Some (m, b') \<longrightarrow> t \<le> u \<longrightarrow> u \<le> t' \<longrightarrow>
        files u f = Some (m, b)) \<and>
     (\<forall>t m b. files t f = Some (m, b) \<longrightarrow> m \<noteq> zero_time)"

text \<open>What the reloader remembers: when it looked at the times and when it read the files.\<close>

definition cert_inv ::
  "(byte list \<Rightarrow> byte list \<Rightarrow> go_error + 'c) \<Rightarrow> (nat \<Rightarrow> disk) \<Rightarrow> string \<Rightarrow> string \<Rightarrow> nat \<Rightarrow> 'c cert_reloader \<Rightarrow> bool" where
  "cert_inv x509 files certFile keyFile t r \<longleftrightarrow>
     cr_certFile r = certFile \<and> cr_keyFile r = keyFile \<and>
     (\<exists>t1 t2 t3 t4 cb kb cb0 kb0 mc mk c. t1 \<le> t2 \<and> t2 \<le> t3 \<and> t3 \<le> t4 \<and> t4 \<le> t \<and>
        files t1 certFile = Some (cr_certModTime r, cb0) \<and> files t2 keyFile = Some (cr_keyModTime r, kb0) \<and>
        files t3 certFile = Some (mc, cb) \<and> files t4 keyFile = Some (mk, kb) \<and>
        x509 cb kb = Inr c \<and> cr_cert r = Some c)"

lemma cr_load_changed:
  assumes "cr_load x509 d1 d2 d3 d4 r = (e, r')" and "r' \<noteq> r"
  shows "\<exists>mc cb0 mk kb0 mc' cb mk' kb c. d1 (cr_certFile r) = Some (mc, cb0) \<and> d2 (cr_keyFile r) = Some (mk, kb0) \<and>
    d3 (cr_certFile r) = Some (mc', cb) \<and> d4 (cr_keyFile r) = Some (mk', kb) \<and> x509 cb kb = Inr c \<and>
    e = None \<and> r' = r\<lparr>cr_cert := Some c, cr_certModTime := mc, cr_keyModTime := mk\<rparr>"
  using assms by (auto simp: cr_load_def os_Stat_def LoadX509KeyPair_def os_ReadFile_def
      split: option.splits sum.splits if_splits)

lemma cert_inv_changed:
  assumes "cr_load x509 (files t1) (files t2) (files t3) (files t4) r = (e, r')" and "r' \<noteq> r"
    and "t1 \<le> t2" and "t2 \<le> t3" and "t3 \<le> t4"
  shows "cert_inv x509 files (cr_certFile r) (cr_keyFile r) t4 r'"
proof -
  from cr_load_changed [OF assms(1,2)] obtain mc cb0 mk kb0 mc' cb mk' kb c where
    "files t1 (cr_certFile r) = Some (mc, cb0)" "files t2 (cr_keyFile r) = Some (mk, kb0)"
    "files t3 (cr_certFile r) = Some (mc', cb)" "files t4 (cr_keyFile r) = Some (mk', kb)" "x509 cb kb = Inr c"
    "r' = r\<lparr>cr_cert := Some c, cr_certModTime := mc, cr_keyModTime := mk\<rparr>" by blast
  with assms(3-5) show ?thesis unfolding cert_inv_def by simp blast
qed

lemma cert_inv_later: "cert_inv x509 files certFile keyFile t r \<Longrightarrow> t \<le> t' \<Longrightarrow> cert_inv x509 files certFile keyFile t' r"
  unfolding cert_inv_def by (meson le_trans)

lemma cert_run_inv:
  assumes "cert_run x509 files certFile keyFile t r" and "mtimes_fresh files certFile"
  shows "cert_inv x509 files certFile keyFile t r"
  using assms(1)
proof (induction rule: cert_run.induct)
  case (start t1 t2 t3 t4 r)
  let ?r = "\<lparr>cr_certFile = certFile, cr_keyFile = keyFile, cr_cert = None,
        cr_certModTime = zero_time, cr_keyModTime = zero_time, cr_stopped = False\<rparr>"
  from start(4) have l: "cr_load x509 (files t1) (files t2) (files t3) (files t4) ?r = (None, r)"
    by (auto simp: NewCertReloader_def split: prod.splits option.splits)
  have "r \<noteq> ?r"
  proof
    assume "r = ?r"
    with l obtain b where "files t1 certFile = Some (zero_time, b)"
      by (auto simp: cr_load_def os_Stat_def split: option.splits sum.splits if_splits)
    with assms(2) show False unfolding mtimes_fresh_def by blast
  qed
  from cert_inv_changed [OF l this start(1-3)] show ?case by simp
next
  case (load t r t1 t2 t3 t4 e r')
  from load(6) have l: "cr_load x509 (files t1) (files t2) (files t3) (files t4) r = (e, r')" by (simp add: load_at_def)
  show ?case
  proof (cases "r' = r")
    case True
    from load(1-5) have "t \<le> t4" by simp
    with cert_inv_later [OF load.IH] True show ?thesis by simp
  next
    case False
    have "cr_certFile r = certFile" "cr_keyFile r = keyFile" using load.IH by (simp_all add: cert_inv_def)
    with cert_inv_changed [OF l False load(3-5)] show ?thesis by simp
  qed
qed

text \<open>The certificate that is served is a valid pair that was on disk. Over any history of polls,
  signals and changes of the files, torn writes and missing files included, there is always a
  certificate to serve, and it was parsed from a certificate and a key that the two files really
  held, the key not before the certificate.\<close>

theorem cert_always_served:
  assumes "cert_run x509 files certFile keyFile t r" and "mtimes_fresh files certFile"
  shows "\<exists>t3 t4 mc cb mk kb c. t3 \<le> t4 \<and> t4 \<le> t \<and> files t3 certFile = Some (mc, cb) \<and> files t4 keyFile = Some (mk, kb) \<and>
    x509 cb kb = Inr c \<and> GetCertificate r = Some c \<and> GetConfigForClient r = Some [c]"
proof -
  from cert_run_inv [OF assms] obtain t3 t4 cb kb mc mk c where "t3 \<le> t4" "t4 \<le> t"
    "files t3 certFile = Some (mc, cb)" "files t4 keyFile = Some (mk, kb)" "x509 cb kb = Inr c" "cr_cert r = Some c"
    unfolding cert_inv_def by blast
  then show ?thesis unfolding GetCertificate_def GetConfigForClient_def by simp blast
qed

text \<open>C20: A poll catches up. When no modification time is used twice and the two files hold a valid pair
  and do not change during a load, the certificate that is served after that load is the one in the
  files, whatever happened before, a replacement between the reads of earlier loads included.\<close>

theorem cert_catches_up:
  assumes "cert_run x509 files certFile keyFile t r"
    and "mtimes_fresh files certFile" and "mtimes_fresh files keyFile"
    and "t \<le> t1" and "t1 \<le> t2" and "t2 \<le> t3" and "t3 \<le> t4"
    and "\<And>u. t1 \<le> u \<Longrightarrow> u \<le> t4 \<Longrightarrow> files u certFile = Some (mc, cb) \<and> files u keyFile = Some (mk, kb)"
    and "x509 cb kb = Inr c" and "load_at x509 files t1 t2 t3 t4 r = (e, r')"
  shows "e = None \<and> GetCertificate r' = Some c"
proof -
  have i: "cert_inv x509 files certFile keyFile t r" by (rule cert_run_inv [OF assms(1,2)])
  then have f: "cr_certFile r = certFile" "cr_keyFile r = keyFile" by (simp_all add: cert_inv_def)
  have d: "files t1 certFile = Some (mc, cb)" "files t2 keyFile = Some (mk, kb)"
    "files t3 certFile = Some (mc, cb)" "files t4 keyFile = Some (mk, kb)"
    using assms(4-8) by auto
  show ?thesis
  proof (cases "mc = cr_certModTime r \<and> mk = cr_keyModTime r")
    case False
    with assms(9,10) d f show ?thesis
      by (auto simp: load_at_def cr_load_def os_Stat_def LoadX509KeyPair_def os_ReadFile_def GetCertificate_def)
  next
    case True
    with assms(10) d f have r: "e = None" "r' = r"
      by (auto simp: load_at_def cr_load_def os_Stat_def)
    from i True obtain s1 s2 s3 s4 cb' kb' cb0 kb0 mc' mk' c' where
      s: "s1 \<le> s2" "s2 \<le> s3" "s3 \<le> s4" "s4 \<le> t" and
      h: "files s1 certFile = Some (mc, cb0)" "files s2 keyFile = Some (mk, kb0)"
        "files s3 certFile = Some (mc', cb')" "files s4 keyFile = Some (mk', kb')" "x509 cb' kb' = Inr c'" "cr_cert r = Some c'"
      unfolding cert_inv_def f by blast
    have fresh: "files u g = Some (m, b)"
      if "mtimes_fresh files g" "files s g = Some (m, b)" "files s' g = Some (m, b')" "s \<le> u" "u \<le> s'" for g s s' u m b b'
      using that unfolding mtimes_fresh_def by blast
    have "files s3 certFile = Some (mc, cb0)" "files t1 certFile = Some (mc, cb0)"
      using fresh [OF assms(2) h(1) d(1)] s assms(4) by auto
    moreover have "files s4 keyFile = Some (mk, kb0)" "files t2 keyFile = Some (mk, kb0)"
      using fresh [OF assms(3) h(2) d(2)] s assms(4,5) by auto
    ultimately have "cb' = cb" "kb' = kb" using h(3,4) d(1,2) by simp_all
    with h(5,6) assms(9) r show ?thesis by (simp add: GetCertificate_def)
  qed
qed

text \<open>
  A signal does not force a reload, although its comment says so: files that were replaced with
  their times kept stay unread. Nor does a poll that fails lose the certificate that is served.
\<close>

lemma signal_does_not_force:
  assumes "files1 (cr_certFile r) = Some (cr_certModTime r, cb)" and "files2 (cr_keyFile r) = Some (cr_keyModTime r, kb)"
  shows "cr_Reload x509 files1 files2 files3 files4 r = (None, r)"
  using assms by (simp add: cr_Reload_def cr_load_def os_Stat_def)

lemma failed_load_keeps:
  "cr_load x509 d1 d2 d3 d4 r = (Some e, r') \<Longrightarrow> r' = r"
  using cr_load_changed by fastforce

text \<open>A start that cannot listen or has no certificate is reported as a success.\<close>

lemma start_failure_hidden:
  assumes "ts_Start x509 d1 d2 d3 d4 listen s = (Some e, s')"
  shows "startServer x509 d1 d2 d3 d4 listen s = (None, s) \<and> ts_serving s' = ts_serving s"
proof -
  have "s' = s" using assms by (auto simp: ts_Start_def split: option.splits sum.splits if_splits)
  then show ?thesis using assms by (simp add: startServer_def)
qed

section \<open>An example\<close>

text \<open>The certificate is replaced at time 2, the key at time 3; a poll in between finds a torn pair.\<close>

definition example_x509 :: "byte list \<Rightarrow> byte list \<Rightarrow> go_error + nat" where
  "example_x509 c k = (if c = k then Inr (length c) else Inl (ErrNet ''private key does not match public key''))"

definition example_files :: "nat \<Rightarrow> disk" where
  "example_files t = [''crt'' \<mapsto> (if t < 2 then (10, [1]) else (20, [2, 2])), ''key'' \<mapsto> (if t < 3 then (11, [1]) else (21, [2, 2]))]"

lemma example_files_fresh: "mtimes_fresh example_files ''crt''" "mtimes_fresh example_files ''key''"
  by (auto simp: mtimes_fresh_def example_files_def zero_time_def split: if_splits)

definition example_reloader :: "nat cert_reloader" where
  "example_reloader = \<lparr>cr_certFile = ''crt'', cr_keyFile = ''key'', cr_cert = Some 1,
     cr_certModTime = 10, cr_keyModTime = 11, cr_stopped = False\<rparr>"

lemma example_run: "cert_run example_x509 example_files ''crt'' ''key'' 2 example_reloader"
proof -
  have "cert_run example_x509 example_files ''crt'' ''key'' 0 example_reloader"
    by (rule cert_run.start [of 0 0 0 0])
      (simp_all add: NewCertReloader_def cr_load_def os_Stat_def LoadX509KeyPair_def os_ReadFile_def
        example_files_def example_x509_def example_reloader_def zero_time_def)
  then show ?thesis
    by (rule cert_run.load [of _ _ _ _ _ _ 2 2 2 2])
      (simp_all add: load_at_def cr_load_def os_Stat_def LoadX509KeyPair_def os_ReadFile_def
        example_files_def example_x509_def example_reloader_def)
qed

theorem cert_always_served_witness:
  "\<exists>c. GetCertificate example_reloader = Some c \<and> GetConfigForClient example_reloader = Some [c]"
  using cert_always_served [OF example_run example_files_fresh(1)] by blast

theorem cert_catches_up_witness:
  "GetCertificate (snd (load_at example_x509 example_files 3 3 4 4 example_reloader)) = Some 2"
proof -
  have "example_files u ''crt'' = Some (20, [2, 2]) \<and> example_files u ''key'' = Some (21, [2, 2])" if "3 \<le> u" for u
    using that by (simp add: example_files_def)
  then show ?thesis
    using cert_catches_up [OF example_run example_files_fresh, of 3 3 4 4 20 "[2, 2]" 21 "[2, 2]" 2]
    by (cases "load_at example_x509 example_files 3 3 4 4 example_reloader") (simp add: example_x509_def)
qed

end
