(* ===== verification/Lifecycle.thy ===== *)
theory Lifecycle
  imports Process CertReload
begin

text \<open>
  A process from its start (\<^verbatim>\<open>cmd/proxy/main.go\<close>) over any number of signals, with the clients of its access
  role, the requests to its relay and egress roles and the rounds of the probers in between. A \<open>SIGHUP\<close>
  reads the configuration file again, certificates first, and changes the logger when the level has
  changed. What the file holds, and the files of the certificates at the four reads of a load, come with
  each signal. \<open>roles_follow\<close> says what the roles hold of a configuration: it holds after the start, every
  reload makes it true of the new configuration, and no connection or probe breaks it.
\<close>

section \<open>The logger\<close>

record log_config =
  lc_Level :: string
  lc_Format :: string

definition defaultLog :: log_config where
  "defaultLog = \<lparr>lc_Level = ''info'', lc_Format = ''text''\<rparr>"

datatype log_level = LevelDebug | LevelInfo | LevelWarn | LevelError

record logger =
  lg_level :: log_level
  lg_json :: bool

definition buildLogger :: "log_config \<Rightarrow> logger" where
  "buildLogger cfg =
     \<lparr>lg_level = (if lc_Level cfg = ''debug'' then LevelDebug else if lc_Level cfg = ''warn'' then LevelWarn
        else if lc_Level cfg = ''error'' then LevelError else LevelInfo),
      lg_json = (lc_Format cfg = ''json'')\<rparr>"

section \<open>The process\<close>

record ('l, 'c) process =
  pr_srv :: "'l proxy_server"
  pr_live :: proxy_config
  pr_liveLog :: log_config
  pr_logger :: logger
  pr_relayTunnel :: "'c tunnel_server option"
  pr_egressTunnel :: "'c tunnel_server option"

type_synonym disks = "disk \<times> disk \<times> disk \<times> disk"

definition with_disks :: "(disk \<Rightarrow> disk \<Rightarrow> disk \<Rightarrow> disk \<Rightarrow> 'r) \<Rightarrow> disks \<Rightarrow> 'r" where
  "with_disks f ds = (case ds of (d1, d2, d3, d4) \<Rightarrow> f d1 d2 d3 d4)"

text \<open>The tunnel server of a role, started; \<open>tcp\<close> is what listening on an address gives.\<close>

definition start_tunnel ::
  "(byte list \<Rightarrow> byte list \<Rightarrow> go_error + 'c) \<Rightarrow> disks \<Rightarrow> (string \<Rightarrow> go_error option) \<Rightarrow> tunnel_config \<Rightarrow> 'c tunnel_server" where
  "start_tunnel x509 ds tcp t =
     snd (with_disks (startServer x509) ds (tcp (tn_ListenAddr t))
       (NewTunnelServer (tn_ListenAddr t) (tn_Path t) (tn_MaxFrameSize t)
         (tc_Enabled (tn_TLS t)) (tc_CertFile (tn_TLS t)) (tc_KeyFile (tn_TLS t))))"

text \<open>
  The start: \<open>Inl\<close> is an exit with status 1. \<open>override\<close> is the flag \<open>-log-level\<close>; \<open>order\<close> is the order in which the
  instances of the access role are started.
\<close>

definition proxy_main ::
  "(byte list \<Rightarrow> byte list \<Rightarrow> go_error + 'c) \<Rightarrow> disks \<Rightarrow> (string \<Rightarrow> go_error option) \<Rightarrow> 'l float_ops \<Rightarrow> (int \<Rightarrow> go_error option)
     \<Rightarrow> string list \<Rightarrow> string \<Rightarrow> go_error + proxy_config \<times> log_config \<Rightarrow> go_error + ('l, 'c) process" where
  "proxy_main x509 ds tcp fo listen order override parsed =
     (case Load (map_sum (\<lambda>e. e) fst parsed) of
        Inl e \<Rightarrow> Inl e
      | Inr c \<Rightarrow>
          (let log = (case parsed of Inr (c, lg) \<Rightarrow> lg | Inl e \<Rightarrow> defaultLog);
               log = (if override \<noteq> '''' then log\<lparr>lc_Level := override\<rparr> else log)
           in case NewProxyServer fo c of
                Inl e \<Rightarrow> Inl e
              | Inr srv \<Rightarrow>
                  (case ProxyServer_Start listen order srv of
                     (Some e, srv') \<Rightarrow> Inl e
                   | (None, srv') \<Rightarrow> Inr \<lparr>pr_srv = srv', pr_live = c, pr_liveLog = log, pr_logger = buildLogger log,
                       pr_relayTunnel = map_option (\<lambda>r. start_tunnel x509 ds tcp (rc_Tunnel r)) (cf_Relay c),
                       pr_egressTunnel = map_option (\<lambda>e. start_tunnel x509 ds tcp (ec_Tunnel e)) (cf_Egress c)\<rparr>)))"

definition process_reload ::
  "(byte list \<Rightarrow> byte list \<Rightarrow> go_error + 'c) \<Rightarrow> disks \<Rightarrow> 'l float_ops \<Rightarrow> (int \<Rightarrow> go_error option)
     \<Rightarrow> go_error + proxy_config \<times> log_config \<Rightarrow> ('l, 'c) process \<Rightarrow> ('l, 'c) process" where
  "process_reload x509 ds fo listen parsed p =
     (case parsed of
        Inl e \<Rightarrow> p
      | Inr (c, lg) \<Rightarrow>
          (case Load (Inr c) of
             Inl e \<Rightarrow> p
           | Inr c' \<Rightarrow>
               (case with_disks (ProxyServer_ReloadCert x509) ds (pr_relayTunnel p) (pr_egressTunnel p) of
                  (_, rt, et) \<Rightarrow>
                    (case handleReload fo listen (Inr c) (pr_srv p, pr_live p) of
                       (srv, live) \<Rightarrow> p\<lparr>pr_srv := srv, pr_live := live, pr_relayTunnel := rt, pr_egressTunnel := et,
                          pr_liveLog := lg,
                          pr_logger := (if lc_Level lg \<noteq> lc_Level (pr_liveLog p) then buildLogger lg else pr_logger p)\<rparr>))))"

text \<open>
  What happens to a process: signals, clients of its access role, requests to its relay and egress roles, and
  rounds of the probers, which run for the pools of the running instances and of the relay's dialers. Each
  is one step. The loop of \<open>main\<close> returns at the first \<open>SIGINT\<close> or \<open>SIGTERM\<close>. The result tells what
  became of each connection, and which configuration was in force.
\<close>

datatype process_event =
    SigHup disks "int \<Rightarrow> go_error option" "go_error + proxy_config \<times> log_config"
  | is_quit: SigQuit
  | ClientConn string tunnel_env "nat \<Rightarrow> dial_target \<Rightarrow> dial_net" string
  | RelayRequest tunnel_env "nat \<Rightarrow> dial_target \<Rightarrow> dial_net" handshake_request
  | EgressRequest origin_net handshake_request
  | ProbeService string "string \<Rightarrow> go_error + int"
  | ProbeDialer "string \<times> string" "string \<Rightarrow> go_error + int"

datatype served =
    ServedClient string conn_outcome
  | ServedRelay handshake_request relay_outcome
  | ServedEgress handshake_request egress_outcome

text \<open>A client connects to the port of a service: one turn of \<open>acceptLoop\<close>. A stopped instance accepts nothing.\<close>

definition access_accept ::
  "tunnel_env \<Rightarrow> 'l::linorder float_ops \<Rightarrow> (nat \<Rightarrow> dial_target \<Rightarrow> dial_net) \<Rightarrow> string \<Rightarrow> string \<Rightarrow> 'l access_node
     \<Rightarrow> conn_outcome option \<times> 'l access_node" where
  "access_accept env fo net i remote a =
     (case an_services a i of
        None \<Rightarrow> (None, a)
      | Some inst \<Rightarrow>
          (if si_running inst
           then case handleConn env fo net remote inst of
             (inst', out) \<Rightarrow> (Some out, a\<lparr>an_services := (an_services a)(i \<mapsto> inst')\<rparr>)
           else (None, a)))"

definition access_probe :: "'l float_ops \<Rightarrow> (string \<Rightarrow> go_error + int) \<Rightarrow> string \<Rightarrow> 'l access_node \<Rightarrow> 'l access_node" where
  "access_probe fo probe i a =
     (case an_services a i of
        None \<Rightarrow> a
      | Some inst \<Rightarrow>
          (if si_running inst
           then a\<lparr>an_services := (an_services a)(i \<mapsto> inst\<lparr>si_state := (si_state inst)
             \<lparr>ss_pool := probeAll fo probe (ss_pool (si_state inst))\<rparr>\<rparr>)\<rparr>
           else a))"

definition relay_probe ::
  "'l float_ops \<Rightarrow> (string \<Rightarrow> go_error + int) \<Rightarrow> string \<times> string \<Rightarrow> 'l relay_node \<Rightarrow> 'l relay_node" where
  "relay_probe fo probe key n =
     (case rn_dialers n key of
        None \<Rightarrow> n
      | Some d \<Rightarrow> n\<lparr>rn_dialers := (rn_dialers n)(key \<mapsto> probeAll fo probe d)\<rparr>)"

text \<open>What one step makes of the roles, and the connection it serves.\<close>

definition roles_step ::
  "'l::linorder float_ops \<Rightarrow> process_event \<Rightarrow> 'l proxy_server \<Rightarrow> served option \<times> 'l proxy_server" where
  "roles_step fo ev s =
     (case ev of
        ClientConn i env net remote \<Rightarrow>
          (case ps_access s of
             None \<Rightarrow> (None, s)
           | Some a \<Rightarrow> (case access_accept env fo net i remote a of
               (out, a') \<Rightarrow> (map_option (ServedClient i) out, s\<lparr>ps_access := Some a'\<rparr>)))
      | RelayRequest env net req \<Rightarrow>
          (case ps_relay s of
             None \<Rightarrow> (None, s)
           | Some n \<Rightarrow> (case RelayNode_handleTunnel env fo net req n of
               (n', out) \<Rightarrow> (Some (ServedRelay req out), s\<lparr>ps_relay := Some n'\<rparr>)))
      | EgressRequest net req \<Rightarrow>
          (case ps_egress s of
             None \<Rightarrow> (None, s)
           | Some n \<Rightarrow> (Some (ServedEgress req (EgressNode_handleTunnel net req n)), s))
      | ProbeService i probe \<Rightarrow> (None, s\<lparr>ps_access := map_option (access_probe fo probe i) (ps_access s)\<rparr>)
      | ProbeDialer key probe \<Rightarrow> (None, s\<lparr>ps_relay := map_option (relay_probe fo probe key) (ps_relay s)\<rparr>)
      | _ \<Rightarrow> (None, s))"

text \<open>All roles are stopped, once; a second stop of a tunnel server would panic.\<close>

definition process_stop :: "('l, 'c) process \<Rightarrow> ('l, 'c) process" where
  "process_stop p = p\<lparr>pr_srv := ProxyServer_Stop (pr_srv p), pr_relayTunnel := Option.bind (pr_relayTunnel p) ts_Stop,
     pr_egressTunnel := Option.bind (pr_egressTunnel p) ts_Stop\<rparr>"

definition process_step ::
  "(byte list \<Rightarrow> byte list \<Rightarrow> go_error + 'c) \<Rightarrow> 'l::linorder float_ops \<Rightarrow> process_event \<Rightarrow> ('l, 'c) process
     \<Rightarrow> served option \<times> ('l, 'c) process" where
  "process_step x509 fo ev p =
     (case ev of
        SigHup ds listen parsed \<Rightarrow> (None, process_reload x509 ds fo listen parsed p)
      | SigQuit \<Rightarrow> (None, process_stop p)
      | _ \<Rightarrow> (case roles_step fo ev (pr_srv p) of (out, s) \<Rightarrow> (out, p\<lparr>pr_srv := s\<rparr>)))"

fun process_run ::
  "(byte list \<Rightarrow> byte list \<Rightarrow> go_error + 'c) \<Rightarrow> 'l::linorder float_ops \<Rightarrow> process_event list \<Rightarrow> ('l, 'c) process
     \<Rightarrow> (proxy_config \<times> served) list \<times> ('l, 'c) process" where
  "process_run x509 fo [] p = ([], p)"
| "process_run x509 fo (ev # evs) p =
     (case process_step x509 fo ev p of
        (out, p1) \<Rightarrow>
          (if is_quit ev then ([], p1)
           else case process_run x509 fo evs p1 of
             (outs, p2) \<Rightarrow> ((case out of None \<Rightarrow> outs | Some sv \<Rightarrow> (pr_live p, sv) # outs), p2)))"

text \<open>
  The process ignores an override of the log level from the first reload on: the level of the file
  differs from the overridden one, so it counts as changed.
\<close>

lemma override_lost:
  assumes "proxy_main x509 ds tcp fo listen order override (Inr (c, lg)) = Inr p" and "override \<noteq> ''''"
    and "Load (Inr c) = Inr c'" and "lc_Level lg \<noteq> override"
  shows "pr_logger p = buildLogger (lg\<lparr>lc_Level := override\<rparr>) \<and>
    pr_logger (process_reload x509 ds fo listen (Inr (c, lg)) p) = buildLogger lg"
  using assms by (auto simp: proxy_main_def process_reload_def Let_def split: sum.splits prod.splits option.splits)

section \<open>The roles follow a configuration\<close>

text \<open>
  What the three roles hold of a configuration \<open>c\<close>: an instance belongs to a service that \<open>c\<close> names and its pool has
  the hops of the service's groups, the relay has the service's routes and the egress its origin. A list
  of services with one identifier twice says nothing definite.
\<close>

definition access_follows :: "proxy_config \<Rightarrow> 'l access_node \<Rightarrow> bool" where
  "access_follows c a \<longleftrightarrow> (\<forall>i inst. an_services a i = Some inst \<longrightarrow>
     sc_ID (si_cfg inst) = i \<and> i \<in> sc_ID ` set (services_of ac_Services (cf_Access c)) \<and>
     (\<forall>v \<in> set (services_of ac_Services (cf_Access c)). distinct (map sc_ID (services_of ac_Services (cf_Access c))) \<longrightarrow>
        sc_ID v = i \<longrightarrow> Addrs (ss_pool (si_state inst)) = SortGroups (sc_Groups v)))"

definition relay_follows :: "proxy_config \<Rightarrow> 'l relay_node \<Rightarrow> bool" where
  "relay_follows c n \<longleftrightarrow> relay_ok n \<and>
     (\<forall>v \<in> set (services_of rc_Services (cf_Relay c)). distinct (map sc_ID (services_of rc_Services (cf_Relay c))) \<longrightarrow>
        rn_routes n (sc_ID v) = Some (sc_Routes v))"

definition egress_follows :: "proxy_config \<Rightarrow> egress_node \<Rightarrow> bool" where
  "egress_follows c n \<longleftrightarrow>
     (\<forall>v \<in> set (services_of ec_Services (cf_Egress c)). distinct (map sc_ID (services_of ec_Services (cf_Egress c))) \<longrightarrow>
        en_origins n (sc_ID v) = Some (origin_of_service v))"

definition roles_follow :: "proxy_config \<Rightarrow> 'l proxy_server \<Rightarrow> bool" where
  "roles_follow c s \<longleftrightarrow> pred_option (access_follows c) (ps_access s) \<and> pred_option (relay_follows c) (ps_relay s) \<and>
     pred_option (egress_follows c) (ps_egress s)"

lemma config_services_ok:
  assumes "config_ok c"
  shows "list_all access_service_ok (services_of ac_Services (cf_Access c))"
    and "list_all relay_service_ok (services_of rc_Services (cf_Relay c))"
    and "list_all egress_service_ok (services_of ec_Services (cf_Egress c))"
  using assms by (auto simp: config_ok_def services_of_def split: option.splits)

lemma build_routes_current:
  "build_routes svcs tbl = Inr t \<Longrightarrow> distinct (map sc_ID svcs) \<Longrightarrow>
     (\<forall>s \<in> set svcs. t (sc_ID s) = Some (sc_Routes s)) \<and> (\<forall>k. k \<notin> sc_ID ` set svcs \<longrightarrow> t k = tbl k)"
proof (induction svcs arbitrary: tbl)
  case (Cons v svcs)
  then have "build_routes svcs (tbl(sc_ID v \<mapsto> sc_Routes v)) = Inr t" by (simp split: if_splits)
  from Cons.IH [OF this] Cons.prems(2) show ?case by auto
qed simp

lemma distinct_map_eq: "distinct (map f xs) \<Longrightarrow> x \<in> set xs \<Longrightarrow> y \<in> set xs \<Longrightarrow> f x = f y \<Longrightarrow> x = y"
  by (auto simp: distinct_map inj_on_def)

subsection \<open>After the start\<close>

lemma new_instances_follow:
  assumes "new_instances fo fs psk svcs m = Inr m'"
  shows "(i \<notin> sc_ID ` set svcs \<longrightarrow> m' i = m i) \<and>
    (i \<in> sc_ID ` set svcs \<longrightarrow> (\<exists>v \<in> set svcs. sc_ID v = i \<and> map_option Inr (m' i) = Some (newServiceInstance fo v fs psk)))"
  using assms
proof (induction svcs arbitrary: m)
  case (Cons v svcs)
  then obtain inst where n: "newServiceInstance fo v fs psk = Inr inst" and r: "new_instances fo fs psk svcs (m(sc_ID v \<mapsto> inst)) = Inr m'"
    by (auto split: sum.splits)
  from Cons.IH [OF r] n show ?case by (cases "i \<in> sc_ID ` set svcs") auto
qed simp

lemma newServiceInstance_facts:
  "newServiceInstance fo v fs psk = Inr inst \<Longrightarrow>
     sc_ID (si_cfg inst) = sc_ID v \<and> Addrs (ss_pool (si_state inst)) = SortGroups (sc_Groups v)"
  by (auto simp: newServiceInstance_def ServiceConfig_SortedHops_def Let_def split: if_splits)

lemma access_start_loop_keeps:
  "access_start_loop listen order started m = (err, m') \<Longrightarrow>
     map_option (\<lambda>x. (si_cfg x, si_state x)) (m' i) = map_option (\<lambda>x. (si_cfg x, si_state x)) (m i)"
proof (induction listen order started m arbitrary: err m' rule: access_start_loop.induct)
  case (2 listen j js started m)
  show ?case
  proof (cases "m j")
    case (Some inst)
    obtain inst' e where s: "instance_start listen inst = (inst', e)" by fastforce
    then have c: "si_cfg inst' = si_cfg inst" "si_state inst' = si_state inst"
      by (auto simp: instance_start_def split: option.splits)
    show ?thesis
    proof (cases e)
      case None
      with 2 Some s c show ?thesis by fastforce
    next
      case (Some e1)
      with 2 \<open>m j = Some inst\<close> s show ?thesis by (auto simp: instance_stop_def option.map_comp comp_def)
    qed
  qed (use 2 in simp)
qed simp

lemma access_follows_start:
  assumes "NewAccessNode fo cfg psk = Inr a" and "AccessNode_Start listen order a = (err, a')"
    and "cf_Access c = Some cfg"
  shows "access_follows c a'"
  unfolding access_follows_def
proof (intro allI impI)
  fix i inst'
  assume "an_services a' i = Some inst'"
  then obtain inst where i: "an_services a i = Some inst" "si_cfg inst' = si_cfg inst" "si_state inst' = si_state inst"
    using assms(2) access_start_loop_keeps [of listen order "[]" "an_services a" err "an_services a'" i]
    by (cases "an_services a i") (auto simp: AccessNode_Start_def split: prod.splits)
  from assms(1) obtain fs where m: "new_instances fo fs psk (ac_Services cfg) Map.empty = Inr (an_services a)"
    by (cases "new_instances fo (if ac_MaxFrameSize cfg = 0 then defaultAccessFrameSize else ac_MaxFrameSize cfg) psk (ac_Services cfg) Map.empty")
      (auto simp: NewAccessNode_def Let_def)
  from new_instances_follow [OF m, of i] i(1) obtain v where v: "v \<in> set (ac_Services cfg)" "sc_ID v = i"
    "newServiceInstance fo v fs psk = Inr inst" by (cases "i \<in> sc_ID ` set (ac_Services cfg)") auto
  from newServiceInstance_facts [OF v(3)] v i assms(3)
  show "sc_ID (si_cfg inst') = i \<and> i \<in> sc_ID ` set (services_of ac_Services (cf_Access c)) \<and>
    (\<forall>v \<in> set (services_of ac_Services (cf_Access c)). distinct (map sc_ID (services_of ac_Services (cf_Access c))) \<longrightarrow>
        sc_ID v = i \<longrightarrow> Addrs (ss_pool (si_state inst')) = SortGroups (sc_Groups v))"
    by (auto simp: services_of_def dest: distinct_map_eq)
qed

lemma relay_follows_start:
  assumes "NewRelayNode nodeID cfg = Inr n" and "cf_Relay c = Some cfg"
  shows "relay_follows c n"
proof -
  from assms(1) obtain t where t: "build_routes (rc_Services cfg) Map.empty = Inr t" "rn_routes n = t" "rn_dialers n = Map.empty"
    by (cases "build_routes (rc_Services cfg) Map.empty") (auto simp: NewRelayNode_def buildRouteTable_def)
  with build_routes_current [OF t(1)] assms(2) show ?thesis
    by (auto simp: relay_follows_def relay_ok_def services_of_def)
qed

lemma collect_all: "buildOriginTable svcs = collect (\<lambda>s. True) sc_ID origin_of_service svcs"
  by (simp add: buildOriginTable_def collect_def)

lemma egress_follows_start: "cf_Egress c = Some cfg \<Longrightarrow> egress_follows c (NewEgressNode nodeID idc cfg)"
  by (auto simp: egress_follows_def NewEgressNode_def collect_all services_of_def collect_distinct)

lemma roles_follow_start:
  assumes "NewProxyServer fo c = Inr s" and "ProxyServer_Start listen order s = (err, s')"
  shows "roles_follow c s'"
proof -
  let ?psk = "process_psk c"
  from assms(1) obtain access relay where
    a: "opt_result (\<lambda>a. NewAccessNode fo a ?psk) ''access role: %w'' (cf_Access c) = Inr access" and
    r: "opt_result (NewRelayNode (nc_ID (cf_Node c))) ''relay role: %w'' (cf_Relay c) = Inr relay" and
    s: "s = \<lparr>ps_access = access, ps_relay = relay,
      ps_egress = map_option (NewEgressNode (nc_ID (cf_Node c)) (nc_IDC (cf_Node c))) (cf_Egress c)\<rparr>"
    by (auto simp: NewProxyServer_def split: sum.splits)
  have "pred_option (access_follows c) (ps_access s')"
  proof (cases "cf_Access c")
    case None
    with a s assms(2) show ?thesis by (auto simp: ProxyServer_Start_def)
  next
    case (Some cfg)
    with a obtain n where n: "NewAccessNode fo cfg ?psk = Inr n" "access = Some n" by (auto split: sum.splits)
    obtain e n' where st: "AccessNode_Start listen order n = (e, n')" by fastforce
    with n s assms(2) have "ps_access s' = Some n'" by (auto simp: ProxyServer_Start_def split: option.splits)
    with access_follows_start [OF n(1) st Some] show ?thesis by simp
  qed
  moreover have "pred_option (relay_follows c) relay"
  proof (cases "cf_Relay c")
    case (Some cfg)
    with r obtain n where "NewRelayNode (nc_ID (cf_Node c)) cfg = Inr n" "relay = Some n" by (auto split: sum.splits)
    with relay_follows_start [OF _ Some] show ?thesis by simp
  qed (use r in simp)
  moreover have "pred_option (egress_follows c) (ps_egress s)"
    using egress_follows_start [of c] s by (cases "cf_Egress c") simp_all
  moreover have "ps_relay s' = ps_relay s \<and> ps_egress s' = ps_egress s"
    using assms(2) by (auto simp: ProxyServer_Start_def split: option.splits prod.splits)
  ultimately show ?thesis using s by (simp add: roles_follow_def)
qed

subsection \<open>After a reload\<close>

lemma incoming_services_in: "incoming_services svcs i = Some v \<Longrightarrow> v \<in> set svcs \<and> sc_ID v = i"
  by (auto simp: incoming_services_def dest: map_of_SomeD)

lemma access_follows_reload:
  assumes "config_ok c" and "\<And>i inst. an_services a i = Some inst \<Longrightarrow> sc_ID (si_cfg inst) = i"
  shows "access_follows c (AccessNode_Reload fo listen (buildReloadableConfig c) a)"
  unfolding access_follows_def
proof (intro allI impI)
  let ?svcs = "services_of ac_Services (cf_Access c)" and ?rc = "buildReloadableConfig c"
  fix i inst'
  assume "an_services (AccessNode_Reload fo listen ?rc a) i = Some inst'"
  then have e: "reload_entry fo listen ?rc a i = Some inst'" by (simp add: AccessNode_Reload_def)
  then obtain svc where inc: "incoming_services ?svcs i = Some svc"
    by (auto simp: reload_entry_def buildReloadableConfig_def split: option.splits)
  from incoming_services_in [OF inc] have svc: "svc \<in> set ?svcs" "sc_ID svc = i" by auto
  have "sc_ID (si_cfg inst') = i \<and> (\<forall>v \<in> set ?svcs. distinct (map sc_ID ?svcs) \<longrightarrow> sc_ID v = i \<longrightarrow>
      Addrs (ss_pool (si_state inst')) = SortGroups (sc_Groups v))"
  proof (cases "an_services a i")
    case None
    with e inc obtain inst where n: "newServiceInstance fo svc (an_frameSize a) (an_psk a) = Inr inst"
      "instance_start listen inst = (inst', None)"
      by (auto simp: reload_entry_def buildReloadableConfig_def split: sum.splits prod.splits option.splits)
    then have "si_cfg inst' = si_cfg inst" "si_state inst' = si_state inst" by (auto simp: instance_start_def split: option.splits)
    with newServiceInstance_facts [OF n(1)] svc show ?thesis by (auto dest: distinct_map_eq)
  next
    case (Some inst)
    have id: "sc_ID (si_cfg inst') = i"
      using e inc Some assms(2) [OF Some]
      by (auto simp: reload_entry_def buildReloadableConfig_def reloadGroups_def Let_def split: option.splits if_splits)
    have "Addrs (ss_pool (si_state inst')) = SortGroups (sc_Groups v)"
      if v: "v \<in> set ?svcs" "distinct (map sc_ID ?svcs)" "sc_ID v = i" for v
    proof -
      have "groups_ok (sc_Groups v)"
        using config_services_ok(1) [OF assms(1)] v(1) by (auto simp: list_all_iff access_service_ok_def)
      from groups_ok_sorted [OF this] have h: "SortGroups (sc_Groups v) \<noteq> []" by simp
      moreover have "SortGroups [] = []" by (simp add: set_SortGroups flip: set_empty)
      ultimately have "sc_Groups v \<noteq> []" by auto
      then have "rl_Groups ?rc i = Some (sc_Groups v)"
        using collect_distinct [OF v(2,1), of "\<lambda>s. length (sc_Groups s) > 0" sc_Groups] v(3) by (simp add: buildReloadableConfig_def)
      with e inc Some h show ?thesis
        by (auto simp: reload_entry_def reloadGroups_def buildReloadableConfig_def Let_def)
    qed
    with id show ?thesis by simp
  qed
  with svc show "sc_ID (si_cfg inst') = i \<and> i \<in> sc_ID ` set ?svcs \<and> (\<forall>v \<in> set ?svcs. distinct (map sc_ID ?svcs) \<longrightarrow> sc_ID v = i \<longrightarrow>
      Addrs (ss_pool (si_state inst')) = SortGroups (sc_Groups v))" by auto
qed

lemma relay_follows_reload:
  assumes "config_ok c" and "relay_ok n"
  shows "relay_follows c (RelayNode_Reload (list_ex has_routes (services_of rc_Services (cf_Relay c))) (buildReloadableConfig c) n)"
proof -
  let ?svcs = "services_of rc_Services (cf_Relay c)" and ?rc = "buildReloadableConfig c"
  have ok: "relay_ok (RelayNode_Reload b ?rc n)" for b
    using assms(2) by (auto simp: RelayNode_Reload_def cleanStaleDialers_def relay_ok_def Let_def)
  have "rn_routes (RelayNode_Reload (list_ex has_routes ?svcs) ?rc n) (sc_ID v) = Some (sc_Routes v)"
    if v: "v \<in> set ?svcs" "distinct (map sc_ID ?svcs)" for v
  proof -
    have h: "has_routes v"
      using config_services_ok(2) [OF assms(1)] v(1) by (auto simp: list_all_iff relay_service_ok_def has_routes_def)
    with v(1) have "list_ex has_routes ?svcs" by (auto simp: list_ex_iff)
    moreover have "rl_Routes ?rc (sc_ID v) = Some (sc_Routes v)"
      using collect_distinct [OF v(2,1), of has_routes sc_Routes] h by (simp add: buildReloadableConfig_def)
    ultimately show ?thesis by (simp add: RelayNode_Reload_def cleanStaleDialers_def Let_def)
  qed
  with ok show ?thesis by (simp add: relay_follows_def)
qed

lemma egress_follows_reload:
  assumes "config_ok c"
  shows "egress_follows c (EgressNode_Reload (list_ex has_origin (services_of ec_Services (cf_Egress c))) (buildReloadableConfig c) n)"
  unfolding egress_follows_def
proof (intro ballI impI)
  let ?svcs = "services_of ec_Services (cf_Egress c)" and ?rc = "buildReloadableConfig c"
  fix v assume v: "v \<in> set ?svcs" "distinct (map sc_ID ?svcs)"
  have h: "has_origin v"
    using config_services_ok(3) [OF assms] v(1) by (auto simp: list_all_iff egress_service_ok_def has_origin_def)
  with v(1) have "list_ex has_origin ?svcs" by (auto simp: list_ex_iff)
  moreover have "rl_Origins ?rc (sc_ID v) = Some (origin_update_of v)"
    using collect_distinct [OF v(2,1), of has_origin origin_update_of] h by (simp add: buildReloadableConfig_def)
  moreover have "origin_of_update (origin_update_of v) = origin_of_service v"
    by (simp add: origin_of_update_def origin_update_of_def origin_of_service_def)
  ultimately show "en_origins (EgressNode_Reload (list_ex has_origin ?svcs) ?rc n) (sc_ID v) = Some (origin_of_service v)"
    by (simp add: EgressNode_Reload_def map_add_def)
qed

lemma roles_follow_reload:
  assumes "roles_follow live s" and "handleReload fo listen parsed (s, live) = (s', live')"
  shows "roles_follow live' s'"
proof (cases "Load parsed")
  case (Inr c)
  note ok = Load_ok [OF Inr]
  have s': "live' = c" "s' = ProxyServer_Reload fo listen (list_ex has_routes (services_of rc_Services (cf_Relay c)))
      (list_ex has_origin (services_of ec_Services (cf_Egress c))) (buildReloadableConfig c) s"
    using assms(2) Inr by (auto simp: handleReload_def)
  have "access_follows c (AccessNode_Reload fo listen (buildReloadableConfig c) a)" if "ps_access s = Some a" for a
    by (rule access_follows_reload [OF ok]) (use assms(1) that in \<open>auto simp: roles_follow_def access_follows_def\<close>)
  moreover have "relay_follows c (RelayNode_Reload (list_ex has_routes (services_of rc_Services (cf_Relay c)))
      (buildReloadableConfig c) n)" if "ps_relay s = Some n" for n
    by (rule relay_follows_reload [OF ok]) (use assms(1) that in \<open>auto simp: roles_follow_def relay_follows_def\<close>)
  ultimately show ?thesis
    using egress_follows_reload [OF ok] s'
    by (auto simp: roles_follow_def ProxyServer_Reload_def option.pred_map comp_def option.pred_True split: option.splits)
      (auto simp: pred_option_def elim!: option.set_cases)
qed (use assms in \<open>auto simp: handleReload_def\<close>)

subsection \<open>While the roles work\<close>

lemma access_follows_update:
  assumes "access_follows c a" and "an_services a i = Some inst"
    and "si_cfg inst' = si_cfg inst" and "Addrs (ss_pool (si_state inst')) = Addrs (ss_pool (si_state inst))"
  shows "access_follows c (a\<lparr>an_services := (an_services a)(i \<mapsto> inst')\<rparr>)"
  unfolding access_follows_def
proof (intro allI impI)
  fix j x assume "an_services (a\<lparr>an_services := (an_services a)(i \<mapsto> inst')\<rparr>) j = Some x"
  then obtain y where "an_services a j = Some y" "si_cfg x = si_cfg y" "Addrs (ss_pool (si_state x)) = Addrs (ss_pool (si_state y))"
    using assms(2-4) by (auto split: if_splits)
  with assms(1) show "sc_ID (si_cfg x) = j \<and> j \<in> sc_ID ` set (services_of ac_Services (cf_Access c)) \<and>
      (\<forall>v \<in> set (services_of ac_Services (cf_Access c)). distinct (map sc_ID (services_of ac_Services (cf_Access c))) \<longrightarrow>
        sc_ID v = j \<longrightarrow> Addrs (ss_pool (si_state x)) = SortGroups (sc_Groups v))"
    unfolding access_follows_def by metis
qed

lemma access_accept_follows:
  assumes "access_follows c a" and "access_accept env fo net i remote a = (out, a')"
  shows "access_follows c a' \<and>
    (\<forall>d. out = Some (ConnL7 d) \<or> out = Some (ConnRelay d) \<longrightarrow>
       (\<exists>inst. an_services a i = Some inst \<and> dd_target d \<in> dialWebSocketAddr ` set (Addrs (ss_pool (si_state inst)))))"
proof (cases "\<exists>inst. an_services a i = Some inst \<and> si_running inst")
  case True
  then obtain inst where inst: "an_services a i = Some inst" "si_running inst" by blast
  obtain inst' o1 where h: "handleConn env fo net remote inst = (inst', o1)" by fastforce
  have k: "si_cfg inst' = si_cfg inst \<and> Addrs (ss_pool (si_state inst')) = Addrs (ss_pool (si_state inst)) \<and>
      (\<forall>d. o1 = ConnL7 d \<or> o1 = ConnRelay d \<longrightarrow> dd_target d \<in> dialWebSocketAddr ` set (Addrs (ss_pool (si_state inst))))"
  proof (cases "DialWithFallback env fo (si_psk inst) net (ss_pool (si_state inst)) (access_request inst remote)")
    case (Some x)
    obtain res pool req where x: "x = (res, pool, req)" by (cases x) blast
    from DialWithFallback_facts [OF Some [unfolded x]] h Some x show ?thesis
      by (cases res) (auto simp: handleConn_def Let_def split: if_splits)
  qed (use h in \<open>simp add: handleConn_def\<close>)
  have "out = Some o1" "a' = a\<lparr>an_services := (an_services a)(i \<mapsto> inst')\<rparr>"
    using assms(2) inst h by (simp_all add: access_accept_def)
  with access_follows_update [OF assms(1) inst(1), of inst'] k inst(1) show ?thesis by auto
qed (use assms in \<open>auto simp: access_accept_def split: option.splits if_splits\<close>)

lemma Addrs_probeAll: "Addrs (probeAll fo probe p) = Addrs p"
  using fold_probeOne [of fo probe "hp_endpoints p" p] by (simp add: probeAll_def Addrs_def)

lemma access_probe_follows: "access_follows c a \<Longrightarrow> access_follows c (access_probe fo probe i a)"
  by (auto simp: access_probe_def Addrs_probeAll intro: access_follows_update split: option.splits)

lemma relay_probe_follows: "relay_follows c n \<Longrightarrow> relay_follows c (relay_probe fo probe key n)"
  using fold_probeOne [of fo probe]
  by (auto simp: relay_probe_def relay_follows_def relay_ok_def pool_ok_def probeAll_def split: option.splits)

lemma handleTunnel_keeps:
  assumes "relay_ok n" and "RelayNode_handleTunnel env fo net req n = (n', res)"
  shows "relay_ok n' \<and> rn_routes n' = rn_routes n"
proof (cases "rn_routes n (hr_ServiceID req)")
  case (Some rs)
  let ?hops = "HopsForIDC rs (hr_TargetIDC req)"
  obtain n1 p where df: "dialerFor fo (hr_ServiceID req) (hr_TargetIDC req) ?hops n = (n1, p)" by fastforce
  note f = dialerFor_facts [OF assms(1) df]
  show ?thesis
  proof (cases "DialWithFallback env fo (rn_psk n) net p (req\<lparr>hr_HopCount := go_int64 (hr_HopCount req + 1)\<rparr>)")
    case None
    with assms Some df f show ?thesis by (auto simp: RelayNode_handleTunnel_def Let_def split: if_splits)
  next
    case (Some out)
    then obtain r p' q where d: "DialWithFallback env fo (rn_psk n) net p (req\<lparr>hr_HopCount := go_int64 (hr_HopCount req + 1)\<rparr>) = Some (r, p', q)"
      by (cases out) simp
    from DialWithFallback_facts [OF d] f have "pool_ok p'" by simp
    with assms \<open>rn_routes n (hr_ServiceID req) = Some rs\<close> df d f relay_ok_update [of n1 p'] show ?thesis
      by (auto simp: RelayNode_handleTunnel_def Let_def split: if_splits)
  qed
qed (use assms in \<open>simp add: RelayNode_handleTunnel_def\<close>)

text \<open>
  What a configuration asks of a connection that was served under it: a client was of a service that
  it names, and the connection goes to one of the service's hops; a relayed request goes to a hop
  of the service for the data centre, and a request at the egress to the service's origin.
\<close>

fun obeys :: "proxy_config \<Rightarrow> served \<Rightarrow> bool" where
  "obeys c (ServedClient i out) \<longleftrightarrow> i \<in> sc_ID ` set (services_of ac_Services (cf_Access c)) \<and>
     (\<forall>v \<in> set (services_of ac_Services (cf_Access c)). distinct (map sc_ID (services_of ac_Services (cf_Access c))) \<longrightarrow>
        sc_ID v = i \<longrightarrow> (\<forall>d. out = ConnL7 d \<or> out = ConnRelay d \<longrightarrow>
          dd_target d \<in> dialWebSocketAddr ` set (SortGroups (sc_Groups v))))"
| "obeys c (ServedRelay req out) \<longleftrightarrow>
     (\<forall>v \<in> set (services_of rc_Services (cf_Relay c)). distinct (map sc_ID (services_of rc_Services (cf_Relay c))) \<longrightarrow>
        sc_ID v = hr_ServiceID req \<longrightarrow> (\<forall>d. out = RelayForward d \<longrightarrow>
          dd_target d \<in> dialWebSocketAddr ` set (HopsForIDC (sc_Routes v) (hr_TargetIDC req))))"
| "obeys c (ServedEgress req out) \<longleftrightarrow>
     (\<forall>v \<in> set (services_of ec_Services (cf_Egress c)). distinct (map sc_ID (services_of ec_Services (cf_Egress c))) \<longrightarrow>
        sc_ID v = hr_ServiceID req \<longrightarrow> (\<forall>conn. out = EgressOrigin conn \<longrightarrow>
          og_addr conn = oc_Host (sc_Origin v) @ '':'' @ show_int (oc_Port (sc_Origin v))))"

lemma roles_step_follows:
  assumes "roles_follow c s" and "roles_step fo ev s = (out, s')"
  shows "roles_follow c s' \<and> pred_option (obeys c) out"
proof (cases ev)
  case (ClientConn i env net remote)
  show ?thesis
  proof (cases "ps_access s")
    case (Some a)
    with assms(1) have a: "access_follows c a" by (simp add: roles_follow_def)
    obtain o1 a' where h: "access_accept env fo net i remote a = (o1, a')" by fastforce
    have "o1 = None \<or> (\<exists>inst. an_services a i = Some inst)"
      using h by (auto simp: access_accept_def split: option.splits)
    then have "obeys c (ServedClient i x)" if "o1 = Some x" for x
      using access_accept_follows [OF a h] a that unfolding obeys.simps access_follows_def by force
    with assms Some ClientConn h access_accept_follows [OF a h] show ?thesis
      by (auto simp: roles_step_def roles_follow_def pred_option_def)
  qed (use assms ClientConn in \<open>simp add: roles_step_def\<close>)
next
  case (RelayRequest env net req)
  show ?thesis
  proof (cases "ps_relay s")
    case (Some n)
    with assms(1) have n: "relay_follows c n" by (simp add: roles_follow_def)
    obtain n' res where h: "RelayNode_handleTunnel env fo net req n = (n', res)" by fastforce
    from n have ok: "relay_ok n" by (simp add: relay_follows_def)
    from n handleTunnel_keeps [OF ok h] have "relay_follows c n'" by (simp add: relay_follows_def)
    moreover have "obeys c (ServedRelay req res)"
      using forward_target [OF ok] h n unfolding obeys.simps relay_follows_def by force
    ultimately show ?thesis using assms RelayRequest Some h by (auto simp: roles_step_def roles_follow_def)
  qed (use assms RelayRequest in \<open>simp add: roles_step_def\<close>)
next
  case (EgressRequest net req)
  have dial: "og_addr conn = a" if "dialOrigin net a tls = Inr conn" for a tls conn
    using that by (auto simp: dialOrigin_def Let_def split: option.splits if_splits)
  show ?thesis
  proof (cases "ps_egress s")
    case (Some n)
    with assms(1) have n: "egress_follows c n" by (simp add: roles_follow_def)
    have "obeys c (ServedEgress req (EgressNode_handleTunnel net req n))"
      using n dial by (auto simp: egress_follows_def EgressNode_handleTunnel_def origin_addr_def origin_of_service_def
        split: option.splits sum.splits if_splits)
    with assms EgressRequest Some show ?thesis by (auto simp: roles_step_def)
  qed (use assms EgressRequest in \<open>simp add: roles_step_def\<close>)
next
  case (ProbeService i probe)
  with assms access_probe_follows show ?thesis
    by (cases "ps_access s") (auto simp: roles_step_def roles_follow_def)
next
  case (ProbeDialer key probe)
  with assms relay_probe_follows [of c _ fo probe key] show ?thesis
    by (cases "ps_relay s") (auto simp: roles_step_def roles_follow_def)
qed (use assms in \<open>auto simp: roles_step_def\<close>)

section \<open>The process follows its configuration\<close>

lemma main_roles:
  assumes "proxy_main x509 ds tcp fo listen order override parsed = Inr p"
  shows "roles_follow (pr_live p) (pr_srv p)"
proof -
  obtain srv srv' where "NewProxyServer fo (pr_live p) = Inr srv" "ProxyServer_Start listen order srv = (None, srv')" "pr_srv p = srv'"
    using assms by (auto simp: proxy_main_def Let_def split: sum.splits prod.splits option.splits)
  with roles_follow_start show ?thesis by metis
qed

lemma process_reload_live:
  "pr_live (process_reload x509 ds fo listen parsed p) =
     (case Load (map_sum (\<lambda>e. e) fst parsed) of Inr c \<Rightarrow> c | Inl e \<Rightarrow> pr_live p)"
  by (auto simp: process_reload_def handleReload_def Load_def split: sum.splits prod.splits option.splits)

lemma process_reload_roles:
  assumes "roles_follow (pr_live p) (pr_srv p)" and "q = process_reload x509 ds fo listen parsed p"
  shows "roles_follow (pr_live q) (pr_srv q)"
proof (cases "\<exists>c lg. parsed = Inr (c, lg) \<and> \<not> isl (Load (Inr c))")
  case True
  then obtain c lg c' where l: "parsed = Inr (c, lg)" "Load (Inr c) = Inr c'"
    by (metis sum.collapse(2))
  obtain srv live where h: "handleReload fo listen (Inr c) (pr_srv p, pr_live p) = (srv, live)" by fastforce
  obtain x rt et where w: "with_disks (ProxyServer_ReloadCert x509) ds (pr_relayTunnel p) (pr_egressTunnel p) = (x, rt, et)"
    by (metis prod_cases3)
  have "pr_srv q = srv" "pr_live q = live" using h w l assms(2) by (simp_all add: process_reload_def)
  with roles_follow_reload [OF assms(1) h] show ?thesis by simp
next
  case False
  then have "q = p" using assms(2) by (auto simp: process_reload_def split: sum.splits prod.splits)
  with assms(1) show ?thesis by simp
qed

lemma process_run_obeys:
  "process_run x509 fo evs p = (out, q) \<Longrightarrow> roles_follow (pr_live p) (pr_srv p) \<Longrightarrow> (c, sv) \<in> set out \<Longrightarrow> obeys c sv"
proof (induction evs arbitrary: p out)
  case (Cons ev evs)
  obtain o1 p1 where st: "process_step x509 fo ev p = (o1, p1)" by fastforce
  obtain outs p2 where r: "process_run x509 fo evs p1 = (outs, p2)" by fastforce
  show ?case
  proof (cases "is_quit ev")
    case False
    have "roles_follow (pr_live p1) (pr_srv p1) \<and> pred_option (obeys (pr_live p)) o1"
    proof (cases "\<exists>ds listen parsed. ev = SigHup ds listen parsed")
      case True
      with st process_reload_roles [OF Cons.prems(2)] show ?thesis by (auto simp: process_step_def)
    next
      case no_hup: False
      obtain s where s: "roles_step fo ev (pr_srv p) = (o1, s)" "p1 = p\<lparr>pr_srv := s\<rparr>"
        using st no_hup False by (cases ev) (auto simp: process_step_def split: prod.splits)
      with roles_step_follows [OF Cons.prems(2) s(1)] show ?thesis by simp
    qed
    with Cons.IH [of p1 outs] Cons.prems(1,3) st r False show ?thesis by (auto split: option.splits)
  qed (use Cons.prems(1,3) st in simp)
qed simp

text \<open>The configurations that were accepted, up to the signal to stop.\<close>

fun accepted :: "process_event list \<Rightarrow> proxy_config list" where
  "accepted [] = []"
| "accepted (ev # evs) =
     (if is_quit ev then []
      else case ev of
        SigHup ds listen parsed \<Rightarrow>
          (case Load (map_sum (\<lambda>e. e) fst parsed) of Inr c \<Rightarrow> c # accepted evs | Inl e \<Rightarrow> accepted evs)
      | _ \<Rightarrow> accepted evs)"

lemma live_is_last: "process_run x509 fo evs p = (out, q) \<Longrightarrow> pr_live q = last (pr_live p # accepted evs)"
proof (induction evs arbitrary: p out)
  case (Cons ev evs)
  obtain o1 p1 where st: "process_step x509 fo ev p = (o1, p1)" by fastforce
  obtain outs p2 where r: "process_run x509 fo evs p1 = (outs, p2)" by fastforce
  show ?case
  proof (cases "is_quit ev")
    case True
    with Cons.prems st show ?thesis by (cases ev) (auto simp: process_step_def process_stop_def)
  next
    case False
    have "pr_live p1 = last (pr_live p # accepted [ev])"
      using st False by (cases ev) (auto simp: process_step_def process_reload_live split: prod.splits sum.splits)
    moreover have "accepted (ev # evs) = accepted [ev] @ accepted evs"
      using False by (cases ev) (auto split: sum.splits)
    ultimately show ?thesis using Cons.IH [of p1 outs] Cons.prems st r False by auto
  qed
qed simp


text \<open>A relay started from the example configuration forwards a request after a reload that is refused.\<close>

definition example_events :: "process_event list" where
  "example_events =
     [SigHup (Map.empty, Map.empty, Map.empty, Map.empty) (\<lambda>p. None) (Inl (ErrNet ''no file'')),
      RelayRequest example_env (\<lambda>k t. net_up) example_signed, SigQuit]"

definition example_live :: proxy_config where
  "example_live = example_config\<lparr>cf_Relay :=
     Some \<lparr>rc_Tunnel = default_timeouts example_tunnel, rc_Services = [example_service]\<rparr>\<rparr>"

definition example_process :: "(int, nat) process" where
  "example_process =
     \<lparr>pr_srv = \<lparr>ps_access = None,
        ps_relay = Some \<lparr>rn_nodeID = ''n1'', rn_psk = tn_PSK (default_timeouts example_tunnel),
          rn_routes = [''web'' \<mapsto> sc_Routes example_service], rn_dialers = Map.empty,
          rn_frameSize = tn_MaxFrameSize (default_timeouts example_tunnel)\<rparr>, ps_egress = None\<rparr>,
      pr_live = example_live, pr_liveLog = defaultLog, pr_logger = buildLogger defaultLog,
      pr_relayTunnel = Some (start_tunnel example_x509 (Map.empty, Map.empty, Map.empty, Map.empty) (\<lambda>a. None)
        (default_timeouts example_tunnel)), pr_egressTunnel = None\<rparr>"

lemma example_starts:
  "proxy_main example_x509 (Map.empty, Map.empty, Map.empty, Map.empty) (\<lambda>a. None) example_floats (\<lambda>p. None) [] ''''
     (Inr (example_config, defaultLog)) = Inr example_process"
proof -
  have "Load (Inr example_config) = Inr example_live" by (simp add: Load_def example_config_valid example_live_def)
  moreover have "NewProxyServer example_floats example_live = Inr (pr_srv example_process)"
    by (simp add: NewProxyServer_def example_live_def example_config_def NewRelayNode_def buildRouteTable_def
      example_service_def example_process_def)
  ultimately show ?thesis
    by (simp add: proxy_main_def ProxyServer_Start_def Let_def example_process_def)
      (simp add: example_live_def example_config_def)
qed

definition example_node :: "int relay_node" where
  "example_node = \<lparr>rn_nodeID = ''n1'', rn_psk = tn_PSK (default_timeouts example_tunnel),
     rn_routes = [''web'' \<mapsto> sc_Routes example_service], rn_dialers = Map.empty,
     rn_frameSize = tn_MaxFrameSize (default_timeouts example_tunnel)\<rparr>"

definition is_forward :: "relay_outcome \<Rightarrow> bool" where
  "is_forward res = (case res of RelayForward d \<Rightarrow> True | _ \<Rightarrow> False)"

lemma example_node_forwards:
  "is_forward (snd (RelayNode_handleTunnel example_env example_floats (\<lambda>k t. net_up) example_signed example_node))"
  by code_simp


end
